(* ===== verification/Prelude.thy ===== *)
theory Prelude
  imports "HOL-Library.Word" "HOL-Library.Sublist"
begin

text \<open>
  Shared ground of the development: the machine integer types of the C sources, the
  collections the component theories fill, the interface of a two-byte wire codec, and the
  generic lemmas on lists and words that carry the component proofs.

  \<^item> \<open>uint8_t\<close>, \<open>uint16_t\<close>, \<open>uint32_t\<close> and \<open>uint64_t\<close> are words of that width, so
    that \<open>+\<close> wraps and comparisons are unsigned, as in C;
  \<^item> \<open>size_t\<close> is \<open>nat\<close>: every size the sources add or multiply is bounded by a check made
    before, far below \<open>2 ^ 32\<close>;
  \<^item> a byte buffer with its length is a list of bytes.
\<close>

unbundle bit_operations_syntax

type_synonym u8 = "8 word"
type_synonym u16 = "16 word"
type_synonym u32 = "32 word"
type_synonym u64 = "64 word"
type_synonym bytes = "u8 list"

named_theorems mb_defs \<open>definitions of small C helpers, unfolded in component proofs\<close>
named_theorems mb_codec \<open>rewrite rules for encoded bytes\<close>
named_theorems mb_bounds \<open>length and range facts\<close>

section \<open>Two-byte wire codecs\<close>

text \<open>
  The contract of a 16-bit wire codec: a value is written as two bytes and read back from
  any offset. Both byte orders of the sources, the big-endian PDU fields and the
  little-endian CRC trailer, are instances.
\<close>

locale word16_codec =
  fixes enc :: "u16 \<Rightarrow> bytes"
    and dec :: "bytes \<Rightarrow> nat \<Rightarrow> u16"
  assumes enc_length: "length (enc v) = 2"
    and dec_enc: "dec (pre @ enc v @ post) (length pre) = v"
    and enc_dec: "i + 1 < length xs \<Longrightarrow> enc (dec xs i) = [xs ! i, xs ! (i + 1)]"
begin

lemma enc_inject: "enc v = enc w \<longleftrightarrow> v = w"
  by (metis dec_enc append_Nil list.size(3))

lemma dec_enc_front: "dec (enc v @ post) 0 = v"
  using dec_enc [of "[]" v post] by simp

lemma length_enc_list: "length (concat (map enc vs)) = 2 * length vs"
  by (induction vs) (simp_all add: enc_length)

lemma dec_enc_list:
  assumes "i < length vs"
  shows "dec (pre @ concat (map enc vs) @ post) (length pre + 2 * i) = vs ! i"
  using assms
proof (induction vs arbitrary: pre i)
  case Nil
  then show ?case by simp
next
  case (Cons v vs)
  show ?case
  proof (cases i)
    case 0
    then show ?thesis using dec_enc [of pre v "concat (map enc vs) @ post"] by simp
  next
    case (Suc j)
    then have "j < length vs" using Cons.prems by simp
    from Cons.IH [OF this, of "pre @ enc v"] show ?thesis
      by (simp add: Suc enc_length)
  qed
qed

end

section \<open>Lists\<close>

lemma nth_append_right_eq [mb_codec]: "length xs = n \<Longrightarrow> (xs @ ys) ! (n + i) = ys ! i"
  by auto

lemma length_concat_map_const [mb_bounds]:
  "(\<And>x. x \<in> set xs \<Longrightarrow> length (f x) = c) \<Longrightarrow> length (concat (map f xs)) = length xs * c"
  by (induction xs) auto

lemma list_eq_from_nth:
  "length xs = n \<Longrightarrow> length ys = n \<Longrightarrow> (\<And>i. i < n \<Longrightarrow> xs ! i = ys ! i) \<Longrightarrow> xs = ys"
  by (rule nth_equalityI) auto

text \<open>A copy of a block of bytes into a fixed array, as \<open>memcpy(&a[off], src, len)\<close> does.\<close>

definition memcpy_at :: "'a list \<Rightarrow> nat \<Rightarrow> 'a list \<Rightarrow> 'a list" where
  "memcpy_at dst off src = take off dst @ src @ drop (off + length src) dst"

lemma length_memcpy_at [simp]:
  "off + length src \<le> length dst \<Longrightarrow> length (memcpy_at dst off src) = length dst"
  by (simp add: memcpy_at_def)

lemma memcpy_at_nth:
  assumes "off + length src \<le> length dst" "i < length dst"
  shows "memcpy_at dst off src ! i =
    (if off \<le> i \<and> i < off + length src then src ! (i - off) else dst ! i)"
  using assms by (auto simp: memcpy_at_def nth_append min_def)

section \<open>Words\<close>

lemma unat_u8_less [mb_bounds]: "unat (b :: u8) < 256"
  using unsigned_less [of b, where 'a = nat] by simp

lemma unat_u16_less [mb_bounds]: "unat (v :: u16) < 65536"
  using unsigned_less [of v, where 'a = nat] by simp

lemma unat_u32_less [mb_bounds]: "unat (v :: u32) < 4294967296"
  using unsigned_less [of v, where 'a = nat] by simp

lemma word_numeral_le_1 [simp]:
  "(numeral k :: 'a::len word) \<le> 1 \<longleftrightarrow> unat (numeral k :: 'a word) \<le> 1"
  "(numeral k :: 'a::len word) < 1 \<longleftrightarrow> unat (numeral k :: 'a word) < 1"
  by (simp_all add: word_le_nat_alt word_less_nat_alt)

lemma unat_of_nat_u16 [simp]: "n < 65536 \<Longrightarrow> unat (of_nat n :: u16) = n"
  by (simp add: unat_of_nat)

lemma unat_of_nat_u8 [simp]: "n < 256 \<Longrightarrow> unat (of_nat n :: u8) = n"
  by (simp add: unat_of_nat)

lemma ucast_of_nat_u8: "(ucast (of_nat n :: u16) :: u8) = of_nat n"
  by (simp add: word_unat_eq_iff unsigned_ucast_eq unat_of_nat take_bit_eq_mod mod_mod_cancel)

lemma unat_add_of_nat_u16:
  "unat (a :: u16) + n < 65536 \<Longrightarrow> unat (a + of_nat n) = unat a + n"
  by (simp add: unat_word_ariths unat_of_nat)

lemma word_xor_eq_0: "x XOR y = 0 \<longleftrightarrow> x = y" for x y :: "'a::len word"
proof
  assume "x XOR y = 0"
  then have "bit (x XOR y) n = False" for n by simp
  then show "x = y" by (intro bit_word_eqI) (simp add: bit_xor_iff)
qed simp

lemma word_xor_left_cancel: "x XOR y = x XOR z \<longleftrightarrow> y = z" for x y z :: "'a::len word"
proof -
  have "x XOR y = x XOR z \<longleftrightarrow> (x XOR y) XOR (x XOR z) = 0" by (simp add: word_xor_eq_0)
  also have "(x XOR y) XOR (x XOR z) = y XOR z"
    by (rule bit_word_eqI) (auto simp: bit_xor_iff)
  finally show ?thesis by (simp add: word_xor_eq_0)
qed

lemma word_xor_right_cancel: "y XOR x = z XOR x \<longleftrightarrow> y = z" for x y z :: "'a::len word"
  using word_xor_left_cancel [of x y z] by (simp add: xor.commute)

end
