(* ===== verification/Bytes.thy ===== *)
theory Bytes
  imports Prelude
begin

text \<open>
  The byte-order helpers that the protocol sources share: \<open>read_be16\<close> and \<open>write_be16\<close>
  (modbus_protocol.c, with the same bodies in modbus_rtu_master.c and
  modbus_rtu_diagnostics.c) for the big-endian PDU fields, \<open>read_crc_le\<close> and
  \<open>write_crc_le\<close> (modbus_rtu.c) for the CRC trailer. A pointer into a buffer is the
  buffer and an offset. Both pairs meet the codec contract of the prelude.
\<close>

definition read_be16 :: "bytes \<Rightarrow> nat \<Rightarrow> u16" where
  "read_be16 p i = push_bit 8 (ucast (p ! i)) OR ucast (p ! (i + 1))"

definition write_be16 :: "u16 \<Rightarrow> bytes" where
  "write_be16 v = [ucast (drop_bit 8 v), ucast v]"

definition read_crc_le :: "bytes \<Rightarrow> nat \<Rightarrow> u16" where
  "read_crc_le p i = ucast (p ! i) OR push_bit 8 (ucast (p ! (i + 1)))"

definition write_crc_le :: "u16 \<Rightarrow> bytes" where
  "write_crc_le crc = [ucast crc, ucast (drop_bit 8 crc)]"

lemma join_split_u16:
  "push_bit 8 (ucast (ucast (drop_bit 8 v) :: u8)) OR ucast (ucast v :: u8) = (v :: u16)"
  by (rule bit_word_eqI) (auto simp: bit_simps)

lemma split_join_hi: "ucast (drop_bit 8 (push_bit 8 (ucast h) OR ucast l :: u16)) = (h :: u8)"
  for l :: u8
  by (rule bit_word_eqI) (auto simp: bit_simps dest: bit_imp_le_length)

lemma split_join_lo: "ucast (push_bit 8 (ucast h) OR ucast l :: u16) = (l :: u8)"
  for h :: u8
  by (rule bit_word_eqI) (auto simp: bit_simps dest: bit_imp_le_length)

interpretation be: word16_codec write_be16 read_be16
proof unfold_locales
  show "length (write_be16 v) = 2" for v
    by (simp add: write_be16_def)
  show "read_be16 (pre @ write_be16 v @ post) (length pre) = v" for pre v post
    by (simp add: read_be16_def write_be16_def nth_append join_split_u16)
  show "write_be16 (read_be16 xs i) = [xs ! i, xs ! (i + 1)]" if "i + 1 < length xs" for xs i
    by (simp only: read_be16_def write_be16_def split_join_hi split_join_lo)
qed

interpretation le: word16_codec write_crc_le read_crc_le
proof unfold_locales
  show "length (write_crc_le v) = 2" for v
    by (simp add: write_crc_le_def)
  show "read_crc_le (pre @ write_crc_le v @ post) (length pre) = v" for pre v post
    using join_split_u16 [of v]
    by (simp add: read_crc_le_def write_crc_le_def nth_append or.commute)
  show "write_crc_le (read_crc_le xs i) = [xs ! i, xs ! (i + 1)]" if "i + 1 < length xs" for xs i
    by (simp only: read_crc_le_def write_crc_le_def or.commute [of "ucast (xs ! i)"]
        split_join_hi split_join_lo)
qed

declare be.enc_length [simp] le.enc_length [simp]

lemma write_be16_Cons: "write_be16 v = [hd (write_be16 v), last (write_be16 v)]"
  by (simp add: write_be16_def)

text \<open>Reading a field at a fixed offset of an explicit list of bytes.\<close>

lemma read_be16_Cons [simp]: "0 < i \<Longrightarrow> read_be16 (b # bs) i = read_be16 bs (i - 1)"
  by (cases i) (simp_all add: read_be16_def)

lemma read_be16_write_0 [simp]: "read_be16 (write_be16 v @ bs) 0 = v"
  by (rule be.dec_enc_front)

lemma read_be16_skip [simp]: "2 \<le> i \<Longrightarrow> read_be16 (write_be16 v @ bs) i = read_be16 bs (i - 2)"
  by (simp add: write_be16_def numeral_2_eq_2)

lemma read_be16_write_0' [simp]: "read_be16 (write_be16 v) 0 = v"
  using be.dec_enc_front [of v "[]"] by simp

lemma read_be16_append:
  "i + 1 < length xs \<Longrightarrow> read_be16 (xs @ ys) i = read_be16 xs i"
  by (simp add: read_be16_def nth_append)

text \<open>The equations of the helpers, as a bundle for the proofs that go down to single bytes.\<close>

lemmas byte_order_defs = read_be16_def write_be16_def read_crc_le_def write_crc_le_def

end
