(* ===== verification/Register_Map.thy ===== *)
theory Register_Map
  imports Bytes
begin

text \<open>
  The four register banks of modbus.c and their accessors. The bank sizes are compile-time
  constants (\<open>MB_MAX_COILS\<close> and its siblings, 256 by default, 1 to 65536 by the
  preprocessor checks of platform_port.h): here they are the lengths of the arrays, so
  every result holds for every configuration. The weak application hooks
  \<open>mb_on_write_coil\<close> and \<open>mb_on_write_hreg\<close> are modelled by the log of their calls.
  \<open>mb_lock\<close> and \<open>mb_unlock\<close> are empty without \<open>WITH_RTOS\<close> and are left out.
\<close>

datatype hook_event = On_Write_Coil u16 u8 | On_Write_Hreg u16 u16

record mb_banks =
  coils :: "u8 list"
  discrete_inputs :: "u8 list"
  holding_registers :: "u16 list"
  input_registers :: "u16 list"
  hook_log :: "hook_event list"

definition MB_MAX_COILS :: "mb_banks \<Rightarrow> nat" where
  "MB_MAX_COILS s = length (coils s)"

definition MB_MAX_DISCRETE_INPUTS :: "mb_banks \<Rightarrow> nat" where
  "MB_MAX_DISCRETE_INPUTS s = length (discrete_inputs s)"

definition MB_MAX_HREGS :: "mb_banks \<Rightarrow> nat" where
  "MB_MAX_HREGS s = length (holding_registers s)"

definition MB_MAX_IREGS :: "mb_banks \<Rightarrow> nat" where
  "MB_MAX_IREGS s = length (input_registers s)"

lemmas bank_size_defs [mb_defs] =
  MB_MAX_COILS_def MB_MAX_DISCRETE_INPUTS_def MB_MAX_HREGS_def MB_MAX_IREGS_def

definition init_banks :: "mb_banks \<Rightarrow> mb_banks" where
  "init_banks s = s\<lparr>
     coils := replicate (length (coils s)) 0,
     discrete_inputs := replicate (length (discrete_inputs s)) 0,
     holding_registers := replicate (length (holding_registers s)) 0,
     input_registers := replicate (length (input_registers s)) 0\<rparr>"

definition mb_get_coil :: "mb_banks \<Rightarrow> u16 \<Rightarrow> u8" where
  "mb_get_coil s address =
     (if unat address < MB_MAX_COILS s then coils s ! unat address AND 1 else 0)"

definition mb_set_coil :: "u16 \<Rightarrow> u8 \<Rightarrow> mb_banks \<Rightarrow> mb_banks" where
  "mb_set_coil address v s =
     (if unat address \<ge> MB_MAX_COILS s then s
      else let normalized = (if v \<noteq> 0 then 1 else 0 :: u8) in
        s\<lparr>coils := (coils s)[unat address := normalized],
          hook_log := hook_log s @ [On_Write_Coil address normalized]\<rparr>)"

definition mb_get_dinput :: "mb_banks \<Rightarrow> u16 \<Rightarrow> u8" where
  "mb_get_dinput s address =
     (if unat address < MB_MAX_DISCRETE_INPUTS s
      then discrete_inputs s ! unat address AND 1 else 0)"

definition mb_set_dinput :: "u16 \<Rightarrow> u8 \<Rightarrow> mb_banks \<Rightarrow> mb_banks" where
  "mb_set_dinput address v s =
     (if unat address \<ge> MB_MAX_DISCRETE_INPUTS s then s
      else s\<lparr>discrete_inputs :=
             (discrete_inputs s)[unat address := (if v \<noteq> 0 then 1 else 0)]\<rparr>)"

definition mb_get_hreg :: "mb_banks \<Rightarrow> u16 \<Rightarrow> u16" where
  "mb_get_hreg s address =
     (if unat address < MB_MAX_HREGS s then holding_registers s ! unat address else 0)"

definition mb_set_hreg :: "u16 \<Rightarrow> u16 \<Rightarrow> mb_banks \<Rightarrow> mb_banks" where
  "mb_set_hreg address v s =
     (if unat address \<ge> MB_MAX_HREGS s then s
      else s\<lparr>holding_registers := (holding_registers s)[unat address := v],
             hook_log := hook_log s @ [On_Write_Hreg address v]\<rparr>)"

definition mb_mask_write_hreg :: "u16 \<Rightarrow> u16 \<Rightarrow> u16 \<Rightarrow> mb_banks \<Rightarrow> u16 \<times> mb_banks" where
  "mb_mask_write_hreg address and_mask or_mask s =
     (if unat address \<ge> MB_MAX_HREGS s then (0, s)
      else let v = (holding_registers s ! unat address AND and_mask) OR
                   (or_mask AND NOT and_mask) in
        (v, s\<lparr>holding_registers := (holding_registers s)[unat address := v],
              hook_log := hook_log s @ [On_Write_Hreg address v]\<rparr>))"

definition mb_get_ireg :: "mb_banks \<Rightarrow> u16 \<Rightarrow> u16" where
  "mb_get_ireg s address =
     (if unat address < MB_MAX_IREGS s then input_registers s ! unat address else 0)"

definition mb_set_ireg :: "u16 \<Rightarrow> u16 \<Rightarrow> mb_banks \<Rightarrow> mb_banks" where
  "mb_set_ireg address v s =
     (if unat address \<ge> MB_MAX_IREGS s then s
      else s\<lparr>input_registers := (input_registers s)[unat address := v]\<rparr>)"

text \<open>
  The well-formed banks: sizes within the preprocessor limits, and every coil and discrete
  input stored normalised to 0 or 1.
\<close>

definition bit_bank :: "u8 list \<Rightarrow> bool" where
  "bit_bank xs \<longleftrightarrow> (\<forall>b \<in> set xs. b = 0 \<or> b = 1)"

definition banks_wf :: "mb_banks \<Rightarrow> bool" where
  "banks_wf s \<longleftrightarrow>
     1 \<le> MB_MAX_COILS s \<and> MB_MAX_COILS s \<le> 65536 \<and>
     1 \<le> MB_MAX_DISCRETE_INPUTS s \<and> MB_MAX_DISCRETE_INPUTS s \<le> 65536 \<and>
     1 \<le> MB_MAX_HREGS s \<and> MB_MAX_HREGS s \<le> 65536 \<and>
     1 \<le> MB_MAX_IREGS s \<and> MB_MAX_IREGS s \<le> 65536 \<and>
     bit_bank (coils s) \<and> bit_bank (discrete_inputs s)"

section \<open>A bank as an array: the contract of a getter and its setter\<close>

text \<open>
  Every bank offers a total read and a write that is ignored outside the bank. The contract
  of such a pair, and what follows from it for a block of writes at consecutive addresses,
  which is how the multiple-write functions use it.
\<close>

locale register_bank =
  fixes bank_size :: "mb_banks \<Rightarrow> nat"
    and get :: "mb_banks \<Rightarrow> u16 \<Rightarrow> 'v::len word"
    and set :: "u16 \<Rightarrow> 'v word \<Rightarrow> mb_banks \<Rightarrow> mb_banks"
    and norm :: "'v word \<Rightarrow> 'v word"
  assumes set_in: "unat a < bank_size s \<Longrightarrow>
      get (set a v s) b = (if b = a then norm v else get s b)"
    and set_out: "bank_size s \<le> unat a \<Longrightarrow> set a v s = s"
    and size_set: "bank_size (set a v s) = bank_size s"
    and wf_set: "banks_wf s \<Longrightarrow> banks_wf (set a v s)"
begin

lemma fold_set_size: "bank_size (fold (\<lambda>i. set (f i) (g i)) is s) = bank_size s"
  by (induction "is" arbitrary: s) (simp_all add: size_set)

lemma fold_set_wf: "banks_wf s \<Longrightarrow> banks_wf (fold (\<lambda>i. set (f i) (g i)) is s)"
  by (induction "is" arbitrary: s) (simp_all add: wf_set)

lemma get_fold_set:
  assumes "unat a + n \<le> bank_size s" "bank_size s \<le> 65536"
  shows "get (fold (\<lambda>i. set (a + of_nat i) (g i)) [0..<n] s) b =
    (if unat a \<le> unat b \<and> unat b < unat a + n then norm (g (unat b - unat a)) else get s b)"
  using assms
proof (induction n)
  case 0
  then show ?case by auto
next
  case (Suc n)
  let ?s = "fold (\<lambda>i. set (a + of_nat i) (g i)) [0..<n] s"
  have an: "unat (a + of_nat n) = unat a + n"
    using Suc.prems by (intro unat_add_of_nat_u16) simp
  have in_range: "unat (a + of_nat n) < bank_size ?s"
    using an Suc.prems by (simp add: fold_set_size)
  have eq: "b = a + of_nat n \<longleftrightarrow> unat b = unat a + n"
    using an by (simp add: word_unat_eq_iff)
  have "get (fold (\<lambda>i. set (a + of_nat i) (g i)) [0..<Suc n] s) b =
      (if b = a + of_nat n then norm (g n) else get ?s b)"
    using set_in [OF in_range] by simp
  then show ?case
    using Suc.IH Suc.prems by (auto simp: eq)
qed

end

lemma bit_bank_update: "bit_bank xs \<Longrightarrow> v = 0 \<or> v = 1 \<Longrightarrow> bit_bank (xs[i := v])"
  unfolding bit_bank_def using set_update_subset_insert [of xs i v] by auto

lemma and_1_of_bit: "(v :: u8) = 0 \<or> v = 1 \<Longrightarrow> v AND 1 = v"
  by auto

interpretation coil_bank: register_bank MB_MAX_COILS mb_get_coil mb_set_coil
  "\<lambda>v. if v \<noteq> 0 then 1 else 0"
  by unfold_locales
    (auto simp: mb_get_coil_def mb_set_coil_def Let_def mb_defs banks_wf_def bit_bank_update
      nth_list_update word_unat_eq_iff)

interpretation dinput_bank: register_bank MB_MAX_DISCRETE_INPUTS mb_get_dinput mb_set_dinput
  "\<lambda>v. if v \<noteq> 0 then 1 else 0"
  by unfold_locales
    (auto simp: mb_get_dinput_def mb_set_dinput_def Let_def mb_defs banks_wf_def bit_bank_update
      nth_list_update word_unat_eq_iff)

interpretation hreg_bank: register_bank MB_MAX_HREGS mb_get_hreg mb_set_hreg id
  by unfold_locales
    (auto simp: mb_get_hreg_def mb_set_hreg_def mb_defs banks_wf_def
      nth_list_update word_unat_eq_iff)

interpretation ireg_bank: register_bank MB_MAX_IREGS mb_get_ireg mb_set_ireg id
  by unfold_locales
    (auto simp: mb_get_ireg_def mb_set_ireg_def mb_defs banks_wf_def
      nth_list_update word_unat_eq_iff)

lemma mask_write_wf: "banks_wf s \<Longrightarrow> banks_wf (snd (mb_mask_write_hreg a m k s))"
  by (simp add: mb_mask_write_hreg_def Let_def banks_wf_def mb_defs)

lemma init_banks_wf: "banks_wf s \<Longrightarrow> banks_wf (init_banks s)"
  by (simp add: init_banks_def banks_wf_def mb_defs bit_bank_def)

end
