(* ===== verification/Keyed_Table.thy ===== *)
theory Keyed_Table
  imports Prelude
begin

text \<open>
  The file map and the FIFO map of modbus.c are both short tables sorted by a strictly
  increasing 16-bit key, searched by a linear scan that stops at the first larger key.
  This theory states the contract of that scan once; the component theories interpret it
  on their own tables. It also fixes how application-owned arrays are modelled: one
  address space of 16-bit cells, in which a table entry holds the address of its array,
  so that overlapping arrays are possible as they are in C.
\<close>

type_synonym app_mem = "nat \<Rightarrow> u16"

definition strictly_increasing :: "('e \<Rightarrow> u16) \<Rightarrow> 'e list \<Rightarrow> bool" where
  "strictly_increasing key es \<longleftrightarrow> sorted_wrt (\<lambda>x y. key x < key y) es"

text \<open>The neighbour test of the configuration loops, \<open>es[i - 1].key >= es[i].key\<close>.\<close>

definition neighbours_increase :: "('e \<Rightarrow> u16) \<Rightarrow> 'e list \<Rightarrow> nat \<Rightarrow> bool" where
  "neighbours_increase key es i \<longleftrightarrow> \<not> (i > 0 \<and> key (es ! (i - 1)) \<ge> key (es ! i))"

lemma strictly_increasing_neighbours:
  "strictly_increasing key es \<longleftrightarrow> (\<forall>i < length es. neighbours_increase key es i)"
proof
  assume sorted: "strictly_increasing key es"
  have "neighbours_increase key es i" if "i < length es" for i
    using sorted that
    by (cases i) (auto simp: strictly_increasing_def neighbours_increase_def
        sorted_wrt_iff_nth_less not_le)
  then show "\<forall>i < length es. neighbours_increase key es i"
    by blast
next
  assume step: "\<forall>i < length es. neighbours_increase key es i"
  have "key (es ! i) < key (es ! j)" if "i < j" "j < length es" for i j
    using that
  proof (induction j)
    case 0
    then show ?case by simp
  next
    case (Suc j)
    have "key (es ! j) < key (es ! Suc j)"
      using step Suc.prems by (auto simp: neighbours_increase_def not_le dest: spec [of _ "Suc j"])
    with Suc show ?case by (cases "i = j") auto
  qed
  then show "strictly_increasing key es"
    by (simp add: strictly_increasing_def sorted_wrt_iff_nth_less)
qed

locale keyed_scan =
  fixes key :: "'e \<Rightarrow> u16"
    and scan :: "'e list \<Rightarrow> u16 \<Rightarrow> 'e option"
  assumes scan_Nil: "scan [] k = None"
    and scan_Cons: "scan (e # es) k =
      (if key e = k then Some e else if key e > k then None else scan es k)"
begin

lemma scan_SomeD: "scan es k = Some e \<Longrightarrow> e \<in> set es \<and> key e = k"
  by (induction es) (auto simp: scan_Nil scan_Cons split: if_splits)

lemma scan_complete:
  "strictly_increasing key es \<Longrightarrow> e \<in> set es \<Longrightarrow> scan es (key e) = Some e"
  by (induction es) (auto simp: strictly_increasing_def scan_Nil scan_Cons dest: less_asym)

lemma scan_None_iff:
  "strictly_increasing key es \<Longrightarrow> scan es k = None \<longleftrightarrow> k \<notin> key ` set es"
  using scan_SomeD [of es k] scan_complete [of es] by (cases "scan es k") auto

end

end
