(* ===== verification/File_Record.thy ===== *)
theory File_Record
  imports Bytes Keyed_Table
begin

text \<open>
  The file-record map of modbus.c and its two request handlers, FC20 Read File Record and
  FC21 Write File Record. A handler returns \<open>Inl\<close> of a Modbus exception code or \<open>Inr\<close> of
  the response PDU (the bytes of \<open>response_pdu\<close> up to \<open>*response_pdu_len\<close>). The two
  passes over the request, validation and then copying, are two loops as in the source.
\<close>

abbreviation (input) MB_EX_ILLEGAL_FUNCTION :: u8 where "MB_EX_ILLEGAL_FUNCTION \<equiv> 1"
abbreviation (input) MB_EX_ILLEGAL_DATA_ADDRESS :: u8 where "MB_EX_ILLEGAL_DATA_ADDRESS \<equiv> 2"
abbreviation (input) MB_EX_ILLEGAL_DATA_VALUE :: u8 where "MB_EX_ILLEGAL_DATA_VALUE \<equiv> 3"
abbreviation (input) MB_EX_SERVER_FAILURE :: u8 where "MB_EX_SERVER_FAILURE \<equiv> 4"

abbreviation (input) MODBUS_PDU_MAX_SIZE :: nat where "MODBUS_PDU_MAX_SIZE \<equiv> 253"

abbreviation (input) MB_FILE_RECORD_REFERENCE_TYPE :: u8 where "MB_FILE_RECORD_REFERENCE_TYPE \<equiv> 6"
abbreviation (input) MB_FILE_RECORD_MAX_FILES :: nat where "MB_FILE_RECORD_MAX_FILES \<equiv> 8"
abbreviation (input) MB_FILE_RECORD_MAX_RECORDS_PER_FILE :: nat where
  "MB_FILE_RECORD_MAX_RECORDS_PER_FILE \<equiv> 10000"
abbreviation (input) MB_FILE_RECORD_REQUEST_DATA_MAX :: nat where
  "MB_FILE_RECORD_REQUEST_DATA_MAX \<equiv> 245"
abbreviation (input) MB_FILE_RECORD_RESPONSE_DATA_MAX :: nat where
  "MB_FILE_RECORD_RESPONSE_DATA_MAX \<equiv> 245"
abbreviation (input) MB_FILE_RECORD_WRITE_REQUEST_DATA_MAX :: nat where
  "MB_FILE_RECORD_WRITE_REQUEST_DATA_MAX \<equiv> 251"
abbreviation (input) MB_FILE_RECORD_WRITE_MAX_SUBREQUESTS :: nat where
  "MB_FILE_RECORD_WRITE_MAX_SUBREQUESTS \<equiv> 27"

section \<open>The file map\<close>

record mb_file_record_file =
  file_number :: u16
  records :: "nat option"
  record_count :: nat

datatype file_record_error =
  FILE_RECORD_ERROR_ARGUMENT | FILE_RECORD_ERROR_CAPACITY | FILE_RECORD_ERROR_FILES

type_synonym mb_file_record_state = "mb_file_record_file list"

definition file_entry_ok :: "mb_file_record_file list \<Rightarrow> nat \<Rightarrow> bool" where
  "file_entry_ok files i \<longleftrightarrow>
     \<not> (file_number (files ! i) = 0 \<or> records (files ! i) = None \<or>
        record_count (files ! i) = 0 \<or>
        record_count (files ! i) > MB_FILE_RECORD_MAX_RECORDS_PER_FILE) \<and>
     neighbours_increase file_number files i"

definition mb_file_record_configure ::
  "mb_file_record_file list option \<Rightarrow> mb_file_record_state \<Rightarrow>
   (file_record_error + unit) \<times> mb_file_record_state" where
  "mb_file_record_configure files st =
     (case files of None \<Rightarrow> (Inl FILE_RECORD_ERROR_ARGUMENT, st)
      | Some fs \<Rightarrow>
          if length fs = 0 \<or> length fs > MB_FILE_RECORD_MAX_FILES
          then (Inl FILE_RECORD_ERROR_CAPACITY, st)
          else if \<not> list_all (file_entry_ok fs) [0..<length fs]
          then (Inl FILE_RECORD_ERROR_FILES, st)
          else (Inr (), fs))"

definition mb_file_record_clear :: "mb_file_record_state \<Rightarrow> mb_file_record_state" where
  "mb_file_record_clear st = []"

definition mb_file_record_is_configured :: "mb_file_record_state \<Rightarrow> bool" where
  "mb_file_record_is_configured st \<longleftrightarrow> length st \<noteq> 0"

fun find_file_record_unlocked ::
  "mb_file_record_state \<Rightarrow> u16 \<Rightarrow> mb_file_record_file option" where
  "find_file_record_unlocked [] n = None"
| "find_file_record_unlocked (f # fs) n =
     (if file_number f = n then Some f
      else if file_number f > n then None
      else find_file_record_unlocked fs n)"

interpretation file_scan: keyed_scan file_number find_file_record_unlocked
  by unfold_locales simp_all

section \<open>FC20 Read File Record\<close>

text \<open>The range checks both handlers make for one subrequest, and the address of a record.\<close>

definition subrequest_out_of_file :: "mb_file_record_state \<Rightarrow> u16 \<Rightarrow> u16 \<Rightarrow> u16 \<Rightarrow> bool" where
  "subrequest_out_of_file st fn rn rl =
     (case find_file_record_unlocked st fn of
        None \<Rightarrow> True
      | Some f \<Rightarrow> unat rn > record_count f \<or> unat rl > record_count f - unat rn)"

definition record_range_bad :: "u16 \<Rightarrow> u16 \<Rightarrow> bool" where
  "record_range_bad rn rl \<longleftrightarrow>
     unat rn \<ge> MB_FILE_RECORD_MAX_RECORDS_PER_FILE \<or>
     unat rn + unat rl > MB_FILE_RECORD_MAX_RECORDS_PER_FILE"

definition record_addr :: "mb_file_record_state \<Rightarrow> u16 \<Rightarrow> nat \<Rightarrow> nat" where
  "record_addr st fn i = the (records (the (find_file_record_unlocked st fn))) + i"

function file_read_check ::
  "mb_file_record_state \<Rightarrow> bytes \<Rightarrow> nat \<Rightarrow> nat \<Rightarrow> u8 + nat" where
  "file_read_check st pdu offset rdl =
     (if offset < length pdu then
        let fn = read_be16 pdu (offset + 1);
            rn = read_be16 pdu (offset + 3);
            rl = read_be16 pdu (offset + 5) in
        if pdu ! offset \<noteq> MB_FILE_RECORD_REFERENCE_TYPE then Inl MB_EX_ILLEGAL_DATA_ADDRESS
        else if rl = 0 then Inl MB_EX_ILLEGAL_DATA_VALUE
        else if record_range_bad rn rl then Inl MB_EX_ILLEGAL_DATA_ADDRESS
        else if subrequest_out_of_file st fn rn rl then Inl MB_EX_ILLEGAL_DATA_ADDRESS
        else if 2 + unat rl * 2 > MB_FILE_RECORD_RESPONSE_DATA_MAX - rdl
        then Inl MB_EX_ILLEGAL_DATA_VALUE
        else file_read_check st pdu (offset + 7) (rdl + (2 + unat rl * 2))
      else Inr rdl)"
  by pat_completeness auto
termination
  by (relation "measure (\<lambda>(st, pdu, offset, rdl). length pdu - offset)") auto

function file_read_fill :: "app_mem \<Rightarrow> mb_file_record_state \<Rightarrow> bytes \<Rightarrow> nat \<Rightarrow> bytes" where
  "file_read_fill mem st pdu offset =
     (if offset < length pdu then
        let fn = read_be16 pdu (offset + 1);
            rn = read_be16 pdu (offset + 3);
            rl = read_be16 pdu (offset + 5) in
        [of_nat (1 + unat rl * 2), MB_FILE_RECORD_REFERENCE_TYPE] @
        concat (map (\<lambda>i. write_be16 (mem (record_addr st fn (unat rn + i)))) [0..<unat rl]) @
        file_read_fill mem st pdu (offset + 7)
      else [])"
  by pat_completeness auto
termination
  by (relation "measure (\<lambda>(mem, st, pdu, offset). length pdu - offset)") auto

declare file_read_check.simps [simp del] file_read_fill.simps [simp del]

definition mb_file_record_process_read_request ::
  "app_mem \<Rightarrow> mb_file_record_state \<Rightarrow> bytes \<Rightarrow> nat \<Rightarrow> u8 + bytes" where
  "mb_file_record_process_read_request mem st pdu cap =
     (if length pdu < 2 then Inl MB_EX_ILLEGAL_DATA_VALUE
      else let n = unat (pdu ! 1); limit = min cap MODBUS_PDU_MAX_SIZE in
        if n < 7 \<or> n > MB_FILE_RECORD_REQUEST_DATA_MAX \<or> n mod 7 \<noteq> 0 \<or> length pdu \<noteq> 2 + n
        then Inl MB_EX_ILLEGAL_DATA_VALUE
        else case file_read_check st pdu 2 0 of
          Inl e \<Rightarrow> Inl e
        | Inr rdl \<Rightarrow>
            if limit < 2 + rdl then Inl MB_EX_SERVER_FAILURE
            else Inr ([0x14, of_nat rdl] @ file_read_fill mem st pdu 2))"

section \<open>FC21 Write File Record\<close>

function file_write_check ::
  "mb_file_record_state \<Rightarrow> bytes \<Rightarrow> nat \<Rightarrow> nat \<Rightarrow> u8 + nat \<times> nat" where
  "file_write_check st pdu offset count =
     (if offset < length pdu then
        if length pdu - offset < 7 then Inl MB_EX_ILLEGAL_DATA_VALUE
        else if pdu ! offset \<noteq> MB_FILE_RECORD_REFERENCE_TYPE then Inl MB_EX_ILLEGAL_DATA_ADDRESS
        else
          let fn = read_be16 pdu (offset + 1);
              rn = read_be16 pdu (offset + 3);
              rl = read_be16 pdu (offset + 5);
              sl = 7 + unat rl * 2 in
          if rl = 0 then Inl MB_EX_ILLEGAL_DATA_VALUE
          else if record_range_bad rn rl then Inl MB_EX_ILLEGAL_DATA_ADDRESS
          else if sl > length pdu - offset then Inl MB_EX_ILLEGAL_DATA_VALUE
          else if subrequest_out_of_file st fn rn rl then Inl MB_EX_ILLEGAL_DATA_ADDRESS
          else if Suc count > MB_FILE_RECORD_WRITE_MAX_SUBREQUESTS
          then Inl MB_EX_ILLEGAL_DATA_VALUE
          else file_write_check st pdu (offset + sl) (Suc count)
      else Inr (offset, count))"
  by pat_completeness auto
termination
  by (relation "measure (\<lambda>(st, pdu, offset, count). length pdu - offset)") auto

definition write_records :: "nat \<Rightarrow> bytes \<Rightarrow> nat \<Rightarrow> nat \<Rightarrow> app_mem \<Rightarrow> app_mem" where
  "write_records base pdu data_offset n mem =
     fold (\<lambda>i m. m(base + i := read_be16 pdu (data_offset + i * 2))) [0..<n] mem"

function file_write_apply ::
  "mb_file_record_state \<Rightarrow> bytes \<Rightarrow> nat \<Rightarrow> app_mem \<Rightarrow> app_mem" where
  "file_write_apply st pdu offset mem =
     (if offset < length pdu then
        let fn = read_be16 pdu (offset + 1);
            rn = read_be16 pdu (offset + 3);
            rl = read_be16 pdu (offset + 5);
            data_offset = offset + 7 in
        file_write_apply st pdu (data_offset + unat rl * 2)
          (write_records (record_addr st fn (unat rn)) pdu data_offset (unat rl) mem)
      else mem)"
  by pat_completeness auto
termination
  by (relation "measure (\<lambda>(st, pdu, offset, mem). length pdu - offset)") auto

declare file_write_check.simps [simp del] file_write_apply.simps [simp del]

definition mb_file_record_process_write_request ::
  "app_mem \<Rightarrow> mb_file_record_state \<Rightarrow> bytes \<Rightarrow> nat \<Rightarrow> (u8 + bytes) \<times> app_mem" where
  "mb_file_record_process_write_request mem st pdu cap =
     (if length pdu < 2 then (Inl MB_EX_ILLEGAL_DATA_VALUE, mem)
      else let n = unat (pdu ! 1); limit = min cap MODBUS_PDU_MAX_SIZE in
        if n < 9 \<or> n > MB_FILE_RECORD_WRITE_REQUEST_DATA_MAX \<or> length pdu \<noteq> 2 + n
        then (Inl MB_EX_ILLEGAL_DATA_VALUE, mem)
        else case file_write_check st pdu 2 0 of
          Inl e \<Rightarrow> (Inl e, mem)
        | Inr (offset, count) \<Rightarrow>
            if offset \<noteq> length pdu \<or> count = 0 then (Inl MB_EX_ILLEGAL_DATA_VALUE, mem)
            else if limit < length pdu then (Inl MB_EX_SERVER_FAILURE, mem)
            else (Inr pdu, file_write_apply st pdu 2 mem))"

section \<open>The configured map is well formed\<close>

definition files_wf :: "mb_file_record_state \<Rightarrow> bool" where
  "files_wf st \<longleftrightarrow>
     length st \<le> MB_FILE_RECORD_MAX_FILES \<and> strictly_increasing file_number st \<and>
     (\<forall>f \<in> set st. file_number f \<noteq> 0 \<and> records f \<noteq> None \<and> 1 \<le> record_count f \<and>
        record_count f \<le> MB_FILE_RECORD_MAX_RECORDS_PER_FILE)"

lemma file_entries_ok_iff:
  "list_all (file_entry_ok fs) [0..<length fs] \<longleftrightarrow>
     strictly_increasing file_number fs \<and>
     (\<forall>f \<in> set fs. file_number f \<noteq> 0 \<and> records f \<noteq> None \<and> 1 \<le> record_count f \<and>
        record_count f \<le> MB_FILE_RECORD_MAX_RECORDS_PER_FILE)"
  unfolding strictly_increasing_neighbours list_all_iff all_set_conv_all_nth
  by (auto simp: file_entry_ok_def not_less Suc_le_eq)

lemma files_wf_Nil: "files_wf []"
  by (simp add: files_wf_def strictly_increasing_def)

lemma file_configure_ok:
  "mb_file_record_configure files st = (Inr (), st') \<longleftrightarrow>
     (files = Some st' \<and> st' \<noteq> [] \<and> files_wf st')"
  by (auto simp: mb_file_record_configure_def file_entries_ok_iff files_wf_def
      split: option.splits if_splits)

lemma file_configure_error:
  "mb_file_record_configure files st = (Inl e, st') \<Longrightarrow> st' = st"
  by (auto simp: mb_file_record_configure_def split: option.splits if_splits)

lemma file_configure_wf: "files_wf st \<Longrightarrow> files_wf (snd (mb_file_record_configure files st))"
  by (auto simp: mb_file_record_configure_def file_entries_ok_iff files_wf_def
      split: option.splits)

section \<open>Reads stay within the response, writes within the files\<close>

lemma file_read_check_length:
  "file_read_check st pdu offset rdl = Inr n \<Longrightarrow>
     n = rdl + length (file_read_fill mem st pdu offset)"
proof (induction st pdu offset rdl rule: file_read_check.induct)
  case (1 st pdu offset rdl)
  show ?case
    using "1.prems" "1.IH"
    by (auto simp: file_read_check.simps [of st pdu offset] file_read_fill.simps [of mem st pdu offset]
        Let_def length_concat_map_const [where c = 2] split: if_splits)
qed

lemma file_read_check_bound:
  "file_read_check st pdu offset rdl = Inr n \<Longrightarrow>
     rdl \<le> MB_FILE_RECORD_RESPONSE_DATA_MAX \<Longrightarrow> n \<le> MB_FILE_RECORD_RESPONSE_DATA_MAX"
proof (induction st pdu offset rdl rule: file_read_check.induct)
  case (1 st pdu offset rdl)
  show ?case
    using "1.prems" "1.IH"
    by (auto simp: file_read_check.simps [of st pdu offset] Let_def split: if_splits)
qed

lemma file_read_response_length:
  assumes "mb_file_record_process_read_request mem st pdu cap = Inr rsp"
  shows "4 \<le> length rsp \<and> length rsp \<le> min cap MODBUS_PDU_MAX_SIZE"
proof -
  from assms obtain rdl where n: "7 \<le> unat (pdu ! 1)" "length pdu = 2 + unat (pdu ! 1)"
    and chk: "file_read_check st pdu 2 0 = Inr rdl"
    and lim: "2 + rdl \<le> min cap MODBUS_PDU_MAX_SIZE"
    and rsp: "rsp = [0x14, of_nat rdl] @ file_read_fill mem st pdu 2"
    by (auto simp: mb_file_record_process_read_request_def Let_def not_less
        split: if_splits sum.splits)
  have "length rsp = 2 + rdl"
    using file_read_check_length [OF chk, of mem] rsp by simp
  moreover have "2 \<le> length (file_read_fill mem st pdu 2)"
    using n by (simp add: file_read_fill.simps [of mem st pdu 2] Let_def)
  ultimately show ?thesis
    using lim file_read_check_length [OF chk, of mem] by simp
qed

lemma write_records_apply:
  "write_records base pdu d n mem a =
     (if base \<le> a \<and> a < base + n then read_be16 pdu (d + (a - base) * 2) else mem a)"
  unfolding write_records_def by (induction n) auto

text \<open>The cells that belong to a configured file.\<close>

definition in_file :: "mb_file_record_state \<Rightarrow> nat \<Rightarrow> bool" where
  "in_file st a \<longleftrightarrow>
     (\<exists>f \<in> set st. \<exists>base. records f = Some base \<and> base \<le> a \<and> a < base + record_count f)"

lemma record_in_file:
  assumes "files_wf st" "\<not> subrequest_out_of_file st fn rn rl" "i < unat rl"
  shows "in_file st (record_addr st fn (unat rn + i))"
proof -
  from assms(2) obtain f where f: "find_file_record_unlocked st fn = Some f"
    and r: "unat rn \<le> record_count f" "unat rl \<le> record_count f - unat rn"
    by (auto simp: subrequest_out_of_file_def split: option.splits)
  then have fs: "f \<in> set st" using file_scan.scan_SomeD by blast
  with assms(1) obtain base where "records f = Some base" by (auto simp: files_wf_def)
  with f fs r assms(3) show ?thesis
    by (auto simp: in_file_def record_addr_def intro!: bexI [of _ f])
qed

lemma file_write_check_step:
  assumes "file_write_check st pdu offset count = Inr r" "offset < length pdu"
  defines "fn \<equiv> read_be16 pdu (offset + 1)" and "rn \<equiv> read_be16 pdu (offset + 3)"
    and "rl \<equiv> read_be16 pdu (offset + 5)"
  shows "\<not> subrequest_out_of_file st fn rn rl" "0 < unat rl"
    "offset + 7 + unat rl * 2 \<le> length pdu" "count < MB_FILE_RECORD_WRITE_MAX_SUBREQUESTS"
    "file_write_check st pdu (offset + 7 + unat rl * 2) (Suc count) = Inr r"
  using assms(1,2) unfolding file_write_check.simps [of st pdu offset] fn_def rn_def rl_def
  by (auto simp: Let_def unat_gt_0 add.assoc split: if_splits)

lemma file_write_apply_step:
  assumes "offset < length pdu"
  shows "file_write_apply st pdu offset mem =
    file_write_apply st pdu (offset + 7 + unat (read_be16 pdu (offset + 5)) * 2)
      (write_records (record_addr st (read_be16 pdu (offset + 1)) (unat (read_be16 pdu (offset + 3))))
         pdu (offset + 7) (unat (read_be16 pdu (offset + 5))) mem)"
  using assms by (subst file_write_apply.simps) (simp add: Let_def)

lemma write_records_confined:
  assumes "files_wf st" "\<not> subrequest_out_of_file st fn rn rl"
    "write_records (record_addr st fn (unat rn)) pdu d (unat rl) mem a \<noteq> mem a"
  shows "in_file st a"
proof -
  from assms(3) obtain i where "i < unat rl" "a = record_addr st fn (unat rn) + i"
    by (auto simp: write_records_apply le_iff_add split: if_splits)
  with record_in_file [OF assms(1,2)] show ?thesis
    by (auto simp: record_addr_def add.assoc)
qed

lemma file_write_apply_confined:
  "file_write_check st pdu offset count = Inr r \<Longrightarrow> files_wf st \<Longrightarrow>
     file_write_apply st pdu offset mem a \<noteq> mem a \<Longrightarrow> in_file st a"
proof (induction "length pdu - offset" arbitrary: offset count mem rule: less_induct)
  case less
  show ?case
  proof (cases "offset < length pdu")
    case True
    note step = file_write_check_step [OF less.prems(1) True]
    let ?off = "offset + 7 + unat (read_be16 pdu (offset + 5)) * 2"
    let ?mem = "write_records (record_addr st (read_be16 pdu (offset + 1))
      (unat (read_be16 pdu (offset + 3)))) pdu (offset + 7) (unat (read_be16 pdu (offset + 5))) mem"
    have lt: "length pdu - ?off < length pdu - offset" using True by simp
    have "file_write_apply st pdu ?off ?mem a \<noteq> ?mem a \<or> ?mem a \<noteq> mem a"
      using less.prems(3) by (auto simp: file_write_apply_step [OF True])
    then show ?thesis
      using less.hyps [OF lt step(5) less.prems(2)]
        write_records_confined [OF less.prems(2) step(1)] by blast
  next
    case False
    with less.prems(3) show ?thesis by (simp add: file_write_apply.simps [of st pdu offset])
  qed
qed

text \<open>
  C12. FC21 Write File Record is atomic and confined: an exception leaves every cell of
  application memory unchanged; otherwise the response echoes the request, every changed
  cell belongs to a configured file, and the response fits the capacity.
\<close>

theorem file_write_atomic_confined:
  assumes "files_wf st" "mb_file_record_process_write_request mem st pdu cap = (res, mem')"
  shows "(\<forall>e. res = Inl e \<longrightarrow> mem' = mem) \<and>
    (\<forall>rsp. res = Inr rsp \<longrightarrow> rsp = pdu \<and> length rsp \<le> min cap MODBUS_PDU_MAX_SIZE) \<and>
    (\<forall>a. mem' a \<noteq> mem a \<longrightarrow> in_file st a)"
proof -
  have "in_file st a" if "mem' a \<noteq> mem a" for a
    using assms that
    by (auto simp: mb_file_record_process_write_request_def Let_def
        intro: file_write_apply_confined split: if_splits sum.splits prod.splits)
  then show ?thesis
    using assms
    by (auto simp: mb_file_record_process_write_request_def Let_def
        split: if_splits sum.splits prod.splits)
qed

definition demo_files :: mb_file_record_state where
  "demo_files = [\<lparr>file_number = 4, records = Some 100, record_count = 20\<rparr>]"

definition demo_write_pdu :: bytes where
  "demo_write_pdu = [0x15, 11, 6, 0, 4, 0, 7, 0, 2, 0x12, 0x34, 0xAB, 0xCD]"

theorem file_write_atomic_confined_witness:
  "files_wf demo_files \<and> \<not> in_file demo_files 99 \<and>
   snd (mb_file_record_process_write_request (\<lambda>_. 0) demo_files demo_write_pdu 253) 99 = 0"
proof -
  have wf: "files_wf demo_files"
    by (simp add: files_wf_def demo_files_def strictly_increasing_def)
  moreover have "\<not> in_file demo_files 99"
    by (simp add: in_file_def demo_files_def)
  ultimately show ?thesis
    using file_write_atomic_confined [OF wf, of "\<lambda>_. 0" demo_write_pdu 253] by (metis prod.collapse)
qed

section \<open>What is written is read back\<close>

text \<open>The request PDUs for one subrequest, in the wire format of the two functions.\<close>

definition file_write_pdu :: "u16 \<Rightarrow> u16 \<Rightarrow> u16 list \<Rightarrow> bytes" where
  "file_write_pdu fn rn vs =
     [0x15, of_nat (7 + length vs * 2), 6] @ write_be16 fn @ write_be16 rn @
     write_be16 (of_nat (length vs)) @ concat (map write_be16 vs)"

definition file_read_pdu :: "u16 \<Rightarrow> u16 \<Rightarrow> nat \<Rightarrow> bytes" where
  "file_read_pdu fn rn n =
     [0x14, 7, 6] @ write_be16 fn @ write_be16 rn @ write_be16 (of_nat n)"

lemma file_write_pdu_fields:
  assumes "length vs \<le> 121"
  shows "read_be16 (file_write_pdu fn rn vs) 3 = fn" "read_be16 (file_write_pdu fn rn vs) 5 = rn"
    "unat (read_be16 (file_write_pdu fn rn vs) 7) = length vs"
    "length (file_write_pdu fn rn vs) = 9 + length vs * 2"
    "unat (file_write_pdu fn rn vs ! 1) = 7 + length vs * 2"
    "file_write_pdu fn rn vs ! 2 = 6"
    "i < length vs \<Longrightarrow> read_be16 (file_write_pdu fn rn vs) (9 + i * 2) = vs ! i"
proof -
  have "read_be16 (([0x15, of_nat (7 + length vs * 2), 6] @ write_be16 fn @ write_be16 rn @
     write_be16 (of_nat (length vs))) @ concat (map write_be16 vs) @ []) (9 + i * 2) = vs ! i"
    if "i < length vs"
    using be.dec_enc_list [OF that, of "[0x15, of_nat (7 + length vs * 2), 6] @ write_be16 fn @
      write_be16 rn @ write_be16 (of_nat (length vs))" "[]"] by (simp add: mult.commute)
  then show "i < length vs \<Longrightarrow> read_be16 (file_write_pdu fn rn vs) (9 + i * 2) = vs ! i"
    by (simp add: file_write_pdu_def)
next
  show "unat (file_write_pdu fn rn vs ! 1) = 7 + length vs * 2"
    using assms unat_of_nat_u8 [of "7 + length vs * 2"]
    by (simp add: file_write_pdu_def del: of_nat_add of_nat_mult)
qed (use assms in \<open>simp_all add: file_write_pdu_def be.length_enc_list mult.commute\<close>)

lemma file_read_pdu_fields:
  assumes "n \<le> 121"
  shows "read_be16 (file_read_pdu fn rn n) 3 = fn" "read_be16 (file_read_pdu fn rn n) 5 = rn"
    "unat (read_be16 (file_read_pdu fn rn n) 7) = n"
    "length (file_read_pdu fn rn n) = 9"
    "file_read_pdu fn rn n ! 1 = 7" "file_read_pdu fn rn n ! 2 = 6"
  using assms by (simp_all add: file_read_pdu_def)

text \<open>One subrequest inside a file passes the range checks.\<close>

lemma subrequest_in_file:
  assumes "files_wf st" "find_file_record_unlocked st fn = Some f"
    "unat rn + unat rl \<le> record_count f" "rl \<noteq> 0"
  shows "\<not> subrequest_out_of_file st fn rn rl" "\<not> record_range_bad rn rl"
proof -
  from assms(1,2) have "record_count f \<le> MB_FILE_RECORD_MAX_RECORDS_PER_FILE"
    using file_scan.scan_SomeD by (auto simp: files_wf_def)
  moreover have "0 < unat rl" using assms(4) by (simp add: unat_gt_0)
  ultimately show "\<not> subrequest_out_of_file st fn rn rl" "\<not> record_range_bad rn rl"
    using assms(2,3) by (auto simp: subrequest_out_of_file_def record_range_bad_def)
qed

lemma file_write_one:
  assumes "files_wf st" "find_file_record_unlocked st fn = Some f"
    "unat rn + length vs \<le> record_count f" "vs \<noteq> []" "length vs \<le> 121"
  defines "pdu \<equiv> file_write_pdu fn rn vs"
  shows "mb_file_record_process_write_request mem st pdu 253 =
    (Inr pdu, write_records (record_addr st fn (unat rn)) pdu 9 (length vs) mem)"
proof -
  note fields = file_write_pdu_fields [OF assms(5), where fn = fn and rn = rn, folded pdu_def]
  let ?rl = "read_be16 pdu 7"
  have rl: "?rl \<noteq> 0" using fields(3) assms(4) by (metis length_0_conv unsigned_0)
  note in_file = subrequest_in_file [OF assms(1,2), of rn ?rl, OF _ rl]
  have chk: "file_write_check st pdu 2 0 = Inr (length pdu, 1)"
    using in_file assms(3) fields rl
    by (simp add: file_write_check.simps [of st pdu 2] file_write_check.simps [of st pdu "9 + length vs * 2"]
        Let_def)
  have app: "file_write_apply st pdu 2 mem =
      write_records (record_addr st fn (unat rn)) pdu 9 (length vs) mem"
    using fields by (simp add: file_write_apply.simps Let_def)
  show ?thesis
    using fields assms(4,5)
    by (simp add: mb_file_record_process_write_request_def chk app Let_def)
qed

lemma file_read_one:
  assumes "files_wf st" "find_file_record_unlocked st fn = Some f"
    "unat rn + n \<le> record_count f" "0 < n" "n \<le> 121"
  shows "mb_file_record_process_read_request mem st (file_read_pdu fn rn n) 253 =
    Inr ([0x14, of_nat (2 + n * 2), of_nat (1 + n * 2), 6] @
      concat (map (\<lambda>i. write_be16 (mem (record_addr st fn (unat rn + i)))) [0..<n]))"
proof -
  let ?pdu = "file_read_pdu fn rn n"
  note fields = file_read_pdu_fields [OF assms(5), of fn rn]
  let ?rl = "read_be16 ?pdu 7"
  have rl: "?rl \<noteq> 0" using fields(3) assms(4) by (metis less_irrefl unsigned_0)
  note in_file = subrequest_in_file [OF assms(1,2), of rn ?rl, OF _ rl]
  have chk: "file_read_check st ?pdu 2 0 = Inr (2 + n * 2)"
    using in_file assms(3,5) fields rl
    by (simp add: file_read_check.simps [of st ?pdu 2] file_read_check.simps [of st ?pdu 9]
        Let_def)
  have len: "ucast ?rl = (of_nat n :: u8)"
    using fields(3) by (metis of_nat_unat)
  have fill: "file_read_fill mem st ?pdu 2 = [of_nat (1 + n * 2), 6] @
      concat (map (\<lambda>i. write_be16 (mem (record_addr st fn (unat rn + i)))) [0..<n])"
    using fields len by (simp add: file_read_fill.simps [of mem st ?pdu 2]
        file_read_fill.simps [of mem st ?pdu 9] Let_def)
  show ?thesis
    using fields assms(5) by (simp add: mb_file_record_process_read_request_def chk fill Let_def)
qed

text \<open>
  C24. Records written with FC21 are returned by a later FC20 read of the same range: both
  requests succeed, the write echoes its request, and the read returns the written values
  in order, big-endian, behind the two length bytes and the reference type.
\<close>

theorem file_write_then_read:
  assumes "files_wf st" "find_file_record_unlocked st fn = Some f"
    "unat rn + length vs \<le> record_count f" "vs \<noteq> []" "length vs \<le> 121"
    "mb_file_record_process_write_request mem st (file_write_pdu fn rn vs) 253 = (res, mem')"
  shows "res = Inr (file_write_pdu fn rn vs) \<and>
    mb_file_record_process_read_request mem' st (file_read_pdu fn rn (length vs)) 253 =
      Inr ([0x14, of_nat (2 + length vs * 2), of_nat (1 + length vs * 2), 6] @
        concat (map write_be16 vs))"
proof -
  let ?pdu = "file_write_pdu fn rn vs"
  have w: "res = Inr ?pdu"
    "mem' = write_records (record_addr st fn (unat rn)) ?pdu 9 (length vs) mem"
    using file_write_one [OF assms(1-5), of mem] assms(6) by simp_all
  have "mem' (record_addr st fn (unat rn + i)) = vs ! i" if "i < length vs" for i
    using that file_write_pdu_fields(7) [OF assms(5) that, where fn = fn and rn = rn]
    by (simp add: w(2) write_records_apply record_addr_def)
  then have "concat (map (\<lambda>i. write_be16 (mem' (record_addr st fn (unat rn + i)))) [0..<length vs]) =
      concat (map (\<lambda>i. write_be16 (vs ! i)) [0..<length vs])"
    by (intro arg_cong [where f = concat] map_cong) auto
  also have "\<dots> = concat (map write_be16 vs)"
    by (intro arg_cong [where f = concat]) (rule nth_equalityI, auto)
  finally show ?thesis
    using w(1) file_read_one [OF assms(1,2), of rn "length vs" mem'] assms(3-5) by simp
qed

theorem file_write_then_read_witness:
  "mb_file_record_process_read_request
     (snd (mb_file_record_process_write_request (\<lambda>_. 0) demo_files (file_write_pdu 4 7 [0x1234, 0xABCD]) 253))
     demo_files (file_read_pdu 4 7 (length [0x1234, 0xABCD :: u16])) 253 = Inr [0x14, 6, 5, 6, 0x12, 0x34, 0xAB, 0xCD]"
proof -
  have wf: "files_wf demo_files"
    by (simp add: files_wf_def demo_files_def strictly_increasing_def)
  have find: "find_file_record_unlocked demo_files 4 =
      Some \<lparr>file_number = 4, records = Some 100, record_count = 20\<rparr>"
    by (simp add: demo_files_def)
  show ?thesis
    using file_write_then_read [OF wf find _ _ _ surjective_pairing, of 7 "[0x1234, 0xABCD]"]
    by (simp add: write_be16_def)
qed

end
