(* ===== verification/Fifo.thy ===== *)
theory Fifo
  imports File_Record
begin

text \<open>
  The FIFO map of modbus.c and FC24 Read FIFO Queue. A queue descriptor holds the address
  of an application-owned block whose first register is the current count. The handler
  takes a snapshot: it changes neither the map nor the block.
\<close>

abbreviation (input) MB_FIFO_MAX_QUEUES :: nat where "MB_FIFO_MAX_QUEUES \<equiv> 8"
abbreviation (input) MB_FIFO_MAX_VALUES :: nat where "MB_FIFO_MAX_VALUES \<equiv> 31"
abbreviation (input) MB_FIFO_MAX_REGISTERS :: nat where "MB_FIFO_MAX_REGISTERS \<equiv> 32"

record mb_fifo_queue =
  pointer_address :: u16
  registers :: "nat option"
  register_count :: nat

datatype fifo_error = FIFO_ERROR_ARGUMENT | FIFO_ERROR_CAPACITY | FIFO_ERROR_QUEUES

type_synonym mb_fifo_state = "mb_fifo_queue list"

definition fifo_entry_ok :: "mb_fifo_queue list \<Rightarrow> nat \<Rightarrow> bool" where
  "fifo_entry_ok queues i \<longleftrightarrow>
     \<not> (registers (queues ! i) = None \<or> register_count (queues ! i) = 0 \<or>
        register_count (queues ! i) > MB_FIFO_MAX_REGISTERS) \<and>
     neighbours_increase pointer_address queues i"

definition mb_fifo_configure ::
  "mb_fifo_queue list option \<Rightarrow> mb_fifo_state \<Rightarrow> (fifo_error + unit) \<times> mb_fifo_state" where
  "mb_fifo_configure queues st =
     (case queues of None \<Rightarrow> (Inl FIFO_ERROR_ARGUMENT, st)
      | Some qs \<Rightarrow>
          if length qs = 0 \<or> length qs > MB_FIFO_MAX_QUEUES then (Inl FIFO_ERROR_CAPACITY, st)
          else if \<not> list_all (fifo_entry_ok qs) [0..<length qs] then (Inl FIFO_ERROR_QUEUES, st)
          else (Inr (), qs))"

definition mb_fifo_clear :: "mb_fifo_state \<Rightarrow> mb_fifo_state" where
  "mb_fifo_clear st = []"

definition mb_fifo_is_configured :: "mb_fifo_state \<Rightarrow> bool" where
  "mb_fifo_is_configured st \<longleftrightarrow> length st \<noteq> 0"

fun find_fifo_unlocked :: "mb_fifo_state \<Rightarrow> u16 \<Rightarrow> mb_fifo_queue option" where
  "find_fifo_unlocked [] p = None"
| "find_fifo_unlocked (q # qs) p =
     (if pointer_address q = p then Some q
      else if pointer_address q > p then None
      else find_fifo_unlocked qs p)"

interpretation fifo_scan: keyed_scan pointer_address find_fifo_unlocked
  by unfold_locales simp_all

definition fifo_reg :: "app_mem \<Rightarrow> mb_fifo_queue \<Rightarrow> nat \<Rightarrow> u16" where
  "fifo_reg mem q i = mem (the (registers q) + i)"

definition mb_fifo_process_read_request ::
  "app_mem \<Rightarrow> mb_fifo_state \<Rightarrow> bytes \<Rightarrow> nat \<Rightarrow> u8 + bytes" where
  "mb_fifo_process_read_request mem st pdu cap =
     (if length pdu \<noteq> 3 then Inl MB_EX_ILLEGAL_DATA_VALUE
      else case find_fifo_unlocked st (read_be16 pdu 1) of
        None \<Rightarrow> Inl MB_EX_ILLEGAL_DATA_ADDRESS
      | Some q \<Rightarrow>
          let fifo_count = fifo_reg mem q 0; n = unat fifo_count;
              byte_count = 2 + n * 2; response_length = 3 + byte_count in
          if n > MB_FIFO_MAX_VALUES then Inl MB_EX_ILLEGAL_DATA_VALUE
          else if register_count q < 1 + n then Inl MB_EX_SERVER_FAILURE
          else if cap < response_length then Inl MB_EX_SERVER_FAILURE
          else Inr ([0x18] @ write_be16 (of_nat byte_count) @ write_be16 fifo_count @
                    concat (map (\<lambda>i. write_be16 (fifo_reg mem q (1 + i))) [0..<n])))"

section \<open>The configured map is well formed\<close>

definition fifos_wf :: "mb_fifo_state \<Rightarrow> bool" where
  "fifos_wf st \<longleftrightarrow>
     length st \<le> MB_FIFO_MAX_QUEUES \<and> strictly_increasing pointer_address st \<and>
     (\<forall>q \<in> set st. registers q \<noteq> None \<and> 1 \<le> register_count q \<and>
        register_count q \<le> MB_FIFO_MAX_REGISTERS)"

lemma fifo_entries_ok_iff:
  "list_all (fifo_entry_ok qs) [0..<length qs] \<longleftrightarrow>
     strictly_increasing pointer_address qs \<and>
     (\<forall>q \<in> set qs. registers q \<noteq> None \<and> 1 \<le> register_count q \<and>
        register_count q \<le> MB_FIFO_MAX_REGISTERS)"
  unfolding strictly_increasing_neighbours list_all_iff all_set_conv_all_nth
  by (auto simp: fifo_entry_ok_def not_less Suc_le_eq)

lemma fifos_wf_Nil: "fifos_wf []"
  by (simp add: fifos_wf_def strictly_increasing_def)

lemma fifo_configure_wf: "fifos_wf st \<Longrightarrow> fifos_wf (snd (mb_fifo_configure queues st))"
  by (auto simp: mb_fifo_configure_def fifo_entries_ok_iff fifos_wf_def split: option.splits)

lemma fifo_configure_error: "mb_fifo_configure queues st = (Inl e, st') \<Longrightarrow> st' = st"
  by (auto simp: mb_fifo_configure_def split: option.splits if_splits)

lemma fifo_read_response_length:
  assumes "mb_fifo_process_read_request mem st pdu cap = Inr rsp"
  shows "5 \<le> length rsp \<and> length rsp \<le> min cap 67"
proof -
  from assms obtain q where "unat (fifo_reg mem q 0) \<le> 31"
    "5 + unat (fifo_reg mem q 0) * 2 \<le> cap"
    "length rsp = 5 + unat (fifo_reg mem q 0) * 2"
    by (auto simp: mb_fifo_process_read_request_def Let_def not_less
        length_concat_map_const [where c = 2] split: if_splits option.splits)
  then show ?thesis by simp
qed

text \<open>
  C31. FC24 returns a faithful snapshot of the queue: for every configured queue whose count
  register fits both the protocol limit and its block, the response carries the byte count,
  the count and exactly the queued registers in order, and no register outside the block
  is read.
\<close>

theorem fifo_read_snapshot:
  assumes "fifos_wf st" "q \<in> set st" "registers q = Some base"
    "unat (mem base) \<le> MB_FIFO_MAX_VALUES" "1 + unat (mem base) \<le> register_count q"
    "5 + unat (mem base) * 2 \<le> cap"
    "\<And>a. base \<le> a \<Longrightarrow> a < base + register_count q \<Longrightarrow> mem' a = mem a"
  shows "mb_fifo_process_read_request mem' st ([0x18] @ write_be16 (pointer_address q)) cap =
    Inr ([0x18] @ write_be16 (of_nat (2 + unat (mem base) * 2)) @ write_be16 (mem base) @
      concat (map write_be16 (map (\<lambda>i. mem (base + 1 + i)) [0..<unat (mem base)])))"
proof -
  have find: "find_fifo_unlocked st (pointer_address q) = Some q"
    using assms(1,2) by (simp add: fifos_wf_def fifo_scan.scan_complete)
  have count: "mem' base = mem base" using assms(5,7) by simp
  have vals: "mem' (Suc (base + i)) = mem (Suc (base + i))" if "i < unat (mem base)" for i
    using assms(5) that by (intro assms(7)) auto
  have "concat (map (\<lambda>i. write_be16 (mem' (Suc (base + i)))) [0..<unat (mem base)]) =
      concat (map (\<lambda>i. write_be16 (mem (Suc (base + i)))) [0..<unat (mem base)])"
    by (intro arg_cong [where f = concat] map_cong) (auto simp: vals)
  then show ?thesis
    using assms(4-6) find count
    by (simp add: mb_fifo_process_read_request_def fifo_reg_def assms(3) Let_def o_def)
qed

definition demo_fifo :: mb_fifo_queue where
  "demo_fifo = \<lparr>pointer_address = 0x04DE, registers = Some 0, register_count = 4\<rparr>"

definition demo_fifo_mem :: app_mem where
  "demo_fifo_mem a = (if a = 0 then 2 else if a = 1 then 0x01B8 else if a = 2 then 0x1284 else 0)"

theorem fifo_read_snapshot_witness:
  "mb_fifo_process_read_request demo_fifo_mem [demo_fifo] ([0x18] @ write_be16 0x04DE) 253 =
     Inr [0x18, 0, 6, 0, 2, 0x01, 0xB8, 0x12, 0x84]"
proof -
  have wf: "fifos_wf [demo_fifo]" "demo_fifo \<in> set [demo_fifo]" "registers demo_fifo = Some 0"
    by (simp_all add: fifos_wf_def strictly_increasing_def demo_fifo_def)
  have mem0: "demo_fifo_mem 0 = 2" by (simp add: demo_fifo_mem_def)
  show ?thesis
    using fifo_read_snapshot [OF wf, of demo_fifo_mem 253 demo_fifo_mem]
    by (simp add: mem0 demo_fifo_def write_be16_def upt_rec) (simp add: demo_fifo_mem_def)
qed

end
