(* ===== verification/Device_Id.thy ===== *)
theory Device_Id
  imports File_Record
begin

text \<open>
  The Device Identification object model of modbus.c (FC43, MEI type 14): configuration of
  the object table with its fixed value storage, and the request handler with its
  segmentation at object boundaries. \<open>uint8_t\<close> flags that are only ever 0 or 1 are
  \<open>bool\<close>. The object array up to \<open>object_count\<close> is a list. The two limits that a build may
  override, the number of objects and the size of the value storage, have their defaults of
  modbus_device_id.h, 32 and 512.
\<close>

abbreviation (input) MB_DEVICE_ID_MAX_OBJECTS :: nat where "MB_DEVICE_ID_MAX_OBJECTS \<equiv> 32"
abbreviation (input) MB_DEVICE_ID_VALUE_STORAGE_SIZE :: nat where
  "MB_DEVICE_ID_VALUE_STORAGE_SIZE \<equiv> 512"
abbreviation (input) MB_DEVICE_ID_MAX_VALUE_LENGTH :: nat where
  "MB_DEVICE_ID_MAX_VALUE_LENGTH \<equiv> 244"
abbreviation (input) MB_DEVICE_ID_READ_BASIC :: u8 where "MB_DEVICE_ID_READ_BASIC \<equiv> 1"
abbreviation (input) MB_DEVICE_ID_READ_REGULAR :: u8 where "MB_DEVICE_ID_READ_REGULAR \<equiv> 2"
abbreviation (input) MB_DEVICE_ID_READ_EXTENDED :: u8 where "MB_DEVICE_ID_READ_EXTENDED \<equiv> 3"
abbreviation (input) MB_DEVICE_ID_READ_SPECIFIC :: u8 where "MB_DEVICE_ID_READ_SPECIFIC \<equiv> 4"
abbreviation (input) MB_DEVICE_ID_RESPONSE_HEADER_SIZE :: nat where
  "MB_DEVICE_ID_RESPONSE_HEADER_SIZE \<equiv> 7"
abbreviation (input) MB_DEVICE_ID_OBJECT_HEADER_SIZE :: nat where
  "MB_DEVICE_ID_OBJECT_HEADER_SIZE \<equiv> 2"

record mb_device_id_entry =
  object_id :: u8
  value_length :: u8
  value_offset :: nat

record mb_device_id_state =
  configured :: bool
  conformity_level :: u8
  objects :: "mb_device_id_entry list"
  value_bytes :: bytes

text \<open>The application's object descriptor: a pointer, possibly NULL, and a length.\<close>

record mb_device_id_object =
  obj_id :: u8
  obj_value :: "bytes option"
  obj_value_length :: nat

datatype device_id_error =
  DEVICE_ID_ERROR_ARGUMENT | DEVICE_ID_ERROR_CONFORMITY | DEVICE_ID_ERROR_OBJECTS
| DEVICE_ID_ERROR_CAPACITY

definition conformity_level_is_valid :: "u8 \<Rightarrow> bool" where
  "conformity_level_is_valid l \<longleftrightarrow>
     l = 0x01 \<or> l = 0x02 \<or> l = 0x03 \<or> l = 0x81 \<or> l = 0x82 \<or> l = 0x83"

definition conformity_category :: "u8 \<Rightarrow> u8" where
  "conformity_category l = l AND 0x7F"

definition object_id_is_defined :: "u8 \<Rightarrow> bool" where
  "object_id_is_defined i \<longleftrightarrow> i \<le> 6 \<or> i \<ge> 0x80"

definition object_id_matches_category :: "u8 \<Rightarrow> u8 \<Rightarrow> bool" where
  "object_id_matches_category i category =
     (if category = MB_DEVICE_ID_READ_BASIC then i \<le> 2
      else if category = MB_DEVICE_ID_READ_REGULAR then i \<le> 6
      else category = MB_DEVICE_ID_READ_EXTENDED \<and> object_id_is_defined i)"

definition configuration_object_is_allowed :: "u8 \<Rightarrow> u8 \<Rightarrow> bool" where
  "configuration_object_is_allowed i category =
     (if \<not> object_id_is_defined i then False
      else if category = MB_DEVICE_ID_READ_BASIC then i \<le> 2
      else if category = MB_DEVICE_ID_READ_REGULAR then i \<le> 6
      else category = MB_DEVICE_ID_READ_EXTENDED)"

definition clear_device_id_unlocked :: mb_device_id_state where
  "clear_device_id_unlocked =
     \<lparr>configured = False, conformity_level = 0, objects = [],
      value_bytes = replicate MB_DEVICE_ID_VALUE_STORAGE_SIZE 0\<rparr>"

function device_id_check ::
  "mb_device_id_object list \<Rightarrow> u8 \<Rightarrow> nat \<Rightarrow> nat \<Rightarrow> device_id_error + nat" where
  "device_id_check objs category i used =
     (if i < length objs then
        let ob = objs ! i in
        if obj_value_length ob > MB_DEVICE_ID_MAX_VALUE_LENGTH \<or>
           (obj_value_length ob > 0 \<and> obj_value ob = None) \<or>
           \<not> configuration_object_is_allowed (obj_id ob) category
        then Inl DEVICE_ID_ERROR_OBJECTS
        else if i > 0 \<and> obj_id (objs ! (i - 1)) \<ge> obj_id ob then Inl DEVICE_ID_ERROR_OBJECTS
        else if obj_value_length ob > MB_DEVICE_ID_VALUE_STORAGE_SIZE - used
        then Inl DEVICE_ID_ERROR_CAPACITY
        else device_id_check objs category (Suc i) (used + obj_value_length ob)
      else Inr used)"
  by pat_completeness auto
termination
  by (relation "measure (\<lambda>(objs, category, i, used). length objs - i)") auto

declare device_id_check.simps [simp del]

fun device_id_copy ::
  "mb_device_id_object list \<Rightarrow> nat \<Rightarrow> bytes \<Rightarrow> mb_device_id_entry list \<times> bytes" where
  "device_id_copy [] used vals = ([], vals)"
| "device_id_copy (ob # obs) used vals =
     (let e = \<lparr>object_id = obj_id ob, value_length = of_nat (obj_value_length ob),
               value_offset = used\<rparr>;
          vals' = (if obj_value_length ob > 0
                   then memcpy_at vals used (take (obj_value_length ob) (the (obj_value ob)))
                   else vals);
          (es, vals'') = device_id_copy obs (used + obj_value_length ob) vals'
      in (e # es, vals''))"

definition mb_device_id_configure ::
  "u8 \<Rightarrow> mb_device_id_object list option \<Rightarrow> mb_device_id_state \<Rightarrow>
   (device_id_error + unit) \<times> mb_device_id_state" where
  "mb_device_id_configure level objs st =
     (case objs of None \<Rightarrow> (Inl DEVICE_ID_ERROR_ARGUMENT, st)
      | Some obs \<Rightarrow>
          if \<not> conformity_level_is_valid level then (Inl DEVICE_ID_ERROR_CONFORMITY, st)
          else if length obs < 3 \<or> length obs > MB_DEVICE_ID_MAX_OBJECTS \<or> length obs > 255
          then (Inl DEVICE_ID_ERROR_CAPACITY, st)
          else case device_id_check obs (conformity_category level) 0 0 of
            Inl e \<Rightarrow> (Inl e, st)
          | Inr _ \<Rightarrow>
              if obj_id (obs ! 0) \<noteq> 0 \<or> obj_id (obs ! 1) \<noteq> 1 \<or> obj_id (obs ! 2) \<noteq> 2
              then (Inl DEVICE_ID_ERROR_OBJECTS, st)
              else
                let (es, vals) = device_id_copy obs 0 (value_bytes clear_device_id_unlocked) in
                (Inr (), clear_device_id_unlocked\<lparr>
                   conformity_level := level, objects := es, value_bytes := vals,
                   configured := True\<rparr>))"

definition mb_device_id_clear :: "mb_device_id_state \<Rightarrow> mb_device_id_state" where
  "mb_device_id_clear st = clear_device_id_unlocked"

definition mb_device_id_is_configured :: "mb_device_id_state \<Rightarrow> bool" where
  "mb_device_id_is_configured st \<longleftrightarrow> configured st"

section \<open>The request handler\<close>

definition object_count :: "mb_device_id_state \<Rightarrow> nat" where
  "object_count st = length (objects st)"

definition find_object_index :: "mb_device_id_state \<Rightarrow> u8 \<Rightarrow> u8 \<Rightarrow> nat option" where
  "find_object_index st i category =
     find (\<lambda>k. object_id_matches_category (object_id (objects st ! k)) category \<and>
               object_id (objects st ! k) = i) [0..<object_count st]"

definition first_eligible_index :: "mb_device_id_state \<Rightarrow> u8 \<Rightarrow> nat" where
  "first_eligible_index st category =
     (case find (\<lambda>k. object_id_matches_category (object_id (objects st ! k)) category)
        [0..<object_count st] of Some k \<Rightarrow> k | None \<Rightarrow> object_count st)"

definition next_eligible_index :: "mb_device_id_state \<Rightarrow> nat \<Rightarrow> u8 \<Rightarrow> nat" where
  "next_eligible_index st index category =
     (case find (\<lambda>k. object_id_matches_category (object_id (objects st ! k)) category)
        [index + 1..<object_count st] of Some k \<Rightarrow> k | None \<Rightarrow> object_count st)"

definition append_device_id_object :: "mb_device_id_state \<Rightarrow> mb_device_id_entry \<Rightarrow> bytes" where
  "append_device_id_object st e =
     [object_id e, value_length e] @
     take (unat (value_length e)) (drop (value_offset e) (value_bytes st))"

lemma next_eligible_index_gt:
  "index < object_count st \<Longrightarrow> index < next_eligible_index st index category"
  by (auto simp: next_eligible_index_def find_Some_iff split: option.splits)

text \<open>
  The segmentation loop. Its state is the object index, the bytes appended so far (so that
  \<open>offset\<close> is the header size plus their number) and the object counter; its result is
  the appended bytes, the More Follows and Next Object ID bytes and the counter.
\<close>

function device_id_stream ::
  "mb_device_id_state \<Rightarrow> u8 \<Rightarrow> nat \<Rightarrow> nat \<Rightarrow> bytes \<Rightarrow> u8 \<Rightarrow> u8 + bytes \<times> u8 \<times> u8 \<times> u8" where
  "device_id_stream st category limit index acc cnt =
     (if index < object_count st then
        let e = objects st ! index in
        if \<not> object_id_matches_category (object_id e) category
        then device_id_stream st category limit (next_eligible_index st index category) acc cnt
        else if MB_DEVICE_ID_OBJECT_HEADER_SIZE + unat (value_length e) >
                limit - (MB_DEVICE_ID_RESPONSE_HEADER_SIZE + length acc) then
          if cnt = 0 then Inl MB_EX_SERVER_FAILURE else Inr (acc, 0xFF, object_id e, cnt)
        else
          let acc' = acc @ append_device_id_object st e;
              next_index = next_eligible_index st index category in
          if next_index \<ge> object_count st then Inr (acc', 0, 0, cnt + 1)
          else device_id_stream st category limit next_index acc' (cnt + 1)
      else Inr (acc, 0, 0, cnt))"
  by pat_completeness auto
termination
  by (relation "measure (\<lambda>(st, category, limit, index, acc, cnt). object_count st - index)")
    (auto simp: diff_less_mono2 next_eligible_index_gt)

declare device_id_stream.simps [simp del]

definition mb_device_id_process_request ::
  "mb_device_id_state \<Rightarrow> u8 \<Rightarrow> u8 \<Rightarrow> nat \<Rightarrow> u8 + bytes" where
  "mb_device_id_process_request st code oid cap =
     (let limit = min cap MODBUS_PDU_MAX_SIZE in
      if code < MB_DEVICE_ID_READ_BASIC \<or> code > MB_DEVICE_ID_READ_SPECIFIC
      then Inl MB_EX_ILLEGAL_DATA_VALUE
      else if \<not> configured st then Inl MB_EX_SERVER_FAILURE
      else
        let actual = conformity_category (conformity_level st) in
        if code = MB_DEVICE_ID_READ_SPECIFIC then
          if conformity_level st AND 0x80 = 0 then Inl MB_EX_ILLEGAL_DATA_VALUE
          else case find_object_index st oid actual of
            None \<Rightarrow> Inl MB_EX_ILLEGAL_DATA_ADDRESS
          | Some k \<Rightarrow>
              let e = objects st ! k in
              if limit < MB_DEVICE_ID_RESPONSE_HEADER_SIZE + MB_DEVICE_ID_OBJECT_HEADER_SIZE +
                         unat (value_length e)
              then Inl MB_EX_SERVER_FAILURE
              else Inr ([0x2B, 0x0E, code, conformity_level st, 0, 0, 1] @
                        append_device_id_object st e)
        else
          let category = (if code < actual then code else actual);
              start = (case find_object_index st oid category of
                         Some k \<Rightarrow> k | None \<Rightarrow> first_eligible_index st category) in
          if start \<ge> object_count st \<or> limit < MB_DEVICE_ID_RESPONSE_HEADER_SIZE
          then Inl MB_EX_SERVER_FAILURE
          else case device_id_stream st category limit start [] 0 of
            Inl e \<Rightarrow> Inl e
          | Inr (acc, more_follows, next_id, cnt) \<Rightarrow>
              Inr ([0x2B, 0x0E, code, conformity_level st, more_follows, next_id, cnt] @ acc))"

section \<open>Configuration\<close>

text \<open>
  The well-formed states: the value storage keeps its size, and an active configuration has
  a valid conformity level, the mandatory objects first, strictly increasing identifiers
  allowed by the level, and every value inside the storage.
\<close>

definition entry_ok :: "u8 \<Rightarrow> mb_device_id_entry \<Rightarrow> bool" where
  "entry_ok category e \<longleftrightarrow> configuration_object_is_allowed (object_id e) category \<and>
     unat (value_length e) \<le> MB_DEVICE_ID_MAX_VALUE_LENGTH \<and>
     value_offset e + unat (value_length e) \<le> MB_DEVICE_ID_VALUE_STORAGE_SIZE"

definition device_id_wf :: "mb_device_id_state \<Rightarrow> bool" where
  "device_id_wf st \<longleftrightarrow>
     length (value_bytes st) = MB_DEVICE_ID_VALUE_STORAGE_SIZE \<and>
     (configured st \<longrightarrow>
        conformity_level_is_valid (conformity_level st) \<and>
        3 \<le> object_count st \<and> object_count st \<le> MB_DEVICE_ID_MAX_OBJECTS \<and>
        sorted_wrt (\<lambda>x y. object_id x < object_id y) (objects st) \<and>
        map object_id (take 3 (objects st)) = [0, 1, 2] \<and>
        list_all (entry_ok (conformity_category (conformity_level st))) (objects st))"

lemma device_id_wf_clear: "device_id_wf clear_device_id_unlocked"
  by (simp add: device_id_wf_def clear_device_id_unlocked_def)

text \<open>The bytes an application object contributes, and the precondition that they are readable.\<close>

definition obj_bytes :: "mb_device_id_object \<Rightarrow> bytes" where
  "obj_bytes ob =
     (if obj_value_length ob > 0 then take (obj_value_length ob) (the (obj_value ob)) else [])"

definition obj_readable :: "mb_device_id_object \<Rightarrow> bool" where
  "obj_readable ob \<longleftrightarrow> (\<forall>v. obj_value ob = Some v \<longrightarrow> obj_value_length ob \<le> length v)"

definition obj_ok :: "u8 \<Rightarrow> mb_device_id_object list \<Rightarrow> nat \<Rightarrow> bool" where
  "obj_ok category objs i \<longleftrightarrow>
     obj_value_length (objs ! i) \<le> MB_DEVICE_ID_MAX_VALUE_LENGTH \<and>
     (obj_value_length (objs ! i) > 0 \<longrightarrow> obj_value (objs ! i) \<noteq> None) \<and>
     configuration_object_is_allowed (obj_id (objs ! i)) category \<and>
     (i > 0 \<longrightarrow> obj_id (objs ! (i - 1)) < obj_id (objs ! i))"

lemma device_id_check_Inr:
  "device_id_check objs category i used = Inr t \<Longrightarrow> used \<le> MB_DEVICE_ID_VALUE_STORAGE_SIZE \<Longrightarrow>
     (\<forall>j. i \<le> j \<and> j < length objs \<longrightarrow> obj_ok category objs j) \<and>
     t = used + sum_list (map obj_value_length (drop i objs)) \<and>
     t \<le> MB_DEVICE_ID_VALUE_STORAGE_SIZE"
proof (induction objs category i used rule: device_id_check.induct)
  case (1 objs category i used)
  show ?case
  proof (cases "i < length objs")
    case True
    let ?used = "used + obj_value_length (objs ! i)"
    from True "1.prems" have ok: "obj_ok category objs i"
      and le: "?used \<le> MB_DEVICE_ID_VALUE_STORAGE_SIZE"
      and rest: "device_id_check objs category (Suc i) ?used = Inr t"
      by (auto simp: device_id_check.simps [of objs category i] Let_def obj_ok_def not_less
          not_le split: if_splits)
    from ok have "(\<forall>j. Suc i \<le> j \<and> j < length objs \<longrightarrow> obj_ok category objs j) \<and>
      t = ?used + sum_list (map obj_value_length (drop (Suc i) objs)) \<and>
      t \<le> MB_DEVICE_ID_VALUE_STORAGE_SIZE"
      using True "1.prems"(1) rest le
      by (intro "1.IH") (auto simp: device_id_check.simps [of objs category i] Let_def
          split: if_splits)
    moreover have "obj_ok category objs j"
      if "i \<le> j" "j < length objs" "\<forall>j. Suc i \<le> j \<and> j < length objs \<longrightarrow> obj_ok category objs j" for j
      using that ok by (cases "j = i") auto
    moreover have "drop i objs = objs ! i # drop (Suc i) objs"
      using Cons_nth_drop_Suc [OF True] by simp
    ultimately show ?thesis by simp
  next
    case False
    then show ?thesis using "1.prems" by (auto simp: device_id_check.simps [of objs category i])
  qed
qed

definition copied :: "bytes \<Rightarrow> nat \<Rightarrow> mb_device_id_entry \<Rightarrow> mb_device_id_object \<Rightarrow> bool" where
  "copied vals bound e ob \<longleftrightarrow>
     object_id e = obj_id ob \<and> unat (value_length e) = obj_value_length ob \<and>
     value_offset e + obj_value_length ob \<le> bound \<and>
     take (obj_value_length ob) (drop (value_offset e) vals) = obj_bytes ob"

lemma take_drop_memcpy_at:
  assumes "off + length src \<le> length dst"
  shows "take (length src) (drop off (memcpy_at dst off src)) = src"
    "take off (memcpy_at dst off src) = take off dst"
  using assms by (simp_all add: memcpy_at_def)

lemma device_id_copy_correct:
  assumes "device_id_copy obs used vals = (es, vals')"
    "used + sum_list (map obj_value_length obs) \<le> length vals"
    "\<forall>ob \<in> set obs. obj_readable ob \<and> obj_value_length ob < 256 \<and>
       (obj_value_length ob > 0 \<longrightarrow> obj_value ob \<noteq> None)"
  shows "length vals' = length vals \<and> take used vals' = take used vals \<and>
    list_all2 (copied vals' (used + sum_list (map obj_value_length obs))) es obs"
  using assms
proof (induction obs arbitrary: used vals es vals')
  case Nil
  then show ?case by simp
next
  case (Cons ob obs)
  let ?n = "obj_value_length ob"
  let ?vals = "if ?n > 0 then memcpy_at vals used (obj_bytes ob) else vals"
  from Cons.prems(1) obtain es' where es: "device_id_copy obs (used + ?n) ?vals = (es', vals')"
    "es = \<lparr>object_id = obj_id ob, value_length = of_nat ?n, value_offset = used\<rparr> # es'"
    by (auto simp: Let_def obj_bytes_def split: prod.splits if_splits)
  have len: "length (obj_bytes ob) = ?n"
    using Cons.prems(3) by (auto simp: obj_bytes_def obj_readable_def)
  have vlen: "length ?vals = length vals" using len Cons.prems(2) by simp
  have pre: "take used ?vals = take used vals"
    and here: "take ?n (drop used ?vals) = obj_bytes ob"
    using take_drop_memcpy_at [of used "obj_bytes ob" vals] len Cons.prems(2)
    by (auto simp: obj_bytes_def)
  have IH: "length vals' = length ?vals \<and> take (used + ?n) vals' = take (used + ?n) ?vals \<and>
      list_all2 (copied vals' (used + ?n + sum_list (map obj_value_length obs))) es' obs"
    using Cons.prems(2,3) vlen by (intro Cons.IH [OF es(1)]) auto
  then have "take ?n (drop used vals') = take ?n (drop used ?vals)"
    by (metis take_drop add.commute)
  moreover have "take used vals' = take used ?vals"
    using IH by (metis min.absorb1 le_add1 take_take)
  moreover have "copied vals' (used + (?n + sum_list (map obj_value_length obs)))
      \<lparr>object_id = obj_id ob, value_length = of_nat ?n, value_offset = used\<rparr> ob"
    using calculation here Cons.prems(3) by (simp add: copied_def)
  ultimately show ?case
    using IH vlen pre es(2) by (simp add: add.assoc)
qed

text \<open>The value an entry denotes.\<close>

definition entry_value :: "mb_device_id_state \<Rightarrow> mb_device_id_entry \<Rightarrow> bytes" where
  "entry_value st e = take (unat (value_length e)) (drop (value_offset e) (value_bytes st))"

lemma neighbours_sorted:
  assumes "\<forall>j < length xs. j > 0 \<longrightarrow> f (xs ! (j - 1)) < (f (xs ! j) :: u8)"
  shows "sorted_wrt (\<lambda>x y. f x < f y) xs"
proof -
  have "f (xs ! i) < f (xs ! j)" if "i < j" "j < length xs" for i j
    using that
  proof (induction j)
    case 0
    then show ?case by simp
  next
    case (Suc j)
    have "f (xs ! j) < f (xs ! Suc j)" using assms [rule_format, of "Suc j"] Suc.prems by simp
    with Suc show ?case by (cases "i = j") auto
  qed
  then show ?thesis by (simp add: sorted_wrt_iff_nth_less)
qed

lemma device_id_configure_copied:
  assumes "mb_device_id_configure level (Some obs) st = (Inr (), st')"
    "\<forall>ob \<in> set obs. obj_readable ob"
  shows "configured st' \<and> conformity_level st' = level \<and> conformity_level_is_valid level \<and>
    3 \<le> length obs \<and> length obs \<le> MB_DEVICE_ID_MAX_OBJECTS \<and>
    length (value_bytes st') = MB_DEVICE_ID_VALUE_STORAGE_SIZE \<and>
    (\<forall>j < length obs. obj_ok (conformity_category level) obs j) \<and>
    obj_id (obs ! 0) = 0 \<and> obj_id (obs ! 1) = 1 \<and> obj_id (obs ! 2) = 2 \<and>
    list_all2 (copied (value_bytes st') MB_DEVICE_ID_VALUE_STORAGE_SIZE) (objects st') obs"
proof -
  let ?v0 = "replicate MB_DEVICE_ID_VALUE_STORAGE_SIZE 0 :: bytes"
  from assms(1) obtain t es vals where t: "device_id_check obs (conformity_category level) 0 0 = Inr t"
    and copy: "device_id_copy obs 0 ?v0 = (es, vals)"
    and st': "st' = \<lparr>configured = True, conformity_level = level, objects = es, value_bytes = vals\<rparr>"
    and head: "conformity_level_is_valid level" "3 \<le> length obs" "length obs \<le> 32"
      "obj_id (obs ! 0) = 0" "obj_id (obs ! 1) = 1" "obj_id (obs ! 2) = 2"
    by (auto simp: mb_device_id_configure_def clear_device_id_unlocked_def Let_def not_less
        split: if_splits sum.splits prod.splits)
  have ok: "\<forall>j. 0 \<le> j \<and> j < length obs \<longrightarrow> obj_ok (conformity_category level) obs j"
    and room: "sum_list (map obj_value_length obs) \<le> MB_DEVICE_ID_VALUE_STORAGE_SIZE"
    using device_id_check_Inr [OF t] by simp_all
  have "\<forall>ob \<in> set obs. obj_readable ob \<and> obj_value_length ob < 256 \<and>
      (obj_value_length ob > 0 \<longrightarrow> obj_value ob \<noteq> None)"
    using assms(2) ok by (fastforce simp: obj_ok_def in_set_conv_nth)
  from device_id_copy_correct [OF copy _ this] room
  have "length vals = 512"
    and "list_all2 (copied vals (sum_list (map obj_value_length obs))) es obs"
    by simp_all
  moreover from this(2) have "list_all2 (copied vals 512) es obs"
    using room by (elim list_all2_mono) (auto simp: copied_def)
  ultimately show ?thesis using st' head ok by simp
qed

lemma device_id_configure_error:
  "mb_device_id_configure level objs st = (Inl e, st') \<Longrightarrow> st' = st"
  by (auto simp: mb_device_id_configure_def Let_def split: if_splits option.splits sum.splits prod.splits)

text \<open>
  C27. A successful configuration of the Device Identification table establishes its
  invariant and stores exactly the objects it was given, in order and with their values,
  whatever was configured before.
\<close>

theorem device_id_configure_stores:
  assumes "mb_device_id_configure level (Some obs) st = (Inr (), st')"
    "\<forall>ob \<in> set obs. obj_readable ob"
  shows "configured st' \<and> device_id_wf st' \<and> conformity_level st' = level \<and>
    map (\<lambda>e. (object_id e, entry_value st' e)) (objects st') =
    map (\<lambda>ob. (obj_id ob, obj_bytes ob)) obs"
proof -
  note c = device_id_configure_copied [OF assms]
  then have len: "length (objects st') = length obs"
    and cp: "\<And>i. i < length obs \<Longrightarrow> copied (value_bytes st') 512 (objects st' ! i) (obs ! i)"
    by (auto simp: list_all2_conv_all_nth)
  have "sorted_wrt (\<lambda>x y. object_id x < object_id y) (objects st')"
    using c cp len by (intro neighbours_sorted) (auto simp: copied_def obj_ok_def)
  moreover have "map object_id (take 3 (objects st')) = [0, 1, 2]"
  proof (rule nth_equalityI)
    show "length (map object_id (take 3 (objects st'))) = length [0, 1, 2 :: u8]"
      using c len by simp
    have ids: "object_id (objects st' ! i) = obj_id (obs ! i)" if "i < 3" for i
      using cp [of i] c that by (simp add: copied_def)
    show "map object_id (take 3 (objects st')) ! i = [0, 1, 2] ! i"
      if "i < length (map object_id (take 3 (objects st')))" for i
    proof -
      from that consider "i = 0" | "i = 1" | "i = 2" by force
      then show ?thesis using that c ids [of i] by cases simp_all
    qed
  qed
  moreover have "list_all (entry_ok (conformity_category level)) (objects st')"
    using c cp len by (auto simp: list_all_length entry_ok_def copied_def obj_ok_def)
  moreover have "map (\<lambda>e. (object_id e, entry_value st' e)) (objects st') =
      map (\<lambda>ob. (obj_id ob, obj_bytes ob)) obs"
    using cp len by (intro nth_equalityI) (auto simp: copied_def entry_value_def)
  ultimately show ?thesis using c len by (simp add: device_id_wf_def object_count_def)
qed

section \<open>Segmentation\<close>

text \<open>
  The specification of one page: the longest prefix of the remaining objects that fits,
  object by object, and what is left.
\<close>

fun take_fitting :: "('e \<Rightarrow> nat) \<Rightarrow> nat \<Rightarrow> 'e list \<Rightarrow> 'e list \<times> 'e list" where
  "take_fitting sz room [] = ([], [])"
| "take_fitting sz room (e # es) =
     (if sz e \<le> room then
        let (page, rest) = take_fitting sz (room - sz e) es in (e # page, rest)
      else ([], e # es))"

lemma take_fitting_append: "take_fitting sz room es = (page, rest) \<Longrightarrow> es = page @ rest"
  by (induction sz room es arbitrary: page rule: take_fitting.induct)
    (auto split: if_splits prod.splits)

lemma take_fitting_size:
  "take_fitting sz room es = (page, rest) \<Longrightarrow> sum_list (map sz page) \<le> room"
proof (induction sz room es arbitrary: page rule: take_fitting.induct)
  case (2 sz room e es)
  show ?case
  proof (cases "sz e \<le> room")
    case True
    then obtain p where p: "take_fitting sz (room - sz e) es = (p, rest)" "page = e # p"
      using "2.prems" by (auto split: prod.splits)
    then show ?thesis using "2.IH" [OF True p(1)] True by simp
  qed (use "2.prems" in simp)
qed simp

lemma take_fitting_progress:
  "take_fitting sz room es = (page, rest) \<Longrightarrow> es \<noteq> [] \<Longrightarrow> sz (hd es) \<le> room \<Longrightarrow> page \<noteq> []"
  by (cases es) (auto split: prod.splits)

definition entry_size :: "mb_device_id_entry \<Rightarrow> nat" where
  "entry_size e = MB_DEVICE_ID_OBJECT_HEADER_SIZE + unat (value_length e)"

text \<open>The objects of a category from an index on.\<close>

definition eligible :: "mb_device_id_state \<Rightarrow> u8 \<Rightarrow> nat \<Rightarrow> mb_device_id_entry list" where
  "eligible st category k =
     filter (\<lambda>e. object_id_matches_category (object_id e) category) (drop k (objects st))"

lemma find_upt_Some:
  "find P [i..<n] = Some k \<longleftrightarrow> i \<le> k \<and> k < n \<and> P k \<and> (\<forall>j. i \<le> j \<and> j < k \<longrightarrow> \<not> P j)"
  (is "?lhs \<longleftrightarrow> ?rhs")
proof
  assume ?lhs
  then obtain d where d: "d < n - i" "P (i + d)" "k = i + d" "\<forall>j < d. \<not> P (i + j)"
    by (auto simp: find_Some_iff)
  have "\<not> P j" if "i \<le> j" "j < k" for j
    using d(3,4) that by (metis add_less_cancel_left le_add_diff_inverse)
  then show ?rhs using d by auto
next
  assume r: ?rhs
  then show ?lhs
    unfolding find_Some_iff by (intro exI [of _ "k - i"]) auto
qed

lemma find_upt_None: "find P [i..<n] = None \<longleftrightarrow> (\<forall>j. i \<le> j \<and> j < n \<longrightarrow> \<not> P j)"
  by (auto simp: find_None_iff)

lemma eligible_step:
  "k < object_count st \<Longrightarrow> eligible st category k =
     (if object_id_matches_category (object_id (objects st ! k)) category
      then objects st ! k # eligible st category (Suc k) else eligible st category (Suc k))"
  by (simp add: eligible_def object_count_def Cons_nth_drop_Suc [symmetric])

lemma eligible_end: "object_count st \<le> k \<Longrightarrow> eligible st category k = []"
  by (simp add: eligible_def object_count_def)

lemma eligible_skip:
  "i \<le> k \<Longrightarrow> k \<le> object_count st \<Longrightarrow>
   (\<forall>j. i \<le> j \<and> j < k \<longrightarrow> \<not> object_id_matches_category (object_id (objects st ! j)) category) \<Longrightarrow>
   eligible st category i = eligible st category k"
proof (induction "k - i" arbitrary: i)
  case 0
  then show ?case by simp
next
  case (Suc d)
  then have "eligible st category (Suc i) = eligible st category k"
    by (intro Suc.hyps(1)) simp_all
  moreover have "\<not> object_id_matches_category (object_id (objects st ! i)) category"
    using Suc.hyps(2) Suc.prems(3) by simp
  moreover have "i < object_count st" using Suc.hyps(2) Suc.prems(2) by simp
  ultimately show ?case by (simp add: eligible_step)
qed

lemma eligible_next:
  "eligible st category (next_eligible_index st k category) = eligible st category (Suc k)"
proof (cases "Suc k \<le> object_count st")
  case True
  let ?k = "next_eligible_index st k category"
  have "Suc k \<le> ?k \<and> ?k \<le> object_count st \<and> (\<forall>j. Suc k \<le> j \<and> j < ?k \<longrightarrow>
      \<not> object_id_matches_category (object_id (objects st ! j)) category)"
    using True
    by (simp add: next_eligible_index_def find_upt_Some find_upt_None split: option.splits)
  then show ?thesis by (intro eligible_skip [symmetric]) blast+
next
  case False
  then show ?thesis
    by (simp add: next_eligible_index_def eligible_end)
qed

lemma next_eligible_None_iff:
  "next_eligible_index st k category \<ge> object_count st \<longleftrightarrow> eligible st category (Suc k) = []"
proof (cases "find (\<lambda>j. object_id_matches_category (object_id (objects st ! j)) category)
    [k + 1..<object_count st]")
  case None
  then have "next_eligible_index st k category = object_count st"
    by (simp add: next_eligible_index_def)
  then show ?thesis by (metis eligible_end eligible_next order_refl)
next
  case (Some j)
  then have j: "next_eligible_index st k category = j" "j < object_count st"
    "object_id_matches_category (object_id (objects st ! j)) category"
    using Some [unfolded find_upt_Some] by (simp_all add: next_eligible_index_def)
  then have "eligible st category j \<noteq> []" by (simp add: eligible_step)
  with j show ?thesis by (metis eligible_next leD)
qed

lemma append_device_id_object_length:
  "length (value_bytes st) = 512 \<Longrightarrow> entry_ok category e \<Longrightarrow>
   length (append_device_id_object st e) = entry_size e"
  by (auto simp: append_device_id_object_def entry_ok_def entry_size_def)

definition page_bytes :: "mb_device_id_state \<Rightarrow> mb_device_id_entry list \<Rightarrow> bytes" where
  "page_bytes st es = concat (map (append_device_id_object st) es)"

definition stream_spec ::
  "mb_device_id_state \<Rightarrow> nat \<Rightarrow> mb_device_id_entry list \<Rightarrow> bytes \<Rightarrow> u8 \<Rightarrow>
   u8 + bytes \<times> u8 \<times> u8 \<times> u8" where
  "stream_spec st limit es acc cnt =
     (let (page, rest) =
        take_fitting entry_size (limit - (MB_DEVICE_ID_RESPONSE_HEADER_SIZE + length acc)) es in
      if rest \<noteq> [] \<and> page = [] \<and> cnt = 0 then Inl MB_EX_SERVER_FAILURE
      else Inr (acc @ page_bytes st page, if rest = [] then 0 else 0xFF,
                if rest = [] then 0 else object_id (hd rest), cnt + of_nat (length page)))"

text \<open>The loop of the source computes the page that the specification takes.\<close>

lemma stream_spec_fits:
  assumes "entry_size e \<le> limit - (MB_DEVICE_ID_RESPONSE_HEADER_SIZE + length acc)"
    "length (append_device_id_object st e) = entry_size e" "unat cnt + 1 < 256"
  shows "stream_spec st limit (e # es) acc cnt =
    stream_spec st limit es (acc @ append_device_id_object st e) (cnt + 1)"
proof -
  have "unat (cnt + 1) \<noteq> unat (0 :: u8)"
    using assms(3) by (simp add: unat_word_ariths)
  then have "cnt + 1 \<noteq> 0" by metis
  then show ?thesis
    using assms(1,2)
    by (auto simp: stream_spec_def page_bytes_def add.assoc split: prod.splits)
qed

lemma device_id_stream_spec:
  assumes "list_all (entry_ok c) (objects st)" "length (value_bytes st) = 512"
    "unat cnt + length (eligible st category k) < 256"
  shows "device_id_stream st category limit k acc cnt =
    stream_spec st limit (eligible st category k) acc cnt"
  using assms
proof (induction st category limit k acc cnt rule: device_id_stream.induct)
  case (1 st category limit k acc cnt)
  let ?e = "objects st ! k" let ?next = "next_eligible_index st k category"
  let ?acc = "acc @ append_device_id_object st ?e"
  note unfold = device_id_stream.simps [of st category limit k acc cnt]
  show ?case
  proof (cases "k < object_count st")
    case False
    then show ?thesis by (simp add: unfold stream_spec_def eligible_end page_bytes_def)
  next
    case k: True
    show ?thesis
    proof (cases "object_id_matches_category (object_id ?e) category")
      case False
      then show ?thesis
        using k "1.IH"(1) "1.prems" by (simp add: unfold eligible_step eligible_next)
    next
      case m: True
      then have el: "eligible st category k = ?e # eligible st category (Suc k)"
        using k by (simp add: eligible_step)
      have bound: "unat cnt + 1 + length (eligible st category (Suc k)) < 256"
        using "1.prems"(3) el by simp
      have len: "length (append_device_id_object st ?e) = entry_size ?e"
        using "1.prems"(1,2) k
        by (intro append_device_id_object_length) (auto simp: list_all_length object_count_def)
      show ?thesis
      proof (cases "entry_size ?e > limit - (MB_DEVICE_ID_RESPONSE_HEADER_SIZE + length acc)")
        case True
        then show ?thesis using k m el
          by (simp add: unfold stream_spec_def entry_size_def page_bytes_def)
      next
        case fits: False
        have step: "stream_spec st limit (eligible st category k) acc cnt =
            stream_spec st limit (eligible st category (Suc k)) ?acc (cnt + 1)"
          unfolding el using fits len bound by (intro stream_spec_fits) simp_all
        show ?thesis
        proof (cases "object_count st \<le> ?next")
          case True
          then have "eligible st category (Suc k) = []" by (simp only: next_eligible_None_iff)
          with True step show ?thesis using k m fits
            by (simp add: unfold entry_size_def stream_spec_def page_bytes_def)
        next
          case False
          have "unat (cnt + 1) = unat cnt + 1"
            using bound by (simp add: unat_word_ariths)
          with False k m fits "1.IH"(2) [OF k refl _ _ refl refl] "1.prems" bound step
          show ?thesis
            by (simp add: unfold entry_size_def eligible_next)
        qed
      qed
    qed
  qed
qed

section \<open>Requests on a configured table\<close>

lemma matches_allowed:
  "configuration_object_is_allowed i category \<Longrightarrow>
   category = 1 \<or> category = 2 \<or> category = 3 \<Longrightarrow> object_id_matches_category i category"
  by (auto simp: configuration_object_is_allowed_def object_id_matches_category_def
      split: if_splits)

lemma conformity_category_cases:
  "conformity_level_is_valid l \<Longrightarrow>
   conformity_category l = 1 \<or> conformity_category l = 2 \<or> conformity_category l = 3"
  by (auto simp: conformity_level_is_valid_def conformity_category_def)

lemma find_object_index_nth:
  assumes "device_id_wf st" "configured st" "k < object_count st"
    "object_id_matches_category (object_id (objects st ! k)) category"
  shows "find_object_index st (object_id (objects st ! k)) category = Some k"
proof -
  have "object_id (objects st ! j) \<noteq> object_id (objects st ! k)" if "j < k" for j
    using assms(1-3) that
    by (auto simp: device_id_wf_def sorted_wrt_iff_nth_less object_count_def dest: less_imp_neq)
  then show ?thesis
    using assms(3,4) by (auto simp: find_object_index_def find_upt_Some)
qed

definition effective_category :: "mb_device_id_state \<Rightarrow> u8 \<Rightarrow> u8" where
  "effective_category st code =
     (if code < conformity_category (conformity_level st) then code
      else conformity_category (conformity_level st))"

definition stream_response :: "mb_device_id_state \<Rightarrow> u8 \<Rightarrow> mb_device_id_entry list \<Rightarrow> nat \<Rightarrow> bytes" where
  "stream_response st code es limit =
     (let (page, rest) = take_fitting entry_size (limit - MB_DEVICE_ID_RESPONSE_HEADER_SIZE) es in
      [0x2B, 0x0E, code, conformity_level st, if rest = [] then 0 else 0xFF,
       if rest = [] then 0 else object_id (hd rest), of_nat (length page)] @ page_bytes st page)"

lemma device_id_wf_configured:
  assumes "device_id_wf st" "configured st"
  shows "length (value_bytes st) = 512"
    "list_all (entry_ok (conformity_category (conformity_level st))) (objects st)"
    "length (eligible st category k) \<le> 32"
proof -
  show "length (value_bytes st) = 512"
    "list_all (entry_ok (conformity_category (conformity_level st))) (objects st)"
    using assms by (simp_all add: device_id_wf_def)
  have "length (eligible st category k) \<le> length (objects st)"
    unfolding eligible_def by (rule order_trans [OF length_filter_le]) simp
  then show "length (eligible st category k) \<le> 32"
    using assms by (simp add: device_id_wf_def object_count_def)
qed

text \<open>A stream request that starts at an eligible object, with room for any object.\<close>

lemma device_id_request_at:
  assumes wf: "device_id_wf st" "configured st" and code: "code = 1 \<or> code = 2 \<or> code = 3"
    and k: "k < object_count st"
    and m: "object_id_matches_category (object_id (objects st ! k)) (effective_category st code)"
    and cap: "253 \<le> cap"
  shows "mb_device_id_process_request st code (object_id (objects st ! k)) cap =
    Inr (stream_response st code (eligible st (effective_category st code) k) 253)"
proof -
  let ?es = "eligible st (effective_category st code) k"
  note wf' = device_id_wf_configured [OF wf]
  obtain page rest where tf: "take_fitting entry_size 246 ?es = (page, rest)" by fastforce
  have "entry_ok (conformity_category (conformity_level st)) (objects st ! k)"
    using wf'(2) k by (simp add: list_all_length object_count_def)
  then have "page \<noteq> []"
    using k m by (intro take_fitting_progress [OF tf])
      (auto simp: eligible_step entry_ok_def entry_size_def)
  with tf have "device_id_stream st (effective_category st code) 253 k [] 0 =
     Inr (page_bytes st page, if rest = [] then 0 else 0xFF,
          if rest = [] then 0 else object_id (hd rest), of_nat (length page))"
    using device_id_stream_spec [OF wf'(2,1), of 0 "effective_category st code" k 253 "[]"]
      wf'(3) [of "effective_category st code" k]
    by (simp add: stream_spec_def)
  moreover have "min cap 253 = 253" using cap by simp
  ultimately show ?thesis
    using code k wf(2) find_object_index_nth [OF wf k m] tf
    by (auto simp: mb_device_id_process_request_def effective_category_def stream_response_def Let_def)
qed

lemma eligible_suffix:
  "suffix (e # rest) (eligible st category k) \<Longrightarrow>
   \<exists>j. k \<le> j \<and> j < object_count st \<and> objects st ! j = e \<and> eligible st category j = e # rest \<and>
       object_id_matches_category (object_id e) category"
proof (induction "object_count st - k" arbitrary: k)
  case 0
  then show ?case by (simp add: eligible_end)
next
  case (Suc d)
  then have k: "k < object_count st" by simp
  show ?case
  proof (cases "eligible st category k = e # rest \<and> objects st ! k = e \<and>
      object_id_matches_category (object_id e) category")
    case True
    with k show ?thesis by auto
  next
    case False
    have "suffix (e # rest) (eligible st category (Suc k))"
      using Suc.prems False by (auto simp: eligible_step [OF k] suffix_Cons split: if_splits)
    moreover have "d = object_count st - Suc k" using Suc.hyps(2) by simp
    ultimately obtain j where
      "Suc k \<le> j" "j < object_count st" "objects st ! j = e" "eligible st category j = e # rest"
      "object_id_matches_category (object_id e) category" using Suc.hyps(1) by blast
    then show ?thesis by (intro exI [of _ j]) auto
  qed
qed

text \<open>
  A client that reads a whole category: it asks for the first object, then for the Next
  Object ID of each response until More Follows is zero, and concatenates the objects.
\<close>

fun device_id_walk :: "nat \<Rightarrow> mb_device_id_state \<Rightarrow> u8 \<Rightarrow> u8 \<Rightarrow> nat \<Rightarrow> bytes option" where
  "device_id_walk 0 st code oid cap = None"
| "device_id_walk (Suc n) st code oid cap =
     (case mb_device_id_process_request st code oid cap of
        Inl _ \<Rightarrow> None
      | Inr rsp \<Rightarrow>
          if rsp ! 4 = 0 then Some (drop 7 rsp)
          else map_option (\<lambda>tl. drop 7 rsp @ tl) (device_id_walk n st code (rsp ! 5) cap))"

lemma device_id_walk_from:
  assumes wf: "device_id_wf st" "configured st" and code: "code = 1 \<or> code = 2 \<or> code = 3"
    and cap: "253 \<le> cap"
    and "k < object_count st"
    "object_id_matches_category (object_id (objects st ! k)) (effective_category st code)"
    "length (eligible st (effective_category st code) k) \<le> n"
  shows "device_id_walk n st code (object_id (objects st ! k)) cap =
    Some (page_bytes st (eligible st (effective_category st code) k))"
  using assms(5-7)
proof (induction n arbitrary: k)
  case 0
  then show ?case by (simp add: eligible_step)
next
  case (Suc n)
  let ?c = "effective_category st code"
  let ?es = "eligible st ?c k"
  obtain page rest where tf: "take_fitting entry_size 246 ?es = (page, rest)" by fastforce
  note split = take_fitting_append [OF tf]
  have "entry_ok (conformity_category (conformity_level st)) (objects st ! k)"
    using device_id_wf_configured(2) [OF wf] Suc.prems(1) by (simp add: list_all_length object_count_def)
  then have page: "page \<noteq> []"
    using Suc.prems by (intro take_fitting_progress [OF tf])
      (auto simp: eligible_step entry_ok_def entry_size_def)
  note rsp = device_id_request_at [OF wf code Suc.prems(1,2) cap]
  show ?case
  proof (cases rest)
    case Nil
    then show ?thesis using tf split by (simp add: rsp stream_response_def)
  next
    case (Cons e tl)
    have "suffix (e # tl) ?es" using split Cons by (simp add: suffix_def)
    then obtain j where j: "j < object_count st" "objects st ! j = e"
      "eligible st ?c j = e # tl" "object_id_matches_category (object_id e) ?c"
      using eligible_suffix by blast
    have "length (eligible st ?c j) \<le> n"
      using Suc.prems(3) page split Cons j(3) by (cases page) auto
    with j Suc.IH [of j] have "device_id_walk n st code (object_id e) cap =
        Some (page_bytes st (e # tl))" by simp
    then show ?thesis using tf Cons split
      by (simp add: rsp stream_response_def page_bytes_def)
  qed
qed

text \<open>
  C10. Reading a category page by page is complete: on every configured table, a client that
  starts at object 0 and follows Next Object ID ends after at most 32 requests and has
  received every object of the requested category (capped by the conformity level) exactly
  once, in order, with its identifier, length and value.
\<close>

theorem device_id_pages_complete:
  assumes "device_id_wf st" "configured st" "code = 1 \<or> code = 2 \<or> code = 3" "253 \<le> cap"
  shows "device_id_walk 32 st code 0 cap =
    Some (concat (map (append_device_id_object st)
      (filter (\<lambda>e. object_id_matches_category (object_id e) (effective_category st code))
        (objects st))))"
proof -
  have "object_count st \<ge> 3" "map object_id (take 3 (objects st)) = [0, 1, 2]"
    using assms(1,2) by (simp_all add: device_id_wf_def)
  then have first: "object_id (objects st ! 0) = 0" "0 < object_count st"
    by (cases "objects st", auto simp: object_count_def)
  have "conformity_level_is_valid (conformity_level st)"
    using assms(1,2) by (simp add: device_id_wf_def)
  then have "object_id_matches_category 0 (effective_category st code)"
    using assms(3) conformity_category_cases [of "conformity_level st"]
    by (auto simp: effective_category_def object_id_matches_category_def object_id_is_defined_def)
  with device_id_walk_from [OF assms first(2)] first(1)
    device_id_wf_configured(3) [OF assms(1,2), of "effective_category st code" 0]
  show ?thesis by (simp add: eligible_def page_bytes_def)
qed

definition demo_device_objects :: "mb_device_id_object list" where
  "demo_device_objects =
     [\<lparr>obj_id = 0, obj_value = Some [0x41, 0x42], obj_value_length = 2\<rparr>,
      \<lparr>obj_id = 1, obj_value = Some [0x43], obj_value_length = 1\<rparr>,
      \<lparr>obj_id = 2, obj_value = None, obj_value_length = 0\<rparr>,
      \<lparr>obj_id = 0x80, obj_value = Some [0x44], obj_value_length = 1\<rparr>]"

definition demo_device_id :: mb_device_id_state where
  "demo_device_id =
     snd (mb_device_id_configure 0x83 (Some demo_device_objects) clear_device_id_unlocked)"

lemma demo_device_id_eq:
  "mb_device_id_configure 0x83 (Some demo_device_objects) clear_device_id_unlocked =
     (Inr (), demo_device_id)"
  by (simp add: demo_device_id_def mb_device_id_configure_def demo_device_objects_def
      conformity_level_is_valid_def device_id_check.simps configuration_object_is_allowed_def
      object_id_is_defined_def conformity_category_def Let_def split: prod.splits)

lemma demo_device_readable: "\<forall>ob \<in> set demo_device_objects. obj_readable ob"
  by (simp add: demo_device_objects_def obj_readable_def)

theorem device_id_configure_stores_witness:
  "configured demo_device_id \<and> device_id_wf demo_device_id \<and>
   conformity_level demo_device_id = 0x83 \<and>
   map (\<lambda>e. (object_id e, entry_value demo_device_id e)) (objects demo_device_id) =
     [(0, [0x41, 0x42]), (1, [0x43]), (2, []), (0x80, [0x44])]"
  using device_id_configure_stores [OF demo_device_id_eq demo_device_readable]
  by (simp add: demo_device_objects_def obj_bytes_def)

lemma demo_device_id_state:
  "demo_device_id = \<lparr>configured = True, conformity_level = 0x83,
     objects = [\<lparr>object_id = 0, value_length = 2, value_offset = 0\<rparr>,
       \<lparr>object_id = 1, value_length = 1, value_offset = 2\<rparr>,
       \<lparr>object_id = 2, value_length = 0, value_offset = 3\<rparr>,
       \<lparr>object_id = 0x80, value_length = 1, value_offset = 3\<rparr>],
     value_bytes = [0x41, 0x42, 0x43, 0x44] @ replicate 508 0\<rparr>"
  by (simp add: demo_device_id_def mb_device_id_configure_def demo_device_objects_def
      conformity_level_is_valid_def device_id_check.simps configuration_object_is_allowed_def
      object_id_is_defined_def conformity_category_def Let_def clear_device_id_unlocked_def
      memcpy_at_def)

lemma demo_device_id_wf: "device_id_wf demo_device_id"
  by (simp add: demo_device_id_state device_id_wf_def object_count_def entry_ok_def
      conformity_level_is_valid_def configuration_object_is_allowed_def object_id_is_defined_def
      conformity_category_def)

theorem device_id_pages_complete_witness:
  "device_id_walk 32 demo_device_id 1 0 253 =
     Some [0, 2, 0x41, 0x42, 1, 1, 0x43, 2, 0] \<and>
   device_id_walk 32 demo_device_id 3 0 253 =
     Some [0, 2, 0x41, 0x42, 1, 1, 0x43, 2, 0, 0x80, 1, 0x44]"
proof -
  have c: "configured demo_device_id" by (simp add: demo_device_id_state)
  show ?thesis
    using device_id_pages_complete [OF demo_device_id_wf c, of 1 253]
      device_id_pages_complete [OF demo_device_id_wf c, of 3 253]
    by (simp add: demo_device_id_state effective_category_def conformity_category_def
        object_id_matches_category_def object_id_is_defined_def append_device_id_object_def)
qed

section \<open>Response size\<close>

lemma sum_entry_sizes:
  "length (value_bytes st) = 512 \<Longrightarrow> list_all (entry_ok c) es \<Longrightarrow>
   length (page_bytes st es) = sum_list (map entry_size es)"
  by (induction es) (auto simp: page_bytes_def append_device_id_object_length)

lemma device_id_response_length:
  assumes wf: "device_id_wf st" and rsp: "mb_device_id_process_request st code oid cap = Inr rsp"
  shows "7 \<le> length rsp \<and> length rsp \<le> min cap 253"
proof -
  from rsp have conf: "configured st"
    by (auto simp: mb_device_id_process_request_def Let_def split: if_splits)
  note wf' = device_id_wf_configured [OF wf conf]
  let ?limit = "min cap 253"
  show ?thesis
  proof (cases "code = MB_DEVICE_ID_READ_SPECIFIC")
    case True
    with rsp obtain k where k: "find_object_index st oid
        (conformity_category (conformity_level st)) = Some k"
      "9 + unat (value_length (objects st ! k)) \<le> ?limit"
      "length rsp = 7 + length (append_device_id_object st (objects st ! k))"
      by (auto simp: mb_device_id_process_request_def Let_def not_less split: if_splits option.splits)
    have "entry_ok (conformity_category (conformity_level st)) (objects st ! k)"
      using k(1) wf'(2)
      by (simp add: find_object_index_def find_upt_Some list_all_length object_count_def)
    then show ?thesis
      using k by (simp add: append_device_id_object_length [OF wf'(1)] entry_size_def)
  next
    case False
    with rsp obtain start acc mf nid cnt where s: "7 \<le> ?limit"
      "device_id_stream st (effective_category st code) ?limit start [] 0 = Inr (acc, mf, nid, cnt)"
      "length rsp = 7 + length acc"
      unfolding mb_device_id_process_request_def Let_def effective_category_def [symmetric]
      by (simp add: not_less split: if_splits sum.splits prod.splits) auto
    let ?es = "eligible st (effective_category st code) start"
    obtain page rest where tf: "take_fitting entry_size (?limit - 7) ?es = (page, rest)" by fastforce
    have "acc = page_bytes st page"
      using s(2) device_id_stream_spec [OF wf'(2,1), of 0 "effective_category st code" start ?limit "[]"]
        wf'(3) [of "effective_category st code" start] tf
      by (auto simp: stream_spec_def split: if_splits)
    moreover have "list_all (entry_ok (conformity_category (conformity_level st))) page"
    proof -
      have "set page \<subseteq> set (eligible st (effective_category st code) start)"
        using take_fitting_append [OF tf] by simp
      also have "\<dots> \<subseteq> set (objects st)"
        by (auto simp: eligible_def dest: in_set_dropD)
      finally show ?thesis using wf'(2) by (auto simp: list_all_iff)
    qed
    ultimately show ?thesis
      using s(1,3) take_fitting_size [OF tf] sum_entry_sizes [OF wf'(1)]
      by (auto simp: min_def split: if_splits)
  qed
qed

end
