(* ===== verification/Mei.thy ===== *)
theory Mei
  imports Device_Id
begin

text \<open>
  The registry of application handlers for FC43 Encapsulated Interface Transport and the
  FC43 dispatcher of modbus.c. The slot array has \<open>MB_MEI_MAX_HANDLERS\<close> elements (8 by
  default): here its length. A handler pointer is an identifier, \<open>None\<close> for NULL; what
  the application code behind it does is the parameter \<open>call\<close> of the dispatcher, which
  maps handler, context, MEI type, request data and response capacity to the returned
  code, the claimed response length and the contents of the response buffer. The source
  calls it without the lock, so that a handler may call the library; such handlers are not
  modelled.
\<close>

abbreviation (input) MB_MEI_TYPE_CANOPEN_GENERAL_REFERENCE :: u8 where
  "MB_MEI_TYPE_CANOPEN_GENERAL_REFERENCE \<equiv> 0x0D"
abbreviation (input) MB_MEI_TYPE_READ_DEVICE_IDENTIFICATION :: u8 where
  "MB_MEI_TYPE_READ_DEVICE_IDENTIFICATION \<equiv> 0x0E"
abbreviation (input) MB_MEI_MAX_DATA_LENGTH :: nat where "MB_MEI_MAX_DATA_LENGTH \<equiv> 251"

record mb_mei_entry =
  in_use :: bool
  mei_type :: u8
  handler :: "nat option"
  handler_context :: nat

datatype mei_error = MB_MEI_ERROR_ARGUMENT | MB_MEI_ERROR_TYPE | MB_MEI_ERROR_CAPACITY
| MB_MEI_ERROR_NOT_FOUND

type_synonym mb_mei_state = "mb_mei_entry list"
type_synonym mei_call = "nat \<Rightarrow> nat \<Rightarrow> u8 \<Rightarrow> bytes \<Rightarrow> nat \<Rightarrow> u8 \<times> nat \<times> (nat \<Rightarrow> u8)"

definition empty_mei_entry :: mb_mei_entry where
  "empty_mei_entry = \<lparr>in_use = False, mei_type = 0, handler = None, handler_context = 0\<rparr>"

definition clear_mei_handlers_unlocked :: "mb_mei_state \<Rightarrow> mb_mei_state" where
  "clear_mei_handlers_unlocked hs = replicate (length hs) empty_mei_entry"

definition mei_exception_is_valid :: "u8 \<Rightarrow> bool" where
  "mei_exception_is_valid c \<longleftrightarrow> (c \<ge> 0x01 \<and> c \<le> 0x08) \<or> c = 0x0A \<or> c = 0x0B"

definition mei_type_is_application_configurable :: "u8 \<Rightarrow> bool" where
  "mei_type_is_application_configurable t \<longleftrightarrow>
     t \<noteq> MB_MEI_TYPE_CANOPEN_GENERAL_REFERENCE \<and> t \<noteq> MB_MEI_TYPE_READ_DEVICE_IDENTIFICATION"

text \<open>
  The search loop of the registration: \<open>Inl\<close> is the slot that already holds the type,
  \<open>Inr\<close> the first free slot, if there is one.
\<close>

fun mei_slot_scan :: "u8 \<Rightarrow> mb_mei_entry list \<Rightarrow> nat \<Rightarrow> nat option \<Rightarrow> nat + nat option" where
  "mei_slot_scan t [] i free_index = Inr free_index"
| "mei_slot_scan t (e # es) i free_index =
     (if in_use e then
        if mei_type e = t then Inl i else mei_slot_scan t es (Suc i) free_index
      else mei_slot_scan t es (Suc i) (if free_index = None then Some i else free_index))"

definition mb_mei_register_handler ::
  "u8 \<Rightarrow> nat option \<Rightarrow> nat \<Rightarrow> mb_mei_state \<Rightarrow> (mei_error + unit) \<times> mb_mei_state" where
  "mb_mei_register_handler t h ctx hs =
     (if h = None then (Inl MB_MEI_ERROR_ARGUMENT, hs)
      else if \<not> mei_type_is_application_configurable t then (Inl MB_MEI_ERROR_TYPE, hs)
      else case mei_slot_scan t hs 0 None of
        Inl i \<Rightarrow> (Inr (), hs[i := (hs ! i)\<lparr>handler := h, handler_context := ctx\<rparr>])
      | Inr None \<Rightarrow> (Inl MB_MEI_ERROR_CAPACITY, hs)
      | Inr (Some f) \<Rightarrow>
          (Inr (), hs[f := \<lparr>in_use = True, mei_type = t, handler = h, handler_context = ctx\<rparr>]))"

definition slot_holds :: "u8 \<Rightarrow> mb_mei_entry \<Rightarrow> bool" where
  "slot_holds t e \<longleftrightarrow> in_use e \<and> mei_type e = t"

definition mb_mei_unregister_handler ::
  "u8 \<Rightarrow> mb_mei_state \<Rightarrow> (mei_error + unit) \<times> mb_mei_state" where
  "mb_mei_unregister_handler t hs =
     (if \<not> mei_type_is_application_configurable t then (Inl MB_MEI_ERROR_TYPE, hs)
      else case find (\<lambda>i. slot_holds t (hs ! i)) [0..<length hs] of
        Some i \<Rightarrow> (Inr (), hs[i := empty_mei_entry])
      | None \<Rightarrow> (Inl MB_MEI_ERROR_NOT_FOUND, hs))"

definition mb_mei_clear_handlers :: "mb_mei_state \<Rightarrow> mb_mei_state" where
  "mb_mei_clear_handlers hs = clear_mei_handlers_unlocked hs"

definition mb_mei_is_registered :: "mb_mei_state \<Rightarrow> u8 \<Rightarrow> bool" where
  "mb_mei_is_registered hs t =
     (if \<not> mei_type_is_application_configurable t then False
      else list_ex (slot_holds t) hs)"

definition mei_find_handler :: "mb_mei_state \<Rightarrow> u8 \<Rightarrow> (nat \<times> nat) option" where
  "mei_find_handler hs t =
     (case find (slot_holds t) hs of
        None \<Rightarrow> None
      | Some e \<Rightarrow> map_option (\<lambda>h. (h, handler_context e)) (handler e))"

definition mb_mei_process_request ::
  "mei_call \<Rightarrow> mb_mei_state \<Rightarrow> mb_device_id_state \<Rightarrow> bytes \<Rightarrow> nat \<Rightarrow> u8 + bytes" where
  "mb_mei_process_request call hs dev pdu cap =
     (if length pdu < 2 \<or> length pdu > MODBUS_PDU_MAX_SIZE \<or> pdu ! 0 \<noteq> 0x2B
      then Inl MB_EX_ILLEGAL_DATA_VALUE
      else let t = pdu ! 1 in
        if t = MB_MEI_TYPE_READ_DEVICE_IDENTIFICATION then
          if length pdu \<noteq> 4 then Inl MB_EX_ILLEGAL_DATA_VALUE
          else mb_device_id_process_request dev (pdu ! 2) (pdu ! 3) cap
        else if t = MB_MEI_TYPE_CANOPEN_GENERAL_REFERENCE then Inl MB_EX_ILLEGAL_DATA_VALUE
        else case mei_find_handler hs t of
          None \<Rightarrow> Inl MB_EX_ILLEGAL_DATA_VALUE
        | Some (h, ctx) \<Rightarrow>
            let limit = (if cap < MODBUS_PDU_MAX_SIZE then cap else MODBUS_PDU_MAX_SIZE) in
            if limit < 2 then Inl MB_EX_SERVER_FAILURE
            else
              let (code, n, buf) = call h ctx t (drop 2 pdu) (limit - 2) in
              if code \<noteq> 0 then
                Inl (if mei_exception_is_valid code then code else MB_EX_SERVER_FAILURE)
              else if n > limit - 2 \<or> n > MB_MEI_MAX_DATA_LENGTH then Inl MB_EX_SERVER_FAILURE
              else Inr ([0x2B, t] @ map buf [0..<n]))"

section \<open>The registry is a bounded finite map\<close>

text \<open>The contract of a registry: a partial map with a capacity, whose failures change nothing.\<close>

locale handler_registry =
  fixes lookup :: "'r \<Rightarrow> u8 \<Rightarrow> ('h \<times> 'c) option"
    and register :: "u8 \<Rightarrow> 'h option \<Rightarrow> 'c \<Rightarrow> 'r \<Rightarrow> ('e + unit) \<times> 'r"
    and unregister :: "u8 \<Rightarrow> 'r \<Rightarrow> ('e + unit) \<times> 'r"
    and inv :: "'r \<Rightarrow> bool"
  assumes lookup_register: "inv r \<Longrightarrow> register t (Some h) c r = (Inr u, r') \<Longrightarrow>
      lookup r' = (lookup r)(t \<mapsto> (h, c))"
    and register_error: "register t ho c r = (Inl e, r') \<Longrightarrow> r' = r"
    and register_null: "\<exists>e. register t None c r = (Inl e, r)"
    and lookup_unregister: "inv r \<Longrightarrow> unregister t r = (Inr u, r') \<Longrightarrow>
      lookup r' = (lookup r)(t := None)"
    and unregister_error: "unregister t r = (Inl e, r') \<Longrightarrow> r' = r \<and> (inv r \<longrightarrow> lookup r t = None)"
    and inv_register: "inv r \<Longrightarrow> inv (snd (register t ho c r))"
    and inv_unregister: "inv r \<Longrightarrow> inv (snd (unregister t r))"
begin

text \<open>A registration overrides an earlier one of the same type and touches no other type.\<close>

lemma lookup_after_register:
  assumes "inv r" "register t ho c r = (res, r')"
  shows "lookup r' = (case (res, ho) of (Inr _, Some h) \<Rightarrow> (lookup r)(t \<mapsto> (h, c)) | _ \<Rightarrow> lookup r)"
  using assms lookup_register [of r t _ c] register_error [of t ho c r] register_null [of t c r]
  by (cases res; cases ho) auto

lemma lookup_after_unregister:
  assumes "inv r" "unregister t r = (res, r')"
  shows "lookup r' = (lookup r)(t := None)"
  using assms lookup_unregister [of r t] unregister_error [of t r]
  by (cases res) (auto simp: fun_upd_idem)

end

text \<open>
  The invariant of the slot array: no two slots hold the same type, no slot holds a
  reserved type, and every slot in use has a handler.
\<close>

definition mei_wf :: "mb_mei_state \<Rightarrow> bool" where
  "mei_wf hs \<longleftrightarrow>
     (\<forall>i < length hs. in_use (hs ! i) \<longrightarrow>
        handler (hs ! i) \<noteq> None \<and> mei_type_is_application_configurable (mei_type (hs ! i)) \<and>
        (\<forall>j < length hs. in_use (hs ! j) \<and> mei_type (hs ! j) = mei_type (hs ! i) \<longrightarrow> j = i))"

lemma mei_wf_clear: "mei_wf (clear_mei_handlers_unlocked hs)"
  by (simp add: mei_wf_def clear_mei_handlers_unlocked_def empty_mei_entry_def)

lemma mei_slot_scan_Inl:
  "mei_slot_scan t es i fr = Inl k \<Longrightarrow> i \<le> k \<and> k < i + length es \<and> slot_holds t (es ! (k - i))"
proof (induction t es i fr rule: mei_slot_scan.induct)
  case (2 t e es i fr)
  show ?case
  proof (cases "slot_holds t e")
    case True
    with "2.prems" show ?thesis by (simp add: slot_holds_def)
  next
    case False
    then have "Suc i \<le> k \<and> k < Suc i + length es \<and> slot_holds t (es ! (k - Suc i))"
      using 2 by (auto simp: slot_holds_def split: if_splits)
    then show ?thesis by (auto simp: nth_Cons')
  qed
qed simp

lemma mei_slot_scan_Inr: "mei_slot_scan t es i fr = Inr r \<Longrightarrow> e \<in> set es \<Longrightarrow> \<not> slot_holds t e"
  by (induction t es i fr rule: mei_slot_scan.induct)
    (auto simp: slot_holds_def split: if_splits)

lemma mei_slot_scan_free:
  "mei_slot_scan t es i fr = Inr (Some k) \<Longrightarrow>
   fr = Some k \<or> (i \<le> k \<and> k < i + length es \<and> \<not> in_use (es ! (k - i)))"
proof (induction t es i fr rule: mei_slot_scan.induct)
  case (2 t e es i fr)
  show ?case
  proof (cases "in_use e")
    case True
    then have "fr = Some k \<or> (Suc i \<le> k \<and> k < Suc i + length es \<and> \<not> in_use (es ! (k - Suc i)))"
      using 2 by (auto split: if_splits)
    then show ?thesis by (auto simp: nth_Cons')
  next
    case False
    then have "(if fr = None then Some i else fr) = Some k \<or>
        (Suc i \<le> k \<and> k < Suc i + length es \<and> \<not> in_use (es ! (k - Suc i)))"
      using "2.IH"(2) "2.prems" by simp
    with False show ?thesis by (auto simp: nth_Cons' split: if_splits)
  qed
qed simp

lemma find_list_update:
  "i < length xs \<Longrightarrow> \<not> P (xs ! i) \<Longrightarrow> \<not> P x \<Longrightarrow> find P (xs[i := x]) = find P xs"
  by (induction xs arbitrary: i) (auto simp: nth_Cons' split: nat.splits)

lemma find_slot:
  assumes "mei_wf hs" "i < length hs" "slot_holds t (hs ! i)"
  shows "find (slot_holds t) hs = Some (hs ! i)"
proof (cases "find (slot_holds t) hs")
  case None
  with assms show ?thesis by (auto simp: find_None_iff)
next
  case (Some e)
  then obtain j where "j < length hs" "slot_holds t (hs ! j)" "e = hs ! j"
    by (auto simp: find_Some_iff)
  with assms Some show ?thesis by (auto simp: mei_wf_def slot_holds_def)
qed

lemma lookup_store:
  assumes "mei_wf (hs[i := e])" "i < length hs" "in_use e" "mei_type e = t" "handler e = Some h"
    "in_use (hs ! i) \<longrightarrow> mei_type (hs ! i) = t"
  shows "mei_find_handler (hs[i := e]) = (mei_find_handler hs)(t \<mapsto> (h, handler_context e))"
proof
  fix t'
  show "mei_find_handler (hs[i := e]) t' =
      ((mei_find_handler hs)(t \<mapsto> (h, handler_context e))) t'"
  proof (cases "t' = t")
    case True
    then show ?thesis
      using find_slot [OF assms(1), of i t] assms(2-5)
      by (simp add: mei_find_handler_def slot_holds_def)
  next
    case False
    then have "find (slot_holds t') (hs[i := e]) = find (slot_holds t') hs"
      using assms by (intro find_list_update) (auto simp: slot_holds_def)
    with False show ?thesis by (simp add: mei_find_handler_def)
  qed
qed

lemma lookup_erase:
  assumes "mei_wf hs" "i < length hs" "slot_holds t (hs ! i)"
  shows "mei_find_handler (hs[i := empty_mei_entry]) = (mei_find_handler hs)(t := None)"
proof
  fix t'
  have empty: "\<not> slot_holds t'' empty_mei_entry" for t''
    by (simp add: slot_holds_def empty_mei_entry_def)
  show "mei_find_handler (hs[i := empty_mei_entry]) t' = ((mei_find_handler hs)(t := None)) t'"
  proof (cases "t' = t")
    case True
    have "\<not> slot_holds t e" if "e \<in> set (hs[i := empty_mei_entry])" for e
      using that assms empty
      by (auto simp: in_set_conv_nth nth_list_update mei_wf_def slot_holds_def split: if_splits)
    then show ?thesis using True by (auto simp: mei_find_handler_def find_None_iff split: option.splits
          dest!: find_Some_iff [THEN iffD1])
  next
    case False
    then have "find (slot_holds t') (hs[i := empty_mei_entry]) = find (slot_holds t') hs"
      using assms empty by (intro find_list_update) (auto simp: slot_holds_def)
    with False show ?thesis by (simp add: mei_find_handler_def)
  qed
qed

lemma mei_wf_store:
  assumes "mei_wf hs" "i < length hs" "in_use e" "handler e \<noteq> None"
    "mei_type_is_application_configurable (mei_type e)"
    "\<And>j. j < length hs \<Longrightarrow> j \<noteq> i \<Longrightarrow> \<not> slot_holds (mei_type e) (hs ! j)"
  shows "mei_wf (hs[i := e])"
proof -
  have "\<forall>j. j < length hs \<and> i \<noteq> j \<and> in_use (hs ! j) \<longrightarrow> mei_type e \<noteq> mei_type (hs ! j)"
    using assms(6) unfolding slot_holds_def by metis
  note other = this
  show ?thesis
    unfolding mei_wf_def length_list_update
  proof (intro allI impI)
    fix k assume k: "k < length hs" "in_use (hs[i := e] ! k)"
    show "handler (hs[i := e] ! k) \<noteq> None \<and>
      mei_type_is_application_configurable (mei_type (hs[i := e] ! k)) \<and>
      (\<forall>j < length hs. in_use (hs[i := e] ! j) \<and> mei_type (hs[i := e] ! j) = mei_type (hs[i := e] ! k)
        \<longrightarrow> j = k)"
    proof (cases "k = i")
      case True
      have "j = i" if "j < length hs" "in_use (hs[i := e] ! j)"
        "mei_type (hs[i := e] ! j) = mei_type e" for j
        using that other [rule_format, of j] by (cases "i = j") auto
      then show ?thesis using True assms(2,4,5) by simp
    next
      case False
      then show ?thesis
        using assms(1) [unfolded mei_wf_def, rule_format, of k] k other [rule_format, of k] assms(2)
        by (auto simp: nth_list_update)
    qed
  qed
qed

lemma mei_wf_erase: "mei_wf hs \<Longrightarrow> mei_wf (hs[i := empty_mei_entry])"
  by (cases "i < length hs") (auto simp: mei_wf_def nth_list_update empty_mei_entry_def)

lemma mb_mei_register_cases:
  assumes "mb_mei_register_handler t ho c hs = (res, hs')"
  obtains (error) e where "res = Inl e" "hs' = hs"
  | (replace) h i where "ho = Some h" "res = Inr ()" "i < length hs" "slot_holds t (hs ! i)"
      "mei_type_is_application_configurable t"
      "hs' = hs[i := (hs ! i)\<lparr>handler := ho, handler_context := c\<rparr>]"
  | (insert) h i where "ho = Some h" "res = Inr ()" "i < length hs" "\<not> in_use (hs ! i)"
      "mei_type_is_application_configurable t" "\<forall>e \<in> set hs. \<not> slot_holds t e"
      "hs' = hs[i := \<lparr>in_use = True, mei_type = t, handler = ho, handler_context = c\<rparr>]"
proof (cases "ho = None \<or> \<not> mei_type_is_application_configurable t")
  case True
  then show ?thesis using assms error by (auto simp: mb_mei_register_handler_def split: if_splits)
next
  case False
  then obtain h where h: "ho = Some h" by auto
  show ?thesis
  proof (cases "mei_slot_scan t hs 0 None")
    case (Inl i)
    show ?thesis
      using assms False h mei_slot_scan_Inl [OF Inl]
      by (intro replace [of h i]) (auto simp: mb_mei_register_handler_def Inl)
  next
    case (Inr fo)
    show ?thesis
    proof (cases fo)
      case None
      show ?thesis
        using assms False by (intro error) (auto simp: mb_mei_register_handler_def Inr None)
    next
      case (Some i)
      show ?thesis
        using assms False h mei_slot_scan_free [of t hs 0 None i] mei_slot_scan_Inr [OF Inr]
        by (intro insert [of h i]) (auto simp: mb_mei_register_handler_def Inr Some)
    qed
  qed
qed

lemma mei_wf_register:
  assumes "mei_wf hs" "mb_mei_register_handler t ho c hs = (res, hs')"
  shows "mei_wf hs'"
  using assms(2)
proof (cases rule: mb_mei_register_cases)
  case error
  then show ?thesis using assms(1) by simp
next
  case (replace h i)
  have "\<not> slot_holds t (hs ! j)" if "j < length hs" "j \<noteq> i" for j
    using assms(1) replace(3,4) that by (auto simp: slot_holds_def mei_wf_def)
  then show ?thesis
    using assms(1) replace by (simp, intro mei_wf_store) (auto simp: slot_holds_def)
next
  case (insert h i)
  then show ?thesis using assms(1) by (auto intro!: mei_wf_store)
qed

interpretation mei: handler_registry mei_find_handler mb_mei_register_handler
  mb_mei_unregister_handler mei_wf
proof unfold_locales
  fix hs t h c u hs'
  assume wf: "mei_wf hs" and reg: "mb_mei_register_handler t (Some h) c hs = (Inr u, hs')"
  note wf' = mei_wf_register [OF wf reg]
  from reg show "mei_find_handler hs' = (mei_find_handler hs)(t \<mapsto> (h, c))"
  proof (cases rule: mb_mei_register_cases)
    case (replace h' i)
    then show ?thesis
      using lookup_store [of hs i "(hs ! i)\<lparr>handler := Some h, handler_context := c\<rparr>" t h] wf'
      by (auto simp: slot_holds_def)
  next
    case (insert h' i)
    then show ?thesis
      using lookup_store [of hs i "\<lparr>in_use = True, mei_type = t, handler = Some h, handler_context = c\<rparr>" t h]
        wf' by simp
  qed simp
next
  fix hs t u hs'
  assume "mei_wf hs" "mb_mei_unregister_handler t hs = (Inr u, hs')"
  then show "mei_find_handler hs' = (mei_find_handler hs)(t := None)"
    using lookup_erase [of hs _ t]
    by (auto simp: mb_mei_unregister_handler_def find_upt_Some split: if_splits option.splits)
next
  fix hs t e hs'
  assume un: "mb_mei_unregister_handler t hs = (Inl e, hs')"
  have "mei_find_handler hs t = None" if "mei_wf hs"
  proof -
    have "\<not> slot_holds t x" if "x \<in> set hs" for x
    proof (cases "mei_type_is_application_configurable t")
      case True
      with un that show ?thesis
        by (auto simp: mb_mei_unregister_handler_def find_upt_None in_set_conv_nth
            split: if_splits option.splits)
    next
      case False
      with \<open>mei_wf hs\<close> that show ?thesis by (auto simp: mei_wf_def slot_holds_def in_set_conv_nth)
    qed
    then show ?thesis by (auto simp: mei_find_handler_def find_None_iff split: option.splits
          dest!: find_Some_iff [THEN iffD1])
  qed
  with un show "hs' = hs \<and> (mei_wf hs \<longrightarrow> mei_find_handler hs t = None)"
    by (auto simp: mb_mei_unregister_handler_def split: if_splits option.splits)
next
  show "mb_mei_register_handler t ho c hs = (Inl e, hs') \<Longrightarrow> hs' = hs" for t ho c hs e hs'
    by (auto elim: mb_mei_register_cases)
  show "\<exists>e. mb_mei_register_handler t None c hs = (Inl e, hs)" for t c hs
    by (simp add: mb_mei_register_handler_def)
  show "mei_wf (snd (mb_mei_register_handler t ho c hs))" if "mei_wf hs" for hs t ho c
    using mei_wf_register [OF that] by (metis prod.collapse)
  show "mei_wf (snd (mb_mei_unregister_handler t hs))" if "mei_wf hs" for hs t
    using that mei_wf_erase by (auto simp: mb_mei_unregister_handler_def split: option.splits)
qed

section \<open>Refinement\<close>

datatype mei_op = Mei_Register u8 "nat option" nat | Mei_Unregister u8

fun mei_apply :: "mei_op \<Rightarrow> mb_mei_state \<Rightarrow> mb_mei_state" where
  "mei_apply (Mei_Register t h c) hs = snd (mb_mei_register_handler t h c hs)"
| "mei_apply (Mei_Unregister t) hs = snd (mb_mei_unregister_handler t hs)"

text \<open>The abstract registry: a finite map that holds at most \<open>n\<close> types.\<close>

fun registry_spec :: "nat \<Rightarrow> mei_op \<Rightarrow> (u8 \<rightharpoonup> nat \<times> nat) \<Rightarrow> (u8 \<rightharpoonup> nat \<times> nat)" where
  "registry_spec n (Mei_Register t ho c) m =
     (case ho of
        Some h \<Rightarrow> if mei_type_is_application_configurable t \<and> (t \<in> dom m \<or> card (dom m) < n)
                  then m(t \<mapsto> (h, c)) else m
      | None \<Rightarrow> m)"
| "registry_spec n (Mei_Unregister t) m = m(t := None)"

lemma mei_dom:
  assumes "mei_wf hs"
  shows "dom (mei_find_handler hs) = (\<lambda>i. mei_type (hs ! i)) ` {i. i < length hs \<and> in_use (hs ! i)}"
proof (intro set_eqI iffI)
  fix t assume "t \<in> dom (mei_find_handler hs)"
  then show "t \<in> (\<lambda>i. mei_type (hs ! i)) ` {i. i < length hs \<and> in_use (hs ! i)}"
    by (auto simp: mei_find_handler_def find_Some_iff slot_holds_def split: option.splits)
next
  fix t assume "t \<in> (\<lambda>i. mei_type (hs ! i)) ` {i. i < length hs \<and> in_use (hs ! i)}"
  then obtain i where "i < length hs" "in_use (hs ! i)" "slot_holds t (hs ! i)"
    by (auto simp: slot_holds_def)
  with find_slot [OF assms, of i t] assms show "t \<in> dom (mei_find_handler hs)"
    by (auto simp: mei_find_handler_def mei_wf_def)
qed

lemma mei_dom_card:
  assumes "mei_wf hs"
  shows "card (dom (mei_find_handler hs)) = card {i. i < length hs \<and> in_use (hs ! i)}"
  unfolding mei_dom [OF assms]
  using assms by (intro card_image) (auto simp: inj_on_def mei_wf_def)

lemma mei_not_full_iff:
  assumes "mei_wf hs"
  shows "card (dom (mei_find_handler hs)) < length hs \<longleftrightarrow> (\<exists>e \<in> set hs. \<not> in_use e)"
proof -
  let ?U = "{i. i < length hs \<and> in_use (hs ! i)}"
  have "card ?U \<le> length hs" using card_mono [of "{..<length hs}" ?U] by auto
  moreover have "?U = {..<length hs}" if "card ?U = length hs"
    using that by (intro card_subset_eq) auto
  then have "card ?U = length hs \<longleftrightarrow> ?U = {..<length hs}" by (metis card_lessThan)
  ultimately have "card ?U < length hs \<longleftrightarrow> ?U \<noteq> {..<length hs}" by linarith
  also have "\<dots> \<longleftrightarrow> (\<exists>i < length hs. \<not> in_use (hs ! i))" by blast
  finally show ?thesis unfolding mei_dom_card [OF assms] by (metis in_set_conv_nth)
qed

lemma mei_slot_scan_full:
  "mei_slot_scan t es i fr = Inr None \<Longrightarrow> fr = None \<and> (\<forall>e \<in> set es. in_use e)"
proof (induction t es i fr rule: mei_slot_scan.induct)
  case (2 t e es i fr)
  show ?case
  proof (cases "in_use e")
    case True
    with 2 show ?thesis by (simp split: if_splits)
  next
    case False
    with 2 show ?thesis by (cases fr) simp_all
  qed
qed simp

lemma mei_register_step:
  assumes "mei_wf hs"
  shows "mei_find_handler (snd (mb_mei_register_handler t ho c hs)) =
    registry_spec (length hs) (Mei_Register t ho c) (mei_find_handler hs)"
proof (cases "ho = None \<or> \<not> mei_type_is_application_configurable t")
  case True
  then show ?thesis by (auto simp: mb_mei_register_handler_def split: option.splits)
next
  case False
  then obtain h where h: "ho = Some h" and conf: "mei_type_is_application_configurable t" by auto
  obtain res hs' where reg: "mb_mei_register_handler t ho c hs = (res, hs')" by fastforce
  note new = mei.lookup_after_register [OF assms reg]
  have "(\<exists>u. res = Inr u) \<longleftrightarrow>
      t \<in> dom (mei_find_handler hs) \<or> card (dom (mei_find_handler hs)) < length hs"
  proof (cases "mei_slot_scan t hs 0 None")
    case (Inl i)
    then have "i < length hs" "slot_holds t (hs ! i)" using mei_slot_scan_Inl [OF Inl] by auto
    then have "t \<in> dom (mei_find_handler hs)"
      unfolding mei_dom [OF assms] by (auto simp: slot_holds_def)
    then show ?thesis using reg h conf by (auto simp: mb_mei_register_handler_def Inl)
  next
    case (Inr fo)
    then have absent: "t \<notin> dom (mei_find_handler hs)"
      unfolding mei_dom [OF assms] using mei_slot_scan_Inr [OF Inr]
      by (auto simp: slot_holds_def dest: nth_mem)
    show ?thesis
    proof (cases fo)
      case None
      then show ?thesis
        using absent mei_slot_scan_full [of t hs 0 None] Inr reg h conf mei_not_full_iff [OF assms]
        by (auto simp: mb_mei_register_handler_def)
    next
      case (Some i)
      then have "\<not> in_use (hs ! i)" "i < length hs"
        using mei_slot_scan_free [of t hs 0 None i] Inr by auto
      then show ?thesis
        using reg h conf mei_not_full_iff [OF assms] by (auto simp: mb_mei_register_handler_def Inr Some)
    qed
  qed
  then show ?thesis
    using new reg h conf by (cases res) (auto simp del: fun_upd_apply)
qed

lemma mei_apply_spec:
  assumes "mei_wf hs"
  shows "mei_find_handler (mei_apply op hs) =
      registry_spec (length hs) op (mei_find_handler hs) \<and>
    mei_wf (mei_apply op hs) \<and> length (mei_apply op hs) = length hs"
proof (cases op)
  case (Mei_Register t ho c)
  then show ?thesis
    using assms mei_register_step mei.inv_register
    by (auto simp: mb_mei_register_handler_def split: sum.splits option.splits)
next
  case (Mei_Unregister t)
  then show ?thesis
    using assms mei.lookup_after_unregister [OF assms] mei.inv_unregister [OF assms, of t]
    by (auto simp: mb_mei_unregister_handler_def split: option.splits)
qed

text \<open>
  C15. The slot array of the MEI registry refines a bounded finite map: after any sequence
  of registrations and removals, starting from the cleared array, the handler found for a
  type is the one the map holds, and the invariant of the array is kept.
\<close>

theorem mei_registry_refines:
  "mei_find_handler (fold mei_apply ops (mb_mei_clear_handlers hs)) =
     fold (registry_spec (length hs)) ops Map.empty \<and>
   mei_wf (fold mei_apply ops (mb_mei_clear_handlers hs))"
proof -
  have run: "mei_find_handler (fold mei_apply ops hs') =
      fold (registry_spec (length hs')) ops (mei_find_handler hs') \<and>
      mei_wf (fold mei_apply ops hs')" if "mei_wf hs'" for hs'
    using that
  proof (induction ops arbitrary: hs')
    case (Cons op ops)
    then show ?case using mei_apply_spec [OF Cons.prems, of op] by auto
  qed simp
  have "find (slot_holds t) (replicate n empty_mei_entry) = None" for t n
    by (simp add: find_None_iff slot_holds_def empty_mei_entry_def)
  then have "mei_find_handler (mb_mei_clear_handlers hs) = Map.empty"
    by (auto simp: mei_find_handler_def mb_mei_clear_handlers_def clear_mei_handlers_unlocked_def)
  with run [of "mb_mei_clear_handlers hs"] show ?thesis
    by (simp add: mb_mei_clear_handlers_def mei_wf_clear)
      (simp add: clear_mei_handlers_unlocked_def)
qed

lemma mei_response_length:
  assumes "device_id_wf dev" "mb_mei_process_request call hs dev pdu cap = Inr rsp"
  shows "2 \<le> length rsp \<and> length rsp \<le> min cap 253"
proof (cases "pdu ! 1 = MB_MEI_TYPE_READ_DEVICE_IDENTIFICATION")
  case True
  with assms(2) have "mb_device_id_process_request dev (pdu ! 2) (pdu ! 3) cap = Inr rsp"
    by (auto simp: mb_mei_process_request_def Let_def split: if_splits)
  then show ?thesis using device_id_response_length [OF assms(1)] by fastforce
next
  case False
  with assms(2) show ?thesis
    by (auto simp: mb_mei_process_request_def Let_def not_less
        split: if_splits option.splits prod.splits)
qed

lemma device_id_exception_code:
  "mb_device_id_process_request st code oid cap = Inl e \<Longrightarrow> 1 \<le> e \<and> e \<le> 0x0B"
proof -
  have stream: "device_id_stream st category limit k acc cnt = Inl e \<Longrightarrow> e = 4"
    for st category limit k acc cnt
    by (induction st category limit k acc cnt rule: device_id_stream.induct)
      (subst (asm) device_id_stream.simps, auto simp: Let_def split: if_splits)
  show "mb_device_id_process_request st code oid cap = Inl e \<Longrightarrow> 1 \<le> e \<and> e \<le> 0x0B"
    by (auto simp: mb_device_id_process_request_def Let_def dest: stream
        split: if_splits option.splits sum.splits prod.splits)
qed

lemma mei_exception_code:
  "mb_mei_process_request call hs dev pdu cap = Inl e \<Longrightarrow> 1 \<le> e \<and> e \<le> 0x0B"
  by (auto simp: mb_mei_process_request_def mei_exception_is_valid_def Let_def
      dest: device_id_exception_code intro: order_trans
      split: if_splits option.splits prod.splits)

end
