(* ===== verification/Pdu.thy ===== *)
theory Pdu
  imports Register_Map Fifo Mei
begin

text \<open>
  The PDU layer of modbus_protocol.c: \<open>process_pdu_function\<close> with one definition per case
  of its switch, and \<open>mb_process_pdu\<close>. The state of the server library, spread over the
  file-scope variables of modbus.c, is one record; \<open>app_memory\<close> is the application-owned
  memory that file and FIFO descriptors point into. A case returns \<open>Inl\<close> of the exception
  code (the nonzero results of the C function) or \<open>Inr\<close> of the response.
\<close>

record mb_state =
  banks :: mb_banks
  device_id_state :: mb_device_id_state
  file_record_state :: mb_file_record_state
  fifo_state :: mb_fifo_state
  mei_state :: mb_mei_state
  app_memory :: app_mem

definition mb_init :: "mb_state \<Rightarrow> mb_state" where
  "mb_init s = s\<lparr>
     banks := init_banks (banks s),
     device_id_state := clear_device_id_unlocked,
     file_record_state := mb_file_record_clear (file_record_state s),
     fifo_state := mb_fifo_clear (fifo_state s),
     mei_state := clear_mei_handlers_unlocked (mei_state s)\<rparr>"

definition range_is_valid :: "u16 \<Rightarrow> u16 \<Rightarrow> nat \<Rightarrow> bool" where
  "range_is_valid first quantity limit \<longleftrightarrow>
     quantity > 0 \<and> unat first < limit \<and> unat quantity \<le> limit - unat first"

text \<open>The bit loop of FC01 and FC02: \<open>response[2 + i / 8] |= (bit & 1) << (i % 8)\<close>.\<close>

definition pack_bits :: "(nat \<Rightarrow> u8) \<Rightarrow> nat \<Rightarrow> bytes" where
  "pack_bits value_of n =
     fold (\<lambda>i r. r[i div 8 := r ! (i div 8) OR push_bit (i mod 8) (value_of i AND 1)]) [0..<n]
       (replicate ((n + 7) div 8) 0)"

definition process_read_bits :: "mb_banks \<Rightarrow> bytes \<Rightarrow> nat \<Rightarrow> u8 + bytes" where
  "process_read_bits s pdu cap =
     (let function_code = pdu ! 0 in
      if length pdu \<noteq> 5 then Inl MB_EX_ILLEGAL_DATA_VALUE
      else
        let address = read_be16 pdu 1; quantity = read_be16 pdu 3 in
        if quantity = 0 \<or> quantity > 2000 then Inl MB_EX_ILLEGAL_DATA_VALUE
        else if \<not> range_is_valid address quantity
             (if function_code = 0x01 then MB_MAX_COILS s else MB_MAX_DISCRETE_INPUTS s)
        then Inl MB_EX_ILLEGAL_DATA_ADDRESS
        else
          let byte_count = (unat quantity + 7) div 8 in
          if cap < 2 + byte_count then Inl MB_EX_SERVER_FAILURE
          else Inr ([function_code, of_nat byte_count] @
            pack_bits (\<lambda>i. if function_code = 0x01 then mb_get_coil s (address + of_nat i)
                           else mb_get_dinput s (address + of_nat i)) (unat quantity)))"

definition process_read_registers :: "mb_banks \<Rightarrow> bytes \<Rightarrow> nat \<Rightarrow> u8 + bytes" where
  "process_read_registers s pdu cap =
     (let function_code = pdu ! 0 in
      if length pdu \<noteq> 5 then Inl MB_EX_ILLEGAL_DATA_VALUE
      else
        let address = read_be16 pdu 1; quantity = read_be16 pdu 3 in
        if quantity = 0 \<or> quantity > 125 then Inl MB_EX_ILLEGAL_DATA_VALUE
        else if \<not> range_is_valid address quantity
             (if function_code = 0x03 then MB_MAX_HREGS s else MB_MAX_IREGS s)
        then Inl MB_EX_ILLEGAL_DATA_ADDRESS
        else
          let byte_count = unat quantity * 2 in
          if cap < 2 + byte_count then Inl MB_EX_SERVER_FAILURE
          else Inr ([function_code, of_nat byte_count] @
            concat (map (\<lambda>i. write_be16
              (if function_code = 0x03 then mb_get_hreg s (address + of_nat i)
               else mb_get_ireg s (address + of_nat i))) [0..<unat quantity])))"

definition process_write_single_coil :: "mb_banks \<Rightarrow> bytes \<Rightarrow> nat \<Rightarrow> (u8 + bytes) \<times> mb_banks" where
  "process_write_single_coil s pdu cap =
     (if length pdu \<noteq> 5 then (Inl MB_EX_ILLEGAL_DATA_VALUE, s)
      else
        let address = read_be16 pdu 1; quantity = read_be16 pdu 3 in
        if \<not> range_is_valid address 1 (MB_MAX_COILS s) then (Inl MB_EX_ILLEGAL_DATA_ADDRESS, s)
        else if quantity \<noteq> 0xFF00 \<and> quantity \<noteq> 0 then (Inl MB_EX_ILLEGAL_DATA_VALUE, s)
        else if cap < 5 then (Inl MB_EX_SERVER_FAILURE, s)
        else (Inr (take 5 pdu), mb_set_coil address (if quantity = 0xFF00 then 1 else 0) s))"

definition process_write_single_register ::
  "mb_banks \<Rightarrow> bytes \<Rightarrow> nat \<Rightarrow> (u8 + bytes) \<times> mb_banks" where
  "process_write_single_register s pdu cap =
     (if length pdu \<noteq> 5 then (Inl MB_EX_ILLEGAL_DATA_VALUE, s)
      else
        let address = read_be16 pdu 1 in
        if \<not> range_is_valid address 1 (MB_MAX_HREGS s) then (Inl MB_EX_ILLEGAL_DATA_ADDRESS, s)
        else if cap < 5 then (Inl MB_EX_SERVER_FAILURE, s)
        else (Inr (take 5 pdu), mb_set_hreg address (read_be16 pdu 3) s))"

definition process_write_multiple_coils ::
  "mb_banks \<Rightarrow> bytes \<Rightarrow> nat \<Rightarrow> (u8 + bytes) \<times> mb_banks" where
  "process_write_multiple_coils s pdu cap =
     (if length pdu < 6 then (Inl MB_EX_ILLEGAL_DATA_VALUE, s)
      else
        let address = read_be16 pdu 1; quantity = read_be16 pdu 3 in
        if quantity = 0 \<or> quantity > 1968 then (Inl MB_EX_ILLEGAL_DATA_VALUE, s)
        else if \<not> range_is_valid address quantity (MB_MAX_COILS s)
        then (Inl MB_EX_ILLEGAL_DATA_ADDRESS, s)
        else
          let byte_count = (unat quantity + 7) div 8 in
          if unat (pdu ! 5) \<noteq> byte_count \<or> length pdu \<noteq> 6 + byte_count
          then (Inl MB_EX_ILLEGAL_DATA_VALUE, s)
          else if cap < 5 then (Inl MB_EX_SERVER_FAILURE, s)
          else (Inr ([pdu ! 0] @ write_be16 address @ write_be16 quantity),
                fold (\<lambda>i. mb_set_coil (address + of_nat i)
                       (drop_bit (i mod 8) (pdu ! (6 + i div 8)) AND 1)) [0..<unat quantity] s))"

definition process_write_multiple_registers ::
  "mb_banks \<Rightarrow> bytes \<Rightarrow> nat \<Rightarrow> (u8 + bytes) \<times> mb_banks" where
  "process_write_multiple_registers s pdu cap =
     (if length pdu < 6 then (Inl MB_EX_ILLEGAL_DATA_VALUE, s)
      else
        let address = read_be16 pdu 1; quantity = read_be16 pdu 3 in
        if quantity = 0 \<or> quantity > 123 then (Inl MB_EX_ILLEGAL_DATA_VALUE, s)
        else if \<not> range_is_valid address quantity (MB_MAX_HREGS s)
        then (Inl MB_EX_ILLEGAL_DATA_ADDRESS, s)
        else
          let byte_count = unat quantity * 2 in
          if unat (pdu ! 5) \<noteq> byte_count \<or> length pdu \<noteq> 6 + byte_count
          then (Inl MB_EX_ILLEGAL_DATA_VALUE, s)
          else if cap < 5 then (Inl MB_EX_SERVER_FAILURE, s)
          else (Inr ([pdu ! 0] @ write_be16 address @ write_be16 quantity),
                fold (\<lambda>i. mb_set_hreg (address + of_nat i) (read_be16 pdu (6 + 2 * i)))
                  [0..<unat quantity] s))"

definition process_mask_write_register ::
  "mb_banks \<Rightarrow> bytes \<Rightarrow> nat \<Rightarrow> (u8 + bytes) \<times> mb_banks" where
  "process_mask_write_register s pdu cap =
     (if length pdu \<noteq> 7 then (Inl MB_EX_ILLEGAL_DATA_VALUE, s)
      else
        let address = read_be16 pdu 1 in
        if \<not> range_is_valid address 1 (MB_MAX_HREGS s) then (Inl MB_EX_ILLEGAL_DATA_ADDRESS, s)
        else if cap < 7 then (Inl MB_EX_SERVER_FAILURE, s)
        else (Inr (take 7 pdu),
              snd (mb_mask_write_hreg address (read_be16 pdu 3) (read_be16 pdu 5) s)))"

definition process_read_write_registers ::
  "mb_banks \<Rightarrow> bytes \<Rightarrow> nat \<Rightarrow> (u8 + bytes) \<times> mb_banks" where
  "process_read_write_registers s pdu cap =
     (if length pdu < 10 then (Inl MB_EX_ILLEGAL_DATA_VALUE, s)
      else
        let read_address = read_be16 pdu 1; read_quantity = read_be16 pdu 3;
            write_address = read_be16 pdu 5; write_quantity = read_be16 pdu 7 in
        if read_quantity = 0 \<or> read_quantity > 125 \<or> write_quantity = 0 \<or> write_quantity > 121
        then (Inl MB_EX_ILLEGAL_DATA_VALUE, s)
        else if \<not> range_is_valid read_address read_quantity (MB_MAX_HREGS s) \<or>
                \<not> range_is_valid write_address write_quantity (MB_MAX_HREGS s)
        then (Inl MB_EX_ILLEGAL_DATA_ADDRESS, s)
        else
          let write_byte_count = unat write_quantity * 2 in
          if unat (pdu ! 9) \<noteq> write_byte_count \<or> length pdu \<noteq> 10 + write_byte_count
          then (Inl MB_EX_ILLEGAL_DATA_VALUE, s)
          else
            let read_byte_count = unat read_quantity * 2 in
            if cap < 2 + read_byte_count then (Inl MB_EX_SERVER_FAILURE, s)
            else
              let s' = fold (\<lambda>i. mb_set_hreg (write_address + of_nat i) (read_be16 pdu (10 + i * 2)))
                         [0..<unat write_quantity] s in
              (Inr ([pdu ! 0, of_nat read_byte_count] @
                 concat (map (\<lambda>i. write_be16 (mb_get_hreg s' (read_address + of_nat i)))
                   [0..<unat read_quantity])), s'))"

definition with_banks :: "(mb_banks \<Rightarrow> (u8 + bytes) \<times> mb_banks) \<Rightarrow> mb_state \<Rightarrow> (u8 + bytes) \<times> mb_state" where
  "with_banks f s = (let (r, b) = f (banks s) in (r, s\<lparr>banks := b\<rparr>))"

definition process_pdu_function ::
  "mei_call \<Rightarrow> mb_state \<Rightarrow> bytes \<Rightarrow> nat \<Rightarrow> (u8 + bytes) \<times> mb_state" where
  "process_pdu_function call s pdu cap =
     (if length pdu = 0 then (Inl MB_EX_ILLEGAL_DATA_VALUE, s)
      else let fc = pdu ! 0 in
        if fc = 0x01 \<or> fc = 0x02 then (process_read_bits (banks s) pdu cap, s)
        else if fc = 0x03 \<or> fc = 0x04 then (process_read_registers (banks s) pdu cap, s)
        else if fc = 0x05 then with_banks (\<lambda>b. process_write_single_coil b pdu cap) s
        else if fc = 0x06 then with_banks (\<lambda>b. process_write_single_register b pdu cap) s
        else if fc = 0x0F then with_banks (\<lambda>b. process_write_multiple_coils b pdu cap) s
        else if fc = 0x10 then with_banks (\<lambda>b. process_write_multiple_registers b pdu cap) s
        else if fc = 0x14
        then (mb_file_record_process_read_request (app_memory s) (file_record_state s) pdu cap, s)
        else if fc = 0x15 then
          let (r, mem) =
            mb_file_record_process_write_request (app_memory s) (file_record_state s) pdu cap in
          (r, s\<lparr>app_memory := mem\<rparr>)
        else if fc = 0x16 then with_banks (\<lambda>b. process_mask_write_register b pdu cap) s
        else if fc = 0x18
        then (mb_fifo_process_read_request (app_memory s) (fifo_state s) pdu cap, s)
        else if fc = 0x17 then with_banks (\<lambda>b. process_read_write_registers b pdu cap) s
        else if fc = 0x2B
        then (mb_mei_process_request call (mei_state s) (device_id_state s) pdu cap, s)
        else (Inl MB_EX_ILLEGAL_FUNCTION, s))"

definition mb_process_pdu ::
  "mei_call \<Rightarrow> mb_state \<Rightarrow> bytes option \<Rightarrow> nat option \<Rightarrow> (int + bytes) \<times> mb_state" where
  "mb_process_pdu call s request capacity =
     (case (request, capacity) of
        (Some pdu, Some cap) \<Rightarrow>
          if length pdu = 0 \<or> length pdu > MODBUS_PDU_MAX_SIZE then (Inl (- 2), s)
          else if cap < 2 then (Inl (- 3), s)
          else (case process_pdu_function call s pdu cap of
              (Inl e, s') \<Rightarrow> (Inr [pdu ! 0 OR 0x80, e], s')
            | (Inr rsp, s') \<Rightarrow> (Inr rsp, s'))
      | _ \<Rightarrow> (Inl (- 1), s))"

text \<open>Well-formed library states.\<close>

definition mb_wf :: "mb_state \<Rightarrow> bool" where
  "mb_wf s \<longleftrightarrow> banks_wf (banks s) \<and> device_id_wf (device_id_state s) \<and>
     files_wf (file_record_state s) \<and> fifos_wf (fifo_state s) \<and> mei_wf (mei_state s)"

lemma mb_init_wf: "banks_wf (banks s) \<Longrightarrow> mb_wf (mb_init s)"
  by (simp add: mb_wf_def mb_init_def init_banks_wf device_id_wf_clear mb_file_record_clear_def
      files_wf_Nil mb_fifo_clear_def fifos_wf_Nil mei_wf_clear)

section \<open>The contract of a request handler\<close>

definition handler_ok :: "bytes \<Rightarrow> nat \<Rightarrow> u8 + bytes \<Rightarrow> bool" where
  "handler_ok pdu cap r =
     (case r of Inl e \<Rightarrow> 1 \<le> e \<and> e \<le> 0x0B
      | Inr rsp \<Rightarrow> 2 \<le> length rsp \<and> length rsp \<le> min cap MODBUS_PDU_MAX_SIZE \<and> rsp ! 0 = pdu ! 0)"

lemma length_fold_list_update:
  "length (fold (\<lambda>i r. r[f i := g i r]) is r) = length r"
  by (induction "is" arbitrary: r) simp_all

lemma pack_bits_length [simp]: "length (pack_bits f n) = (n + 7) div 8"
  by (simp add: pack_bits_def length_fold_list_update)

lemma quantity_le: "\<not> (q :: u16) > k \<Longrightarrow> unat q \<le> unat k"
  by (simp add: word_le_nat_alt not_less)

lemma read_bits_ok: "handler_ok pdu cap (process_read_bits s pdu cap)"
  using quantity_le [of 2000 "read_be16 pdu 3"]
  by (auto simp: handler_ok_def process_read_bits_def Let_def not_less)

lemma read_registers_ok: "handler_ok pdu cap (process_read_registers s pdu cap)"
  using quantity_le [of 125 "read_be16 pdu 3"]
  by (auto simp: handler_ok_def process_read_registers_def Let_def not_less
      length_concat_map_const [where c = 2])

lemma write_single_coil_ok: "handler_ok pdu cap (fst (process_write_single_coil s pdu cap))"
  by (auto simp: handler_ok_def process_write_single_coil_def Let_def not_less)

lemma write_single_register_ok:
  "handler_ok pdu cap (fst (process_write_single_register s pdu cap))"
  by (auto simp: handler_ok_def process_write_single_register_def Let_def not_less)

lemma write_multiple_coils_ok:
  "handler_ok pdu cap (fst (process_write_multiple_coils s pdu cap))"
  by (auto simp: handler_ok_def process_write_multiple_coils_def Let_def not_less)

lemma write_multiple_registers_ok:
  "handler_ok pdu cap (fst (process_write_multiple_registers s pdu cap))"
  by (auto simp: handler_ok_def process_write_multiple_registers_def Let_def not_less)

lemma mask_write_register_ok:
  "handler_ok pdu cap (fst (process_mask_write_register s pdu cap))"
  by (auto simp: handler_ok_def process_mask_write_register_def Let_def not_less)

lemma read_write_registers_ok:
  "handler_ok pdu cap (fst (process_read_write_registers s pdu cap))"
  using quantity_le [of 125 "read_be16 pdu 3"]
  by (auto simp: handler_ok_def process_read_write_registers_def Let_def not_less
      length_concat_map_const [where c = 2])

lemma file_read_check_code: "file_read_check st pdu offset rdl = Inl e \<Longrightarrow> 1 \<le> e \<and> e \<le> 0x0B"
proof (induction st pdu offset rdl rule: file_read_check.induct)
  case (1 st pdu offset rdl)
  show ?case
    using "1.prems" "1.IH"
    by (auto simp: file_read_check.simps [of st pdu offset] Let_def split: if_splits)
qed

lemma file_write_check_code: "file_write_check st pdu offset n = Inl e \<Longrightarrow> 1 \<le> e \<and> e \<le> 0x0B"
proof (induction st pdu offset n rule: file_write_check.induct)
  case (1 st pdu offset n)
  show ?case
    using "1.prems" "1.IH"
    by (auto simp: file_write_check.simps [of st pdu offset] Let_def split: if_splits)
qed

lemma file_read_ok:
  assumes "pdu ! 0 = 0x14"
  shows "handler_ok pdu cap (mb_file_record_process_read_request mem st pdu cap)"
proof (cases "mb_file_record_process_read_request mem st pdu cap")
  case (Inl e)
  then have "1 \<le> e \<and> e \<le> 0x0B"
    by (auto simp: mb_file_record_process_read_request_def Let_def
        dest: file_read_check_code split: if_splits sum.splits)
  then show ?thesis by (simp add: Inl handler_ok_def)
next
  case (Inr rsp)
  moreover have "rsp ! 0 = 0x14"
    using Inr by (auto simp: mb_file_record_process_read_request_def Let_def
        split: if_splits sum.splits)
  ultimately show ?thesis
    using assms file_read_response_length [OF Inr] by (simp add: handler_ok_def)
qed

lemma file_write_ok: "handler_ok pdu cap (fst (mb_file_record_process_write_request mem st pdu cap))"
  by (auto simp: handler_ok_def mb_file_record_process_write_request_def Let_def not_less
      dest: file_write_check_code split: sum.splits prod.splits)

lemma fifo_read_ok:
  assumes "pdu ! 0 = 0x18"
  shows "handler_ok pdu cap (mb_fifo_process_read_request mem st pdu cap)"
proof (cases "mb_fifo_process_read_request mem st pdu cap")
  case (Inl e)
  then show ?thesis
    by (auto simp: mb_fifo_process_read_request_def handler_ok_def Let_def
        split: if_splits option.splits)
next
  case (Inr rsp)
  moreover have "rsp ! 0 = 0x18"
    using Inr by (auto simp: mb_fifo_process_read_request_def Let_def split: if_splits option.splits)
  ultimately show ?thesis
    using assms fifo_read_response_length [OF Inr] by (simp add: handler_ok_def)
qed

lemma device_id_response_function:
  "mb_device_id_process_request st code oid cap = Inr rsp \<Longrightarrow> rsp ! 0 = 0x2B"
  by (auto simp: mb_device_id_process_request_def Let_def
      split: if_splits option.splits sum.splits prod.splits)

lemma mei_ok:
  assumes "pdu ! 0 = 0x2B" "device_id_wf dev"
  shows "handler_ok pdu cap (mb_mei_process_request call hs dev pdu cap)"
proof (cases "mb_mei_process_request call hs dev pdu cap")
  case (Inl e)
  then show ?thesis using mei_exception_code by (simp add: handler_ok_def)
next
  case (Inr rsp)
  moreover have "rsp ! 0 = 0x2B"
    using Inr by (auto simp: mb_mei_process_request_def Let_def dest: device_id_response_function
        split: if_splits option.splits prod.splits)
  ultimately show ?thesis
    using assms mei_response_length [OF assms(2) Inr] by (simp add: handler_ok_def)
qed

lemmas handlers_ok = read_bits_ok read_registers_ok write_single_coil_ok write_single_register_ok
  write_multiple_coils_ok write_multiple_registers_ok mask_write_register_ok
  read_write_registers_ok file_read_ok file_write_ok fifo_read_ok mei_ok

lemma with_banks_simps [simp]:
  "fst (with_banks f s) = fst (f (banks s))"
  "snd (with_banks f s) = s\<lparr>banks := snd (f (banks s))\<rparr>"
  by (simp_all add: with_banks_def split: prod.splits)

lemma process_pdu_function_ok:
  assumes "mb_wf s" "pdu \<noteq> []"
  shows "handler_ok pdu cap (fst (process_pdu_function call s pdu cap))"
proof -
  have "handler_ok pdu cap (Inl MB_EX_ILLEGAL_FUNCTION)" by (simp add: handler_ok_def)
  moreover have "device_id_wf (device_id_state s)" using assms by (simp add: mb_wf_def)
  ultimately show ?thesis
    using assms(2) handlers_ok by (simp add: process_pdu_function_def Let_def case_prod_beta)
qed

text \<open>The writers keep the banks well formed and leave them alone on an exception.\<close>

definition writer_ok :: "(mb_banks \<Rightarrow> (u8 + bytes) \<times> mb_banks) \<Rightarrow> bool" where
  "writer_ok f \<longleftrightarrow> (\<forall>s. (banks_wf s \<longrightarrow> banks_wf (snd (f s))) \<and>
     (\<forall>e. fst (f s) = Inl e \<longrightarrow> snd (f s) = s))"

lemma writers_ok:
  "writer_ok (\<lambda>b. process_write_single_coil b pdu cap)"
  "writer_ok (\<lambda>b. process_write_single_register b pdu cap)"
  "writer_ok (\<lambda>b. process_write_multiple_coils b pdu cap)"
  "writer_ok (\<lambda>b. process_write_multiple_registers b pdu cap)"
  "writer_ok (\<lambda>b. process_mask_write_register b pdu cap)"
  "writer_ok (\<lambda>b. process_read_write_registers b pdu cap)"
  by (auto simp: writer_ok_def process_write_single_coil_def process_write_single_register_def
      process_write_multiple_coils_def process_write_multiple_registers_def
      process_mask_write_register_def process_read_write_registers_def Let_def
      coil_bank.wf_set hreg_bank.wf_set coil_bank.fold_set_wf hreg_bank.fold_set_wf mask_write_wf
      split: if_splits)

definition atomic_result :: "'s \<Rightarrow> (u8 + bytes) \<times> 's \<Rightarrow> bool" where
  "atomic_result s x \<longleftrightarrow> (\<forall>e. fst x = Inl e \<longrightarrow> snd x = s)"

lemma atomic_same [simp]: "atomic_result s (r, s)"
  by (simp add: atomic_result_def)

lemma atomic_with_banks: "writer_ok f \<Longrightarrow> atomic_result s (with_banks f s)"
  by (simp add: writer_ok_def atomic_result_def)

lemma with_banks_wf: "writer_ok f \<Longrightarrow> mb_wf s \<Longrightarrow> mb_wf (s\<lparr>banks := snd (f (banks s))\<rparr>)"
  by (simp add: writer_ok_def mb_wf_def)

lemma atomic_file_write:
  "atomic_result mem (mb_file_record_process_write_request mem st pdu cap)"
  by (auto simp: atomic_result_def mb_file_record_process_write_request_def Let_def
      split: if_splits sum.splits prod.splits)

lemma process_pdu_function_exception:
  assumes "process_pdu_function call s pdu cap = (Inl e, s')"
  shows "s' = s"
proof -
  have "atomic_result s (let (r, mem) = mb_file_record_process_write_request (app_memory s)
      (file_record_state s) pdu cap in (r, s\<lparr>app_memory := mem\<rparr>))"
    using atomic_file_write [of "app_memory s" "file_record_state s" pdu cap]
    by (simp add: atomic_result_def case_prod_beta)
  then have "atomic_result s (process_pdu_function call s pdu cap)"
    by (simp add: process_pdu_function_def Let_def writers_ok [THEN atomic_with_banks])
  then show ?thesis by (simp add: assms atomic_result_def)
qed

lemma process_pdu_function_wf:
  assumes "mb_wf s"
  shows "mb_wf (snd (process_pdu_function call s pdu cap))"
proof -
  have "mb_wf (s\<lparr>app_memory := m\<rparr>)" for m using assms by (simp add: mb_wf_def)
  then show ?thesis
    using assms by (simp add: process_pdu_function_def Let_def case_prod_beta
        writers_ok [THEN with_banks_wf])
qed

definition supported_function :: "u8 \<Rightarrow> bool" where
  "supported_function fc \<longleftrightarrow> fc \<in> set [0x01, 0x02, 0x03, 0x04, 0x05, 0x06, 0x0F, 0x10, 0x14, 0x15, 0x16,
     0x17, 0x18, 0x2B]"

lemma process_pdu_function_supported:
  "process_pdu_function call s pdu cap = (Inr rsp, s') \<Longrightarrow> supported_function (pdu ! 0)"
  by (auto simp: process_pdu_function_def Let_def supported_function_def split: if_splits)

section \<open>Every request is answered\<close>

text \<open>
  The contract between a PDU layer and the transports above it: any request of legal size
  is answered within the capacity, and the invariant is kept; anything else is refused
  without an effect.
\<close>

locale pdu_server =
  fixes process :: "'s \<Rightarrow> bytes option \<Rightarrow> nat option \<Rightarrow> (int + bytes) \<times> 's"
    and inv :: "'s \<Rightarrow> bool"
  assumes answers: "inv s \<Longrightarrow> pdu \<noteq> [] \<Longrightarrow> length pdu \<le> 253 \<Longrightarrow> 2 \<le> cap \<Longrightarrow>
      \<exists>rsp s'. process s (Some pdu) (Some cap) = (Inr rsp, s') \<and> inv s' \<and> 2 \<le> length rsp \<and>
        length rsp \<le> min cap 253 \<and> (rsp ! 0 = pdu ! 0 \<or> rsp ! 0 = pdu ! 0 OR 0x80)"
    and refuses: "pdu = [] \<or> 253 < length pdu \<or> cap < 2 \<Longrightarrow>
      \<exists>c < 0. process s (Some pdu) (Some cap) = (Inl c, s)"
begin

lemma inv_process: "inv s \<Longrightarrow> inv (snd (process s (Some pdu) (Some cap)))"
  using answers [of s pdu cap] refuses [of pdu cap s]
  by (cases "pdu = [] \<or> 253 < length pdu \<or> cap < 2") fastforce+

lemma inv_session:
  "inv s \<Longrightarrow> inv (fold (\<lambda>(pdu, cap) s. snd (process s (Some pdu) (Some cap))) reqs s)"
  by (induction reqs arbitrary: s) (auto simp: inv_process)

lemma response_length:
  "inv s \<Longrightarrow> process s (Some pdu) (Some cap) = (Inr rsp, s') \<Longrightarrow>
   2 \<le> length rsp \<and> length rsp \<le> min cap 253 \<and> inv s'"
  using answers [of s pdu cap] refuses [of pdu cap s]
  by (cases "pdu = [] \<or> 253 < length pdu \<or> cap < 2") fastforce+

end

lemma mb_process_pdu_cases:
  assumes "mb_wf s" "pdu \<noteq> []" "length pdu \<le> 253" "2 \<le> cap"
  obtains (normal) rsp s' where "mb_process_pdu call s (Some pdu) (Some cap) = (Inr rsp, s')"
      "process_pdu_function call s pdu cap = (Inr rsp, s')" "mb_wf s'"
      "2 \<le> length rsp" "length rsp \<le> min cap 253" "rsp ! 0 = pdu ! 0"
      "supported_function (pdu ! 0)"
  | (exception) e where "mb_process_pdu call s (Some pdu) (Some cap) = (Inr [pdu ! 0 OR 0x80, e], s)"
      "process_pdu_function call s pdu cap = (Inl e, s)" "1 \<le> e" "e \<le> 0x0B"
proof -
  obtain r s' where f: "process_pdu_function call s pdu cap = (r, s')" by fastforce
  have ok: "handler_ok pdu cap r" "mb_wf s'"
    using process_pdu_function_ok [OF assms(1,2), of cap call]
      process_pdu_function_wf [OF assms(1), of call pdu cap] f by simp_all
  show ?thesis
  proof (cases r)
    case (Inl e)
    with f have "s' = s" using process_pdu_function_exception by blast
    with f Inl ok assms(2-4) show ?thesis
      by (intro exception [of e]) (auto simp: mb_process_pdu_def handler_ok_def)
  next
    case (Inr rsp)
    with f ok assms(2-4) process_pdu_function_supported show ?thesis
      by (intro normal [of rsp s']) (auto simp: mb_process_pdu_def handler_ok_def)
  qed
qed

interpretation pdu: pdu_server "mb_process_pdu call" mb_wf for call
proof unfold_locales
  fix s and pdu :: bytes and cap :: nat
  assume legal: "mb_wf s" "pdu \<noteq> []" "length pdu \<le> 253" "2 \<le> cap"
  show "\<exists>rsp s'. mb_process_pdu call s (Some pdu) (Some cap) = (Inr rsp, s') \<and> mb_wf s' \<and>
      2 \<le> length rsp \<and> length rsp \<le> min cap 253 \<and>
      (rsp ! 0 = pdu ! 0 \<or> rsp ! 0 = pdu ! 0 OR 0x80)"
    by (rule mb_process_pdu_cases [OF legal, where call = call]) (use legal in auto)
next
  fix pdu :: bytes and cap :: nat and s
  assume "pdu = [] \<or> 253 < length pdu \<or> cap < 2"
  then show "\<exists>c < 0. mb_process_pdu call s (Some pdu) (Some cap) = (Inl c, s)"
    by (auto simp: mb_process_pdu_def)
qed

text \<open>
  C1. Every request PDU of legal size is answered on every well-formed state, whatever
  bytes it holds and whatever the registered MEI handlers return (handlers that do not
  themselves call the library): the response fits the
  capacity and the protocol limit, the state stays well formed, and the response is either
  a normal one that echoes a supported function code or the two-byte exception response
  (function code with bit 7 set, an exception code from 1 to 11), in which case no part of
  the server state has changed.
\<close>

theorem mb_process_pdu_answers:
  assumes "mb_wf s" "pdu \<noteq> []" "length pdu \<le> 253" "2 \<le> cap"
  shows "\<exists>rsp s'. mb_process_pdu call s (Some pdu) (Some cap) = (Inr rsp, s') \<and> mb_wf s' \<and>
    2 \<le> length rsp \<and> length rsp \<le> min cap 253 \<and>
    (rsp ! 0 = pdu ! 0 \<and> supported_function (pdu ! 0) \<or>
     (\<exists>e. rsp = [pdu ! 0 OR 0x80, e] \<and> 1 \<le> e \<and> e \<le> 0x0B \<and> s' = s))"
  by (rule mb_process_pdu_cases [OF assms, where call = call]) (use assms in auto)

definition demo_state :: mb_state where
  "demo_state = mb_init
     \<lparr>banks = \<lparr>coils = replicate 16 0, discrete_inputs = replicate 16 0,
        holding_registers = replicate 8 0, input_registers = replicate 8 0, hook_log = []\<rparr>,
      device_id_state = clear_device_id_unlocked, file_record_state = [], fifo_state = [],
      mei_state = replicate 8 empty_mei_entry, app_memory = (\<lambda>_. 0)\<rparr>"

definition demo_call :: mei_call where
  "demo_call h ctx t data cap = (4, 0, \<lambda>_. 0)"

lemma demo_state_wf: "mb_wf demo_state"
  unfolding demo_state_def
  by (rule mb_init_wf) (simp add: banks_wf_def mb_defs bit_bank_def)

lemma demo_state_hregs: "holding_registers (banks demo_state) = replicate 8 0"
  by (simp add: demo_state_def mb_init_def init_banks_def)

theorem mb_process_pdu_answers_witness:
  "\<exists>rsp s'. mb_process_pdu demo_call demo_state (Some [0x07]) (Some 2) = (Inr rsp, s') \<and> mb_wf s' \<and>
    2 \<le> length rsp \<and> length rsp \<le> min 2 253 \<and>
    (rsp ! 0 = 0x07 \<and> supported_function 0x07 \<or>
     (\<exists>e. rsp = [0x87, e] \<and> 1 \<le> e \<and> e \<le> 0x0B \<and> s' = demo_state))"
  using mb_process_pdu_answers [OF demo_state_wf, of "[0x07]" 2 demo_call] by simp

section \<open>Frame conditions\<close>

text \<open>No bank changes but the coils, if \<open>c\<close>, and the holding registers, if \<open>h\<close>.\<close>

definition bank_frame :: "bool \<Rightarrow> bool \<Rightarrow> mb_banks \<Rightarrow> mb_banks \<Rightarrow> bool" where
  "bank_frame c h s s' \<longleftrightarrow>
     discrete_inputs s' = discrete_inputs s \<and> input_registers s' = input_registers s \<and>
     (c \<or> coils s' = coils s) \<and> (h \<or> holding_registers s' = holding_registers s)"

lemma bank_frame_trans: "bank_frame c h s t \<Longrightarrow> bank_frame c h t u \<Longrightarrow> bank_frame c h s u"
  by (auto simp: bank_frame_def)

lemma bank_frame_fold:
  assumes "\<And>i s. bank_frame c h s (f i s)"
  shows "bank_frame c h s (fold f is s)"
proof (induction "is" arbitrary: s)
  case Nil
  show ?case by (simp add: bank_frame_def)
next
  case (Cons i "is")
  from bank_frame_trans [OF assms Cons] show ?case by simp
qed

lemma bank_frame_setters [simp]:
  "bank_frame c h s s" "bank_frame True h s (mb_set_coil a v s)" "bank_frame c True s (mb_set_hreg a w s)"
  "bank_frame c True s (snd (mb_mask_write_hreg a w w' s))"
  by (simp_all add: bank_frame_def mb_set_coil_def mb_set_hreg_def mb_mask_write_hreg_def Let_def)

lemma writers_bank_frame [simp]:
  "bank_frame True h s (snd (process_write_single_coil s pdu cap))"
  "bank_frame c True s (snd (process_write_single_register s pdu cap))"
  "bank_frame True h s (snd (process_write_multiple_coils s pdu cap))"
  "bank_frame c True s (snd (process_write_multiple_registers s pdu cap))"
  "bank_frame c True s (snd (process_mask_write_register s pdu cap))"
  "bank_frame c True s (snd (process_read_write_registers s pdu cap))"
  by (simp_all add: process_write_single_coil_def process_write_single_register_def
      process_write_multiple_coils_def process_write_multiple_registers_def
      process_mask_write_register_def process_read_write_registers_def Let_def bank_frame_fold)

text \<open>What a request can change, by function code.\<close>

definition pdu_frame :: "u8 \<Rightarrow> mb_state \<Rightarrow> mb_state \<Rightarrow> bool" where
  "pdu_frame fc s s' \<longleftrightarrow>
     device_id_state s' = device_id_state s \<and> file_record_state s' = file_record_state s \<and>
     fifo_state s' = fifo_state s \<and> mei_state s' = mei_state s \<and>
     bank_frame (fc \<in> set [0x05, 0x0F]) (fc \<in> set [0x06, 0x10, 0x16, 0x17]) (banks s) (banks s') \<and>
     (fc \<notin> set [0x05, 0x06, 0x0F, 0x10, 0x16, 0x17] \<longrightarrow> banks s' = banks s) \<and>
     (fc \<noteq> 0x15 \<longrightarrow> app_memory s' = app_memory s)"

lemma process_pdu_function_frame:
  "pdu_frame (pdu ! 0) s (snd (process_pdu_function call s pdu cap))"
  by (simp add: process_pdu_function_def Let_def case_prod_beta pdu_frame_def)

text \<open>
  C2. A request changes only what its function code names. No request changes the
  configured objects, maps or handlers or the two input banks; the coils change only for
  FC05 and FC15, the holding registers only for FC06, FC16, FC22 and FC23; application
  memory only for FC21. Read functions therefore change nothing, nor call a write hook. An MEI
  handler is a function of its request; what a handler would change by calling the library
  itself is not part of the request.
\<close>

theorem mb_process_pdu_frame:
  "pdu_frame (the request ! 0) s (snd (mb_process_pdu call s request capacity))"
proof -
  have same: "pdu_frame fc s s" for fc by (simp add: pdu_frame_def)
  show ?thesis
  proof (cases "request = None \<or> capacity = None")
    case True
    with same show ?thesis by (cases request; cases capacity) (auto simp: mb_process_pdu_def)
  next
    case False
    then obtain pdu cap where [simp]: "request = Some pdu" "capacity = Some cap" by auto
    show ?thesis
      using same process_pdu_function_frame [of pdu s call cap]
      by (auto simp: mb_process_pdu_def split: prod.splits sum.splits)
  qed
qed

section \<open>Reading bits\<close>

lemma bit_of_shifted_flag:
  "a < 8 \<Longrightarrow> j < 8 \<Longrightarrow> bit (push_bit a (x AND 1) :: u8) j \<longleftrightarrow> j = a \<and> bit x 0"
  by (cases "a \<le> j") (auto simp: bit_simps)

lemma pack_bits_loop:
  assumes "m \<le> 8 * L" "k < L" "j < 8"
  shows "bit (fold (\<lambda>i r. r[i div 8 := r ! (i div 8) OR push_bit (i mod 8) (f i AND 1)]) [0..<m]
      (replicate L 0) ! k :: u8) j \<longleftrightarrow> 8 * k + j < m \<and> bit (f (8 * k + j)) 0"
  using assms(1)
proof (induction m)
  case 0
  then show ?case using assms by simp
next
  case (Suc m)
  let ?r = "fold (\<lambda>i r. r[i div 8 := r ! (i div 8) OR push_bit (i mod 8) (f i AND 1)]) [0..<m]
      (replicate L 0 :: bytes)"
  have len: "length ?r = L" by (simp add: length_fold_list_update)
  have IH: "bit (?r ! k) j \<longleftrightarrow> 8 * k + j < m \<and> bit (f (8 * k + j)) 0" using Suc by simp
  have at: "m div 8 = k \<and> m mod 8 = j \<longleftrightarrow> m = 8 * k + j" using assms(3) by auto
  show ?case
  proof (cases "m div 8 = k")
    case True
    then have "bit (?r[m div 8 := ?r ! (m div 8) OR push_bit (m mod 8) (f m AND 1)] ! k) j \<longleftrightarrow>
        bit (?r ! k) j \<or> (j = m mod 8 \<and> bit (f m) 0)"
      using assms(2,3) len bit_of_shifted_flag [of "m mod 8" j "f m"] by (simp add: bit_or_iff)
    then show ?thesis using IH at True by (auto simp: less_Suc_eq)
  next
    case False
    then have "m \<noteq> 8 * k + j" using at by blast
    then show ?thesis using IH False by (simp add: less_Suc_eq)
  qed
qed

lemma pack_bits_bit:
  "k < (n + 7) div 8 \<Longrightarrow> j < 8 \<Longrightarrow>
   bit (pack_bits f n ! k) j \<longleftrightarrow> 8 * k + j < n \<and> bit (f (8 * k + j)) 0"
  unfolding pack_bits_def by (rule pack_bits_loop) linarith+

lemma range_is_valid_of_nat:
  "0 < n \<Longrightarrow> unat a + n \<le> limit \<Longrightarrow> n < 65536 \<Longrightarrow> range_is_valid a (of_nat n) limit"
  by (simp add: range_is_valid_def word_less_nat_alt)

lemma of_nat_u16_eq_0: "n < 65536 \<Longrightarrow> (of_nat n :: u16) = 0 \<longleftrightarrow> n = 0"
  by (simp add: word_unat_eq_iff)

lemma of_nat_u16_greater: "n < 65536 \<Longrightarrow> (of_nat n :: u16) > k \<longleftrightarrow> n > unat k"
  by (simp add: word_less_nat_alt)

lemmas request_field_simps = of_nat_u16_eq_0 of_nat_u16_greater range_is_valid_of_nat

definition read_request :: "u8 \<Rightarrow> u16 \<Rightarrow> nat \<Rightarrow> bytes" where
  "read_request fc a n = [fc] @ write_be16 a @ write_be16 (of_nat n)"

lemma read_request_fields [simp]:
  "read_request fc a n ! 0 = fc" "length (read_request fc a n) = 5"
  "read_be16 (read_request fc a n) (Suc 0) = a" "read_be16 (read_request fc a n) 3 = of_nat n"
  "read_request fc a n \<noteq> []"
  by (simp_all add: read_request_def)

definition bit_bank_of :: "u8 \<Rightarrow> mb_banks \<Rightarrow> u8 list" where
  "bit_bank_of fc s = (if fc = 0x01 then coils s else discrete_inputs s)"

lemma process_read_bits_ok:
  assumes "fc = 0x01 \<or> fc = 0x02" "0 < n" "n \<le> 2000" "2 + (n + 7) div 8 \<le> cap"
    "unat a + n \<le> length (bit_bank_of fc s)" "length (bit_bank_of fc s) \<le> 65536"
  shows "\<exists>data. process_read_bits s (read_request fc a n) cap =
      Inr ([fc, of_nat ((n + 7) div 8)] @ data) \<and> length data = (n + 7) div 8 \<and>
    (\<forall>k < (n + 7) div 8. \<forall>j < 8. bit (data ! k) j \<longleftrightarrow>
       8 * k + j < n \<and> odd (bit_bank_of fc s ! (unat a + (8 * k + j))))"
proof -
  let ?f = "\<lambda>i. if fc = 0x01 then mb_get_coil s (a + of_nat i) else mb_get_dinput s (a + of_nat i)"
  have run: "process_read_bits s (read_request fc a n) cap =
      Inr ([fc, of_nat ((n + 7) div 8)] @ pack_bits ?f n)"
    using assms by (auto simp: process_read_bits_def Let_def request_field_simps bit_bank_of_def
        mb_defs not_less simp del: of_nat_add of_nat_div)
  have "bit (?f i) 0 = odd (bit_bank_of fc s ! (unat a + i))" if "i < n" for i
  proof -
    have "unat (a + of_nat i) = unat a + i" using assms that by (intro unat_add_of_nat_u16) simp
    then show ?thesis
      using assms that
      by (auto simp: mb_get_coil_def mb_get_dinput_def mb_defs bit_bank_of_def bit_0 even_and_iff)
  qed
  note val = this
  define f where "f = ?f"
  have "bit (pack_bits f n ! k) j \<longleftrightarrow>
      8 * k + j < n \<and> odd (bit_bank_of fc s ! (unat a + (8 * k + j)))"
    if "k < (n + 7) div 8" "j < 8" for k j
    using that val [of "8 * k + j", folded f_def] pack_bits_bit [of k n j f]
    by (auto simp: f_def)
  then show ?thesis
    using run [folded f_def] by (intro exI [of _ "pack_bits f n"]) simp
qed

text \<open>
  C16. FC01 and FC02 return the addressed bits and nothing else: a request for \<open>n\<close> bits
  inside the bank succeeds without a change of state, the response has the function code,
  the byte count and the packed data, bit \<open>j\<close> of data byte \<open>k\<close> is the stored value at
  offset \<open>8 * k + j\<close> of the request, and the padding bits of the last byte are zero.
\<close>

theorem read_bits_packed:
  assumes "mb_wf s" "fc = 0x01 \<or> fc = 0x02" "0 < n" "n \<le> 2000"
    "unat a + n \<le> length (bit_bank_of fc (banks s))" "2 + (n + 7) div 8 \<le> cap"
  shows "\<exists>data. mb_process_pdu call s (Some (read_request fc a n)) (Some cap) =
      (Inr ([fc, of_nat ((n + 7) div 8)] @ data), s) \<and> length data = (n + 7) div 8 \<and>
    (\<forall>k < (n + 7) div 8. \<forall>j < 8. bit (data ! k) j \<longleftrightarrow>
       8 * k + j < n \<and> bit_bank_of fc (banks s) ! (unat a + (8 * k + j)) = 1)"
proof -
  have size: "length (bit_bank_of fc (banks s)) \<le> 65536" and bits: "bit_bank (bit_bank_of fc (banks s))"
    using assms(1) by (auto simp: mb_wf_def banks_wf_def mb_defs bit_bank_of_def)
  have one: "odd (bit_bank_of fc (banks s) ! i) \<longleftrightarrow> bit_bank_of fc (banks s) ! i = 1"
    if "i < length (bit_bank_of fc (banks s))" for i
    using bits that by (fastforce simp: bit_bank_def dest: nth_mem)
  obtain data where d: "process_read_bits (banks s) (read_request fc a n) cap =
      Inr ([fc, of_nat ((n + 7) div 8)] @ data)" "length data = (n + 7) div 8"
    "\<forall>k < (n + 7) div 8. \<forall>j < 8. bit (data ! k) j \<longleftrightarrow>
       8 * k + j < n \<and> odd (bit_bank_of fc (banks s) ! (unat a + (8 * k + j)))"
    using process_read_bits_ok [OF assms(2-4,6,5) size] by blast
  have "mb_process_pdu call s (Some (read_request fc a n)) (Some cap) =
      (Inr ([fc, of_nat ((n + 7) div 8)] @ data), s)"
    using assms(2,6) d(1) by (auto simp: mb_process_pdu_def process_pdu_function_def Let_def)
  moreover have "bit (data ! k) j \<longleftrightarrow>
       8 * k + j < n \<and> bit_bank_of fc (banks s) ! (unat a + (8 * k + j)) = 1"
    if "k < (n + 7) div 8" "j < 8" for k j
    using d(3) that one [of "unat a + (8 * k + j)"] assms(5) by auto
  ultimately show ?thesis using d(2) by blast
qed

theorem read_bits_packed_witness:
  "\<exists>data. mb_process_pdu demo_call demo_state (Some (read_request 1 2 9)) (Some 253) =
      (Inr ([1, of_nat ((9 + 7) div 8)] @ data), demo_state) \<and> length data = (9 + 7) div 8 \<and>
    (\<forall>k < (9 + 7) div 8. \<forall>j < 8. bit (data ! k) j \<longleftrightarrow>
       8 * k + j < 9 \<and> bit_bank_of 1 (banks demo_state) ! (unat (2 :: u16) + (8 * k + j)) = 1)"
  by (rule read_bits_packed [OF demo_state_wf])
    (simp_all add: demo_state_def mb_init_def init_banks_def bit_bank_of_def)

section \<open>Reading and writing registers\<close>

lemma memcpy_at_snoc:
  "off + n < length xs \<Longrightarrow>
   (memcpy_at xs off (map g [0..<n]))[off + n := g n] = memcpy_at xs off (map g [0..<Suc n])"
  by (rule nth_equalityI) (auto simp: memcpy_at_nth nth_list_update nth_append)

lemma fold_set_hreg:
  assumes "unat a + n \<le> MB_MAX_HREGS s" "MB_MAX_HREGS s \<le> 65536"
  shows "fold (\<lambda>i. mb_set_hreg (a + of_nat i) (g i)) [0..<n] s =
    s\<lparr>holding_registers := memcpy_at (holding_registers s) (unat a) (map g [0..<n]),
      hook_log := hook_log s @ map (\<lambda>i. On_Write_Hreg (a + of_nat i) (g i)) [0..<n]\<rparr>"
  using assms
proof (induction n)
  case 0
  then show ?case by (simp add: memcpy_at_def)
next
  case (Suc n)
  have at: "unat (a + of_nat n) = unat a + n"
    using Suc.prems by (intro unat_add_of_nat_u16) simp
  show ?case
    using Suc at memcpy_at_snoc [of "unat a" n "holding_registers s" g]
    by (simp add: mb_set_hreg_def mb_defs)
qed

lemma fold_set_coil:
  assumes "unat a + n \<le> MB_MAX_COILS s" "MB_MAX_COILS s \<le> 65536"
  shows "fold (\<lambda>i. mb_set_coil (a + of_nat i) (g i)) [0..<n] s =
    s\<lparr>coils := memcpy_at (coils s) (unat a) (map (\<lambda>i. if g i \<noteq> 0 then 1 else 0) [0..<n]),
      hook_log := hook_log s @
        map (\<lambda>i. On_Write_Coil (a + of_nat i) (if g i \<noteq> 0 then 1 else 0)) [0..<n]\<rparr>"
  using assms
proof (induction n)
  case 0
  then show ?case by (simp add: memcpy_at_def)
next
  case (Suc n)
  have at: "unat (a + of_nat n) = unat a + n"
    using Suc.prems by (intro unat_add_of_nat_u16) simp
  show ?case
    using Suc at memcpy_at_snoc [of "unat a" n "coils s" "\<lambda>i. if g i \<noteq> 0 then 1 else 0"]
    by (simp add: mb_set_coil_def mb_defs Let_def)
qed

lemma get_hreg_block:
  assumes "unat a + n \<le> MB_MAX_HREGS s" "MB_MAX_HREGS s \<le> 65536"
  shows "concat (map (\<lambda>i. write_be16 (mb_get_hreg s (a + of_nat i))) [0..<n]) =
    concat (map write_be16 (take n (drop (unat a) (holding_registers s))))"
proof -
  have "mb_get_hreg s (a + of_nat i) = take n (drop (unat a) (holding_registers s)) ! i"
    if "i < n" for i
  proof -
    have "unat (a + of_nat i) = unat a + i" using assms that by (intro unat_add_of_nat_u16) simp
    then show ?thesis using assms that by (simp add: mb_get_hreg_def mb_defs)
  qed
  then have "map (\<lambda>i. mb_get_hreg s (a + of_nat i)) [0..<n] = take n (drop (unat a) (holding_registers s))"
    using assms by (intro nth_equalityI) (auto simp: mb_defs)
  then show ?thesis by (metis (no_types, lifting) map_map comp_apply map_eq_conv)
qed

lemma read_block_run:
  assumes "banks_wf (banks s)" "0 < n" "n \<le> 125"
    "unat a + n \<le> length (holding_registers (banks s))" "2 + n * 2 \<le> cap"
  shows "process_pdu_function call s (read_request 0x03 a n) cap =
    (Inr ([0x03, of_nat (n * 2)] @
      concat (map write_be16 (take n (drop (unat a) (holding_registers (banks s)))))), s)"
proof -
  have "MB_MAX_HREGS (banks s) \<le> 65536" using assms(1) by (simp add: banks_wf_def)
  then show ?thesis
    using assms get_hreg_block [of a n "banks s"]
    by (auto simp: process_pdu_function_def process_read_registers_def Let_def
        request_field_simps mb_defs simp del: of_nat_mult)
qed

definition write_registers_request :: "u16 \<Rightarrow> u16 list \<Rightarrow> bytes" where
  "write_registers_request a vs =
     [0x10] @ write_be16 a @ write_be16 (of_nat (length vs)) @ [of_nat (length vs * 2)] @
     concat (map write_be16 vs)"

lemma write_registers_request_fields:
  assumes "length vs \<le> 123"
  shows "write_registers_request a vs ! 0 = 0x10"
    "length (write_registers_request a vs) = 6 + length vs * 2"
    "read_be16 (write_registers_request a vs) (Suc 0) = a"
    "read_be16 (write_registers_request a vs) 3 = of_nat (length vs)"
    "unat (write_registers_request a vs ! 5) = length vs * 2"
    "map (\<lambda>i. read_be16 (write_registers_request a vs) (6 + 2 * i)) [0..<length vs] = vs"
proof -
  show "unat (write_registers_request a vs ! 5) = length vs * 2"
    using assms unat_of_nat_u8 [of "length vs * 2"]
    by (simp add: write_registers_request_def write_be16_def del: of_nat_mult)
  have "read_be16 (write_registers_request a vs) (6 + 2 * i) = vs ! i" if "i < length vs" for i
    using be.dec_enc_list [OF that, of "[0x10] @ write_be16 a @ write_be16 (of_nat (length vs)) @
        [of_nat (length vs * 2)]" "[]"]
    by (simp add: write_registers_request_def)
  then show "map (\<lambda>i. read_be16 (write_registers_request a vs) (6 + 2 * i)) [0..<length vs] = vs"
    by (intro nth_equalityI) auto
qed (simp_all add: write_registers_request_def be.length_enc_list mult.commute)

lemma write_registers_run:
  assumes "banks_wf s" "vs \<noteq> []" "length vs \<le> 123" "unat a + length vs \<le> length (holding_registers s)"
    "5 \<le> cap"
  shows "process_write_multiple_registers s (write_registers_request a vs) cap =
    (Inr ([0x10] @ write_be16 a @ write_be16 (of_nat (length vs))),
     s\<lparr>holding_registers := memcpy_at (holding_registers s) (unat a) vs,
       hook_log := hook_log s @
         map (\<lambda>i. On_Write_Hreg (a + of_nat i) (vs ! i)) [0..<length vs]\<rparr>)"
proof -
  let ?pdu = "write_registers_request a vs"
  note f = write_registers_request_fields [OF assms(3), of a]
  have size: "MB_MAX_HREGS s \<le> 65536" using assms(1) by (simp add: banks_wf_def)
  have vals: "read_be16 ?pdu (6 + 2 * i) = vs ! i" if "i < length vs" for i
    using arg_cong [OF f(6), of "\<lambda>l. l ! i"] that by simp
  have "fold (\<lambda>i. mb_set_hreg (a + of_nat i) (read_be16 ?pdu (6 + 2 * i))) [0..<length vs] s =
      fold (\<lambda>i. mb_set_hreg (a + of_nat i) (vs ! i)) [0..<length vs] s"
    using vals by (intro fold_cong) auto
  then have "fold (\<lambda>i. mb_set_hreg (a + of_nat i) (read_be16 ?pdu (6 + 2 * i))) [0..<length vs] s =
      s\<lparr>holding_registers := memcpy_at (holding_registers s) (unat a) vs,
        hook_log := hook_log s @ map (\<lambda>i. On_Write_Hreg (a + of_nat i) (vs ! i)) [0..<length vs]\<rparr>"
    using fold_set_hreg [of a "length vs" s "(!) vs"] assms(4) size by (simp add: mb_defs map_nth)
  then show ?thesis
    using f(1-5) assms(2-5)
    by (simp add: process_write_multiple_registers_def Let_def request_field_simps mb_defs not_less)
qed

lemma write_block_run:
  assumes "banks_wf (banks s)" "vs \<noteq> []" "length vs \<le> 123"
    "unat a + length vs \<le> length (holding_registers (banks s))" "5 \<le> cap"
  shows "process_pdu_function call s (write_registers_request a vs) cap =
    (Inr ([0x10] @ write_be16 a @ write_be16 (of_nat (length vs))),
     s\<lparr>banks := (banks s)\<lparr>
       holding_registers := memcpy_at (holding_registers (banks s)) (unat a) vs,
       hook_log := hook_log (banks s) @
         map (\<lambda>i. On_Write_Hreg (a + of_nat i) (vs ! i)) [0..<length vs]\<rparr>\<rparr>)"
  using write_registers_run [OF assms] write_registers_request_fields(1,2) [OF assms(3), of a]
  by (simp add: process_pdu_function_def with_banks_def)

text \<open>
  C11. FC16 stores the block: a well-formed request whose range is inside the bank is
  answered with the address and quantity, the holding registers become the old array
  with the values written at the address and nothing else in the state changes except the
  record of one application hook call per register, in ascending order. A following FC03 of
  the same range returns the values written.
\<close>

theorem write_registers_then_read:
  assumes "mb_wf s" "vs \<noteq> []" "length vs \<le> 123"
    "unat a + length vs \<le> length (holding_registers (banks s))"
    "mb_process_pdu call s (Some (write_registers_request a vs)) (Some 253) = (r, s')"
  shows "r = Inr ([0x10] @ write_be16 a @ write_be16 (of_nat (length vs))) \<and>
    s' = s\<lparr>banks := (banks s)\<lparr>
      holding_registers := memcpy_at (holding_registers (banks s)) (unat a) vs,
      hook_log := hook_log (banks s) @
        map (\<lambda>i. On_Write_Hreg (a + of_nat i) (vs ! i)) [0..<length vs]\<rparr>\<rparr> \<and>
    mb_process_pdu call s' (Some (read_request 0x03 a (length vs))) (Some 253) =
      (Inr ([0x03, of_nat (length vs * 2)] @ concat (map write_be16 vs)), s')"
proof -
  let ?b = "(banks s)\<lparr>holding_registers := memcpy_at (holding_registers (banks s)) (unat a) vs,
      hook_log := hook_log (banks s) @ map (\<lambda>i. On_Write_Hreg (a + of_nat i) (vs ! i)) [0..<length vs]\<rparr>"
  have wf: "banks_wf (banks s)" "banks_wf ?b" using assms(1,4) by (simp_all add: mb_wf_def banks_wf_def mb_defs)
  have ne: "write_registers_request a vs \<noteq> []" by (simp add: write_registers_request_def)
  have run: "r = Inr ([0x10] @ write_be16 a @ write_be16 (of_nat (length vs)))" "s' = s\<lparr>banks := ?b\<rparr>"
    using assms(3,5) write_block_run [OF wf(1) assms(2-4), of 253] ne
      write_registers_request_fields(2) [OF assms(3), of a]
    by (auto simp: mb_process_pdu_def)
  have "take (length vs) (drop (unat a) (memcpy_at (holding_registers (banks s)) (unat a) vs)) = vs"
    using assms(4) by (intro take_drop_memcpy_at(1)) simp
  then have "mb_process_pdu call s' (Some (read_request 0x03 a (length vs))) (Some 253) =
      (Inr ([0x03, of_nat (length vs * 2)] @ concat (map write_be16 vs)), s')"
    using read_block_run [of s' "length vs" a 253 call] wf assms(2-4) run(2)
    by (simp add: mb_process_pdu_def read_request_def del: of_nat_mult)
  with run show ?thesis by simp
qed

theorem write_registers_then_read_witness:
  "mb_process_pdu demo_call
     (snd (mb_process_pdu demo_call demo_state (Some (write_registers_request 3 [0x1234, 0xABCD])) (Some 253)))
     (Some (read_request 0x03 3 (length [0x1234 :: u16, 0xABCD]))) (Some 253) =
   (Inr [0x03, 4, 0x12, 0x34, 0xAB, 0xCD],
     snd (mb_process_pdu demo_call demo_state (Some (write_registers_request 3 [0x1234, 0xABCD])) (Some 253)))"
proof -
  have "concat (map write_be16 [0x1234, 0xABCD]) = [0x12, 0x34, 0xAB, 0xCD]"
    by (simp add: write_be16_def)
  then show ?thesis
    using write_registers_then_read [OF demo_state_wf _ _ _ surjective_pairing,
      of "[0x1234, 0xABCD]" 3 demo_call, THEN conjunct2, THEN conjunct2]
    by (simp add: demo_state_hregs del: concat.simps list.map)
qed

section \<open>Writing coils\<close>

lemma drop_bit_and_1: "drop_bit k x AND 1 \<noteq> 0 \<longleftrightarrow> bit x k" for x :: u8
  by (simp add: and_one_eq mod_2_eq_odd bit_iff_odd_drop_bit)

definition write_coils_request :: "u16 \<Rightarrow> nat \<Rightarrow> bytes \<Rightarrow> bytes" where
  "write_coils_request a n data =
     [0x0F] @ write_be16 a @ write_be16 (of_nat n) @ [of_nat (length data)] @ data"

lemma write_coils_request_fields:
  "write_coils_request a n data ! 0 = 0x0F"
  "length (write_coils_request a n data) = 6 + length data"
  "read_be16 (write_coils_request a n data) (Suc 0) = a"
  "read_be16 (write_coils_request a n data) 3 = of_nat n"
  "write_coils_request a n data ! 5 = of_nat (length data)"
  "write_coils_request a n data ! (6 + i) = data ! i"
  by (simp_all add: write_coils_request_def)
    (simp_all add: write_be16_def eval_nat_numeral)

text \<open>
  C17. FC15 stores the packed bits: a well-formed request inside the bank sets coil
  \<open>a + i\<close> to bit \<open>i mod 8\<close> of data byte \<open>i div 8\<close> for every \<open>i < n\<close>, leaves every other coil
  and every other part of the state as it was, and reports each coil to the application
  hook once, in ascending order.
\<close>

theorem write_coils_block:
  assumes "mb_wf s" "0 < n" "n \<le> 1968" "length data = (n + 7) div 8"
    "unat a + n \<le> length (coils (banks s))" "5 \<le> cap"
  shows "mb_process_pdu call s (Some (write_coils_request a n data)) (Some cap) =
    (Inr ([0x0F] @ write_be16 a @ write_be16 (of_nat n)),
     s\<lparr>banks := (banks s)\<lparr>
       coils := memcpy_at (coils (banks s)) (unat a)
         (map (\<lambda>i. of_bool (bit (data ! (i div 8)) (i mod 8))) [0..<n]),
       hook_log := hook_log (banks s) @
         map (\<lambda>i. On_Write_Coil (a + of_nat i) (of_bool (bit (data ! (i div 8)) (i mod 8)))) [0..<n]\<rparr>\<rparr>)"
proof -
  let ?pdu = "write_coils_request a n data"
  note f = write_coils_request_fields [of a n data]
  have size: "MB_MAX_COILS (banks s) \<le> 65536" using assms(1) by (simp add: mb_wf_def banks_wf_def)
  have len: "length data \<le> 246" using assms(3,4) by simp
  have norm: "(if drop_bit (i mod 8) (data ! (i div 8)) AND 1 \<noteq> 0 then 1 else 0) =
      (of_bool (bit (data ! (i div 8)) (i mod 8)) :: u8)" for i
    by (simp only: drop_bit_and_1 of_bool_def)
  have "fold (\<lambda>i. mb_set_coil (a + of_nat i) (drop_bit (i mod 8) (?pdu ! (6 + i div 8)) AND 1))
      [0..<n] (banks s) = (banks s)\<lparr>
        coils := memcpy_at (coils (banks s)) (unat a)
          (map (\<lambda>i. of_bool (bit (data ! (i div 8)) (i mod 8))) [0..<n]),
        hook_log := hook_log (banks s) @
          map (\<lambda>i. On_Write_Coil (a + of_nat i) (of_bool (bit (data ! (i div 8)) (i mod 8)))) [0..<n]\<rparr>"
    using assms(5) size by (subst fold_set_coil) (simp_all only: f norm mb_defs)
  then show ?thesis
    using f(1-5) assms len
    by (simp add: mb_process_pdu_def process_pdu_function_def with_banks_def Let_def
        process_write_multiple_coils_def request_field_simps mb_defs not_less)
qed

lemma demo_state_coils: "coils (banks demo_state) = replicate 16 0"
  by (simp add: demo_state_def mb_init_def init_banks_def)

theorem write_coils_block_witness:
  "coils (banks (snd (mb_process_pdu demo_call demo_state
     (Some (write_coils_request 4 (length [0, 0, 0 :: nat]) [0x05])) (Some 253)))) =
   [0, 0, 0, 0, 1, 0, 1] @ replicate 9 0"
  using write_coils_block [OF demo_state_wf, of "length [0, 0, 0 :: nat]" "[0x05]" 4 253 demo_call]
  by (simp add: demo_state_coils memcpy_at_def) (simp add: eval_nat_numeral bit_0 bit_Suc)

section \<open>FC22 and FC23\<close>

definition rw_registers_request :: "u16 \<Rightarrow> nat \<Rightarrow> u16 \<Rightarrow> u16 list \<Rightarrow> bytes" where
  "rw_registers_request ra n wa vs =
     [0x17] @ write_be16 ra @ write_be16 (of_nat n) @ write_be16 wa @
     write_be16 (of_nat (length vs)) @ [of_nat (length vs * 2)] @ concat (map write_be16 vs)"

lemma rw_registers_request_fields:
  assumes "length vs \<le> 121"
  shows "rw_registers_request ra n wa vs ! 0 = 0x17"
    "length (rw_registers_request ra n wa vs) = 10 + length vs * 2"
    "read_be16 (rw_registers_request ra n wa vs) (Suc 0) = ra"
    "read_be16 (rw_registers_request ra n wa vs) 3 = of_nat n"
    "read_be16 (rw_registers_request ra n wa vs) 5 = wa"
    "read_be16 (rw_registers_request ra n wa vs) 7 = of_nat (length vs)"
    "unat (rw_registers_request ra n wa vs ! 9) = length vs * 2"
    "i < length vs \<Longrightarrow> read_be16 (rw_registers_request ra n wa vs) (10 + i * 2) = vs ! i"
proof -
  show "unat (rw_registers_request ra n wa vs ! 9) = length vs * 2"
    using assms unat_of_nat_u8 [of "length vs * 2"]
    by (simp add: rw_registers_request_def write_be16_def del: of_nat_mult)
  show "read_be16 (rw_registers_request ra n wa vs) (10 + i * 2) = vs ! i" if "i < length vs"
    using be.dec_enc_list [OF that, of "[0x17] @ write_be16 ra @ write_be16 (of_nat n) @ write_be16 wa @
        write_be16 (of_nat (length vs)) @ [of_nat (length vs * 2)]" "[]"]
    by (simp add: rw_registers_request_def mult.commute)
qed (simp_all add: rw_registers_request_def be.length_enc_list mult.commute)

text \<open>
  FC23 writes before it reads: the response is the read block of the holding registers
  as they are after the write block has been stored, also where the two ranges overlap.
\<close>

lemma read_write_registers_order:
  assumes "mb_wf s" "0 < n" "n \<le> 125" "vs \<noteq> []" "length vs \<le> 121"
    "unat ra + n \<le> length (holding_registers (banks s))"
    "unat wa + length vs \<le> length (holding_registers (banks s))" "2 + n * 2 \<le> cap"
  defines "regs \<equiv> memcpy_at (holding_registers (banks s)) (unat wa) vs"
  shows "\<exists>s'. mb_process_pdu call s (Some (rw_registers_request ra n wa vs)) (Some cap) =
    (Inr ([0x17, of_nat (n * 2)] @ concat (map write_be16 (take n (drop (unat ra) regs)))), s') \<and>
    holding_registers (banks s') = regs \<and> coils (banks s') = coils (banks s)"
proof -
  let ?pdu = "rw_registers_request ra n wa vs"
  let ?b = "(banks s)\<lparr>holding_registers := regs, hook_log := hook_log (banks s) @
      map (\<lambda>i. On_Write_Hreg (wa + of_nat i) (vs ! i)) [0..<length vs]\<rparr>"
  note f = rw_registers_request_fields [OF assms(5), where ra = ra and n = n and wa = wa]
  have size: "MB_MAX_HREGS (banks s) \<le> 65536" using assms(1) by (simp add: mb_wf_def banks_wf_def)
  have "fold (\<lambda>i. mb_set_hreg (wa + of_nat i) (read_be16 ?pdu (10 + i * 2))) [0..<length vs] (banks s) =
      fold (\<lambda>i. mb_set_hreg (wa + of_nat i) (vs ! i)) [0..<length vs] (banks s)"
    using f(8) by (intro fold_cong) auto
  then have store: "fold (\<lambda>i. mb_set_hreg (wa + of_nat i) (read_be16 ?pdu (10 + i * 2)))
      [0..<length vs] (banks s) = ?b"
    using fold_set_hreg [of wa "length vs" "banks s" "(!) vs"] assms(7) size
    by (simp add: mb_defs map_nth regs_def)
  have b: "unat ra + n \<le> MB_MAX_HREGS ?b" "MB_MAX_HREGS ?b \<le> 65536"
    using assms(6,7) size by (simp_all add: mb_defs regs_def)
  have "mb_process_pdu call s (Some ?pdu) (Some cap) =
      (Inr ([0x17, of_nat (n * 2)] @ concat (map write_be16 (take n (drop (unat ra) regs)))),
       s\<lparr>banks := ?b\<rparr>)"
    using f(1-7) assms(2-8) get_hreg_block [OF b] store
    by (simp add: mb_process_pdu_def process_pdu_function_def with_banks_def Let_def
        process_read_write_registers_def request_field_simps mb_defs not_less del: of_nat_mult)
  then show ?thesis by simp
qed

text \<open>
  FC22 applies the masks to the current register and touches no other register: the new
  value has the OR mask where the AND mask is clear and the old value where it is set.
\<close>

lemma mask_write_register_effect:
  assumes "unat a < length (holding_registers (banks s))" "7 \<le> cap"
    "pdu = [0x16] @ write_be16 a @ write_be16 am @ write_be16 om"
  shows "\<exists>s' v. mb_process_pdu call s (Some pdu) (Some cap) = (Inr pdu, s') \<and>
    holding_registers (banks s') = (holding_registers (banks s))[unat a := v] \<and>
    (\<forall>i < 16. bit v i = (if bit am i then bit (holding_registers (banks s) ! unat a) i else bit om i))"
proof -
  let ?v = "(holding_registers (banks s) ! unat a AND am) OR (om AND NOT am)"
  have pdu: "pdu ! 0 = 0x16" "length pdu = 7" "read_be16 pdu (Suc 0) = a" "read_be16 pdu 3 = am"
    "read_be16 pdu 5 = om" "take 7 pdu = pdu"
    using assms(3) by simp_all
  have "mb_process_pdu call s (Some pdu) (Some cap) = (Inr pdu, s\<lparr>banks := (banks s)\<lparr>
      holding_registers := (holding_registers (banks s))[unat a := ?v],
      hook_log := hook_log (banks s) @ [On_Write_Hreg a ?v]\<rparr>\<rparr>)"
    using pdu assms(1,2)
    by (simp add: mb_process_pdu_def process_pdu_function_def with_banks_def Let_def
        process_mask_write_register_def mb_mask_write_hreg_def range_is_valid_def mb_defs not_less not_le)
  then show ?thesis
    by (intro exI [of _ ?v] exI conjI) (auto simp: bit_simps)
qed

end
