(* ===== verification/Mbtcp.thy ===== *)
theory Mbtcp
  imports Pdu
begin

text \<open>
  The Modbus TCP framing of modbus_protocol.c: \<open>mbtcp_process_adu\<close> checks the MBAP header,
  runs the PDU server and wraps its response. Results below zero are the C error codes.
\<close>

abbreviation (input) MBTCP_MBAP_HEADER_SIZE :: nat where "MBTCP_MBAP_HEADER_SIZE \<equiv> 7"
abbreviation (input) MODBUS_TCP_ADU_MAX_SIZE :: nat where "MODBUS_TCP_ADU_MAX_SIZE \<equiv> 260"

definition mbtcp_process_adu ::
  "mei_call \<Rightarrow> mb_state \<Rightarrow> bytes option \<Rightarrow> nat option \<Rightarrow> (int + bytes) \<times> mb_state" where
  "mbtcp_process_adu call s request capacity =
     (case (request, capacity) of
        (Some req, Some cap) \<Rightarrow>
          if length req < MBTCP_MBAP_HEADER_SIZE + 1 \<or> length req > MODBUS_TCP_ADU_MAX_SIZE
          then (Inl (- 2), s)
          else if req ! 2 \<noteq> 0 \<or> req ! 3 \<noteq> 0 then (Inl (- 3), s)
          else
            let length_field = read_be16 req 4; expected_len = 6 + unat length_field in
            if length_field < 2 \<or> expected_len \<noteq> length req then (Inl (- 4), s)
            else if cap < MBTCP_MBAP_HEADER_SIZE + 2 then (Inl (- 5), s)
            else (case mb_process_pdu call s (Some (drop 7 req)) (Some (cap - MBTCP_MBAP_HEADER_SIZE)) of
                (Inl _, s') \<Rightarrow> (Inl (- 6), s')
              | (Inr pdu, s') \<Rightarrow>
                  (Inr (take 4 req @ write_be16 (of_nat (1 + length pdu)) @ [req ! 6] @ pdu), s'))
      | _ \<Rightarrow> (Inl (- 1), s))"

text \<open>A request with a consistent header, as a client builds it.\<close>

definition mbap_frame :: "u16 \<Rightarrow> u8 \<Rightarrow> bytes \<Rightarrow> bytes" where
  "mbap_frame tid unit_id pdu =
     write_be16 tid @ [0, 0] @ write_be16 (of_nat (1 + length pdu)) @ [unit_id] @ pdu"

lemma mbap_frame_fields:
  assumes "length pdu < 65535"
  shows "length (mbap_frame tid unit_id pdu) = 7 + length pdu"
    "mbap_frame tid unit_id pdu ! 2 = 0" "mbap_frame tid unit_id pdu ! 3 = 0"
    "read_be16 (mbap_frame tid unit_id pdu) 4 = of_nat (1 + length pdu)"
    "unat (read_be16 (mbap_frame tid unit_id pdu) 4) = 1 + length pdu"
    "mbap_frame tid unit_id pdu ! 6 = unit_id" "drop 7 (mbap_frame tid unit_id pdu) = pdu"
    "take 4 (mbap_frame tid unit_id pdu) = write_be16 tid @ [0, 0]"
proof -
  show len: "read_be16 (mbap_frame tid unit_id pdu) 4 = of_nat (1 + length pdu)"
    by (simp add: mbap_frame_def)
  show "unat (read_be16 (mbap_frame tid unit_id pdu) 4) = 1 + length pdu"
    unfolding len using assms by (intro unat_of_nat_u16) simp
  show "mbap_frame tid unit_id pdu ! 2 = 0" "mbap_frame tid unit_id pdu ! 3 = 0"
    "mbap_frame tid unit_id pdu ! 6 = unit_id" "drop 7 (mbap_frame tid unit_id pdu) = pdu"
    "take 4 (mbap_frame tid unit_id pdu) = write_be16 tid @ [0, 0]"
    by (simp_all add: mbap_frame_def write_be16_def)
qed (simp add: mbap_frame_def)

lemma mbtcp_answers:
  assumes "mb_wf s" "pdu \<noteq> []" "length pdu \<le> 253" "9 \<le> cap"
  shows "\<exists>rsp s'. mb_process_pdu call s (Some pdu) (Some (cap - 7)) = (Inr rsp, s') \<and>
    mbtcp_process_adu call s (Some (mbap_frame tid unit_id pdu)) (Some cap) =
      (Inr (mbap_frame tid unit_id rsp), s') \<and>
    mb_wf s' \<and> length (mbap_frame tid unit_id rsp) \<le> min cap 260"
proof -
  obtain rsp s' where r: "mb_process_pdu call s (Some pdu) (Some (cap - 7)) = (Inr rsp, s')"
    "mb_wf s'" "2 \<le> length rsp" "length rsp \<le> min (cap - 7) 253"
    using pdu.answers [OF assms(1-3), of "cap - 7" call] assms(4) by fastforce
  note f = mbap_frame_fields [of pdu tid unit_id]
  have lf: "\<not> read_be16 (mbap_frame tid unit_id pdu) 4 < 2"
    using f(5) assms(2,3) by (cases pdu) (auto simp: word_less_nat_alt)
  have "mbtcp_process_adu call s (Some (mbap_frame tid unit_id pdu)) (Some cap) =
      (Inr (mbap_frame tid unit_id rsp), s')"
    using r(1) f lf assms(2-4)
    by (cases pdu) (simp_all add: mbtcp_process_adu_def Let_def mbap_frame_def [of _ _ rsp])
  moreover have "length (mbap_frame tid unit_id rsp) = 7 + length rsp"
    using r(4) by (intro mbap_frame_fields(1)) simp
  ultimately show ?thesis using r assms(4) by auto
qed

text \<open>
  Every well-framed TCP request is answered with its own transaction and unit
  identifier: on a well-formed state, a request frame around a PDU of legal size gives the
  frame around the response of the PDU server, whose length field is right and which fits
  the ADU limit.
\<close>

lemma mbtcp_frame_answered:
  assumes "mb_wf s" "pdu \<noteq> []" "length pdu \<le> 253" "9 \<le> cap"
  shows "\<exists>rsp s'. mb_process_pdu call s (Some pdu) (Some (cap - 7)) = (Inr rsp, s') \<and>
    mbtcp_process_adu call s (Some (mbap_frame tid unit_id pdu)) (Some cap) =
      (Inr (mbap_frame tid unit_id rsp), s') \<and>
    mb_wf s' \<and> length (mbap_frame tid unit_id rsp) \<le> min cap 260"
  using mbtcp_answers [OF assms] .

text \<open>
  C40. A TCP frame that is refused leaves the server untouched: every negative result,
  whatever the bytes, comes with the state unchanged, and a result is negative exactly when
  a pointer is missing, the frame is too short or too long, its protocol identifier is not
  zero, its length field does not match, or the response buffer cannot hold an exception.
\<close>

theorem mbtcp_refusal:
  assumes "mb_wf s"
  shows "((\<exists>c. fst (mbtcp_process_adu call s (Some req) (Some cap)) = Inl c) \<longleftrightarrow>
      length req < 8 \<or> length req > 260 \<or> req ! 2 \<noteq> 0 \<or> req ! 3 \<noteq> 0 \<or>
      6 + unat (read_be16 req 4) \<noteq> length req \<or> cap < 9) \<and>
    (\<forall>c s'. mbtcp_process_adu call s (Some req) (Some cap) = (Inl c, s') \<longrightarrow> s' = s)"
proof (cases "length req < 8 \<or> length req > 260 \<or> req ! 2 \<noteq> 0 \<or> req ! 3 \<noteq> 0 \<or>
      6 + unat (read_be16 req 4) \<noteq> length req \<or> cap < 9")
  case True
  then show ?thesis by (auto simp: mbtcp_process_adu_def Let_def)
next
  case False
  then obtain rsp s' where "mb_process_pdu call s (Some (drop 7 req)) (Some (cap - 7)) = (Inr rsp, s')"
    using pdu.answers [OF assms, of "drop 7 req" "cap - 7" call] by fastforce
  moreover have "\<not> read_be16 req 4 < 2" using False by (auto simp: word_less_nat_alt)
  ultimately show ?thesis using False by (auto simp: mbtcp_process_adu_def Let_def)
qed

theorem mbtcp_refusal_witness:
  "mbtcp_process_adu demo_call demo_state (Some [0, 1, 0, 9, 0, 2, 17, 3]) (Some 260) = (Inl (- 3), demo_state) \<and>
   (\<exists>c. fst (mbtcp_process_adu demo_call demo_state (Some [0, 1, 0, 9, 0, 2, 17, 3]) (Some 260)) = Inl c)"
  using mbtcp_refusal [OF demo_state_wf, of demo_call "[0, 1, 0, 9, 0, 2, 17, 3]" 260]
  by (simp add: mbtcp_process_adu_def)

end
