(* ===== verification/Tcp_Server.thy ===== *)
theory Tcp_Server
  imports Mbtcp
begin

text \<open>
  The lwIP transport of modbus_tcp.c: the client table, the stream reassembly with its
  bounded receive buffer, and the callbacks. lwIP itself is not part of the sources: every
  call the code makes is recorded as an event, and what lwIP answers is a parameter
  \<open>lwip\<close>, a record of functions of the calls made so far. A receive buffer with its
  \<open>rx_count\<close> is the list of buffered bytes. \<open>err_t\<close> values other than the two the code
  names are \<open>ERR_OTHER\<close>.
\<close>

datatype tcp_event =
  Tcp_Bind nat | Tcp_Listen nat | Tcp_Accept nat
| Tcp_Callbacks nat nat | Tcp_No_Callbacks nat
| Tcp_Write nat bytes | Tcp_Output nat | Tcp_Recved nat nat
| Tcp_Close nat | Tcp_Abort nat

record lwip =
  tcp_new_ip_type :: "tcp_event list \<Rightarrow> nat option"
  tcp_listen_with_backlog :: "tcp_event list \<Rightarrow> nat \<Rightarrow> nat option"
  tcp_call_ok :: "tcp_event list \<Rightarrow> tcp_event \<Rightarrow> bool"

datatype err = ERR_OK | ERR_ABRT | ERR_ARG | ERR_OTHER int

record mb_client =
  pcb :: "nat option"
  rx_buffer :: bytes

record tcp_server =
  listen_pcb :: "nat option"
  clients :: "mb_client list"
  tcp_log :: "tcp_event list"
  mb :: mb_state

section \<open>Stream reassembly\<close>

datatype frame_state = Frame_Incomplete | Frame_Invalid | Frame_Expected nat

definition expected_adu_size :: "bytes \<Rightarrow> frame_state" where
  "expected_adu_size buf =
     (if length buf < MBTCP_MBAP_HEADER_SIZE then Frame_Incomplete
      else let length_field = read_be16 buf 4 in
        if length_field < 2 \<or> 6 + unat length_field > MODBUS_TCP_ADU_MAX_SIZE then Frame_Invalid
        else Frame_Expected (6 + unat length_field))"

text \<open>
  \<open>process_buffered_frames\<close>: \<open>rx\<close> is the buffer, \<open>p\<close> the connection. The result says
  whether the function returned 0 and gives the buffer, the log and the server state.
\<close>

function process_buffered_frames ::
  "lwip \<Rightarrow> mei_call \<Rightarrow> nat \<Rightarrow> bytes \<Rightarrow> tcp_event list \<Rightarrow> mb_state \<Rightarrow>
   bool \<times> bytes \<times> tcp_event list \<times> mb_state" where
  "process_buffered_frames net call p rx lg s =
     (case expected_adu_size rx of
        Frame_Invalid \<Rightarrow> (False, rx, lg, s)
      | Frame_Incomplete \<Rightarrow> (True, rx, lg, s)
      | Frame_Expected n \<Rightarrow>
          if length rx < n then (True, rx, lg, s)
          else (case mbtcp_process_adu call s (Some (take n rx)) (Some MODBUS_TCP_ADU_MAX_SIZE) of
              (Inl _, s') \<Rightarrow> (False, rx, lg, s')
            | (Inr rsp, s') \<Rightarrow>
                let w = Tcp_Write p rsp; lg' = lg @ [w] in
                if \<not> tcp_call_ok net lg w then (False, rx, lg', s')
                else process_buffered_frames net call p (drop n rx) (lg' @ [Tcp_Output p]) s'))"
  by pat_completeness auto

lemma expected_adu_size_pos: "expected_adu_size buf = Frame_Expected n \<Longrightarrow> 8 \<le> n \<and> n \<le> 260"
  by (auto simp: expected_adu_size_def Let_def word_less_nat_alt split: if_splits)

termination process_buffered_frames
  by (relation "measure (\<lambda>(net, call, p, rx, lg, s). length rx)")
    (auto dest!: expected_adu_size_pos)

declare process_buffered_frames.simps [simp del]

text \<open>
  \<open>feed_received_bytes\<close>. The buffer never holds more than its 260 bytes, so that the full
  test \<open>rx_count == sizeof(rx_buffer)\<close> is written with \<open>\<ge>\<close>, which also makes the recursion
  total.
\<close>

function feed_received_bytes ::
  "lwip \<Rightarrow> mei_call \<Rightarrow> nat \<Rightarrow> bytes \<Rightarrow> bytes \<Rightarrow> tcp_event list \<Rightarrow> mb_state \<Rightarrow>
   bool \<times> bytes \<times> tcp_event list \<times> mb_state" where
  "feed_received_bytes net call p data rx lg s =
     (if data = [] then (True, rx, lg, s)
      else
        let (ok, rx, lg, s) =
          (if length rx \<ge> MODBUS_TCP_ADU_MAX_SIZE then process_buffered_frames net call p rx lg s
           else (True, rx, lg, s)) in
        if \<not> ok \<or> length rx \<ge> MODBUS_TCP_ADU_MAX_SIZE then (False, rx, lg, s)
        else
          let copy_length = min (length data) (MODBUS_TCP_ADU_MAX_SIZE - length rx);
              (ok, rx, lg, s) = process_buffered_frames net call p (rx @ take copy_length data) lg s in
          if \<not> ok then (False, rx, lg, s)
          else feed_received_bytes net call p (drop copy_length data) rx lg s)"
  by pat_completeness auto
termination feed_received_bytes
  by (relation "measure (\<lambda>(net, call, p, data, rx, lg, s). length data)") auto

declare feed_received_bytes.simps [simp del]

section \<open>Connections\<close>

definition empty_client :: mb_client where
  "empty_client = \<lparr>pcb = None, rx_buffer = []\<rparr>"

fun allocate_client :: "nat \<Rightarrow> mb_client list \<Rightarrow> nat \<Rightarrow> (nat \<times> mb_client list) option" where
  "allocate_client p [] i = None"
| "allocate_client p (c # cs) i =
     (if pcb c = None then Some (i, \<lparr>pcb = Some p, rx_buffer = []\<rparr> # cs)
      else map_option (\<lambda>(k, cs'). (k, c # cs')) (allocate_client p cs (Suc i)))"

definition release_client :: "nat option \<Rightarrow> tcp_server \<Rightarrow> tcp_server" where
  "release_client client t =
     (case client of None \<Rightarrow> t | Some i \<Rightarrow> t\<lparr>clients := (clients t)[i := empty_client]\<rparr>)"

definition log_event :: "tcp_event \<Rightarrow> tcp_server \<Rightarrow> tcp_server" where
  "log_event e t = t\<lparr>tcp_log := tcp_log t @ [e]\<rparr>"

definition mbtcp_init :: "lwip \<Rightarrow> tcp_server \<Rightarrow> tcp_server" where
  "mbtcp_init net t =
     (let t = t\<lparr>clients := replicate (length (clients t)) empty_client\<rparr> in
      case tcp_new_ip_type net (tcp_log t) of
        None \<Rightarrow> t\<lparr>listen_pcb := None\<rparr>
      | Some p \<Rightarrow>
          let ok = tcp_call_ok net (tcp_log t) (Tcp_Bind p); t = log_event (Tcp_Bind p) t in
          if \<not> ok then (log_event (Tcp_Close p) t)\<lparr>listen_pcb := None\<rparr>
          else
            let l = tcp_listen_with_backlog net (tcp_log t) p; t = log_event (Tcp_Listen p) t in
            case l of
              None \<Rightarrow> (log_event (Tcp_Close p) t)\<lparr>listen_pcb := None\<rparr>
            | Some q \<Rightarrow> log_event (Tcp_Accept q) (t\<lparr>listen_pcb := Some q\<rparr>))"

definition mb_accept :: "nat option \<Rightarrow> err \<Rightarrow> tcp_server \<Rightarrow> err \<times> tcp_server" where
  "mb_accept new_pcb error t =
     (if error \<noteq> ERR_OK \<or> new_pcb = None then (error, t)
      else let p = the new_pcb in
        case allocate_client p (clients t) 0 of
          None \<Rightarrow> (ERR_ABRT, log_event (Tcp_Abort p) t)
        | Some (i, cs) \<Rightarrow> (ERR_OK, log_event (Tcp_Callbacks p i) (t\<lparr>clients := cs\<rparr>)))"

definition mb_connection_error :: "nat option \<Rightarrow> tcp_server \<Rightarrow> tcp_server" where
  "mb_connection_error client t = release_client client t"

text \<open>The loop over the parts of a packet, and the receive callback of client \<open>i\<close>.\<close>

fun feed_parts ::
  "lwip \<Rightarrow> mei_call \<Rightarrow> nat \<Rightarrow> bytes list \<Rightarrow> bytes \<Rightarrow> tcp_event list \<Rightarrow> mb_state \<Rightarrow>
   bool \<times> bytes \<times> tcp_event list \<times> mb_state" where
  "feed_parts net call p [] rx lg s = (True, rx, lg, s)"
| "feed_parts net call p (d # ds) rx lg s =
     (let (ok, rx, lg, s) = feed_received_bytes net call p d rx lg s in
      if \<not> ok then (False, rx, lg, s) else feed_parts net call p ds rx lg s)"

definition mb_receive ::
  "lwip \<Rightarrow> mei_call \<Rightarrow> nat option \<Rightarrow> nat \<Rightarrow> bytes list option \<Rightarrow> err \<Rightarrow> tcp_server \<Rightarrow>
   err \<times> tcp_server" where
  "mb_receive net call client p packet error t =
     (case client of
        None \<Rightarrow> (ERR_ARG, t)
      | Some i \<Rightarrow>
          (case packet of
             None \<Rightarrow>
               let t = release_client (Some i) (log_event (Tcp_No_Callbacks p) t);
                   ok = tcp_call_ok net (tcp_log t) (Tcp_Close p); t = log_event (Tcp_Close p) t in
               if \<not> ok then (ERR_ABRT, log_event (Tcp_Abort p) t) else (ERR_OK, t)
           | Some parts \<Rightarrow>
               if error \<noteq> ERR_OK then (error, t)
               else
                 let (ok, rx, lg, s) = feed_parts net call (the (pcb (clients t ! i))) parts
                        (rx_buffer (clients t ! i)) (tcp_log t) (mb t);
                     t = t\<lparr>clients := (clients t)[i := (clients t ! i)\<lparr>rx_buffer := rx\<rparr>],
                           tcp_log := lg, mb := s\<rparr> in
                 if \<not> ok then (ERR_ABRT, release_client (Some i) (log_event (Tcp_Abort p) t))
                 else (ERR_OK, log_event (Tcp_Recved p (length (concat parts))) t)))"

section \<open>The bounded buffer refines unbounded reassembly\<close>

text \<open>A settled buffer holds no complete frame and no invalid header.\<close>

definition settled :: "bytes \<Rightarrow> bool" where
  "settled rx =
     (case expected_adu_size rx of Frame_Incomplete \<Rightarrow> True | Frame_Invalid \<Rightarrow> False
      | Frame_Expected n \<Rightarrow> length rx < n)"

lemma settled_Nil: "settled []"
  by (simp add: settled_def expected_adu_size_def)

lemma settled_length: "settled rx \<Longrightarrow> length rx < 260"
  using expected_adu_size_pos [of rx]
  by (auto simp: settled_def expected_adu_size_def Let_def split: if_splits frame_state.splits)

lemma settled_frames: "settled rx \<Longrightarrow> process_buffered_frames net call p rx lg s = (True, rx, lg, s)"
  by (auto simp: settled_def process_buffered_frames.simps split: frame_state.splits)

lemma expected_adu_size_append:
  "7 \<le> length rx \<Longrightarrow> expected_adu_size (rx @ ys) = expected_adu_size rx"
  by (simp add: expected_adu_size_def read_be16_append)

lemma expected_known: "expected_adu_size rx \<noteq> Frame_Incomplete \<Longrightarrow> 7 \<le> length rx"
  by (rule ccontr) (simp add: expected_adu_size_def)

lemma process_frames_step:
  assumes "expected_adu_size rx = Frame_Expected n" "\<not> length rx < n"
    "mbtcp_process_adu call s (Some (take n rx)) (Some 260) = (Inr rsp, s')"
  shows "process_buffered_frames net call p rx lg s =
    (if tcp_call_ok net lg (Tcp_Write p rsp)
     then process_buffered_frames net call p (drop n rx) (lg @ [Tcp_Write p rsp, Tcp_Output p]) s'
     else (False, rx, lg @ [Tcp_Write p rsp], s'))"
  using assms by (simp add: process_buffered_frames.simps [of net call p rx] Let_def)

lemma process_frames_settled:
  "process_buffered_frames net call p rx lg s = (True, r, lg', s') \<Longrightarrow> settled r"
proof (induction net call p rx lg s rule: process_buffered_frames.induct)
  case (1 net call p rx lg s)
  note unfold = process_buffered_frames.simps [of net call p rx lg s]
  show ?case
  proof (cases "settled rx")
    case True
    then show ?thesis using "1.prems" settled_frames by simp
  next
    case False
    with "1.prems" obtain n where n: "expected_adu_size rx = Frame_Expected n" "\<not> length rx < n"
      by (auto simp: settled_def unfold split: frame_state.splits)
    from "1.prems" n obtain rsp t where
      adu: "mbtcp_process_adu call s (Some (take n rx)) (Some 260) = (Inr rsp, t)"
      by (auto simp: unfold split: prod.splits sum.splits)
    have ok: "tcp_call_ok net lg (Tcp_Write p rsp)"
      using "1.prems" unfolding process_frames_step [OF n adu] by (simp split: if_splits)
    show ?thesis
      using "1.prems" "1.IH" [OF n adu [symmetric] refl refl refl] ok
      unfolding process_frames_step [OF n adu] by simp
  qed
qed

text \<open>One frame at the head of the buffer is processed alike whatever follows it.\<close>

lemma process_frames_append:
  "(case process_buffered_frames net call p rx lg s of
      (True, r, lg', s') \<Rightarrow>
        process_buffered_frames net call p (rx @ ys) lg s =
        process_buffered_frames net call p (r @ ys) lg' s'
    | (False, r, lg', s') \<Rightarrow>
        \<exists>r'. process_buffered_frames net call p (rx @ ys) lg s = (False, r', lg', s'))"
proof (induction net call p rx lg s rule: process_buffered_frames.induct)
  case (1 net call p rx lg s)
  note unfold = process_buffered_frames.simps [of net call p]
  show ?case
  proof (cases "expected_adu_size rx")
    case Frame_Incomplete
    then show ?thesis by (simp add: unfold [of rx])
  next
    case Frame_Invalid
    then show ?thesis
      using expected_adu_size_append [OF expected_known, of rx ys]
      by (simp add: unfold [of rx] unfold [of "rx @ ys"])
  next
    case (Frame_Expected n)
    then have same: "expected_adu_size (rx @ ys) = Frame_Expected n"
      using expected_adu_size_append [OF expected_known, of rx ys] by simp
    show ?thesis
    proof (cases "length rx < n")
      case True
      then show ?thesis by (simp add: unfold [of rx] Frame_Expected)
    next
      case False
      then have cut: "take n (rx @ ys) = take n rx" "drop n (rx @ ys) = drop n rx @ ys" by simp_all
      obtain r s' where adu: "mbtcp_process_adu call s (Some (take n rx)) (Some 260) = (r, s')"
        by fastforce
      show ?thesis
      proof (cases r)
        case (Inl c)
        then show ?thesis
          using False by (simp add: unfold [of rx] unfold [of "rx @ ys"] Frame_Expected same cut adu)
      next
        case (Inr rsp)
        note IH = "1.IH" [OF Frame_Expected False adu [symmetric] Inr refl refl,
            unfolded append_assoc append_Cons append_Nil]
        note here = process_frames_step [OF Frame_Expected False adu [unfolded Inr], of net p lg]
        have there: "process_buffered_frames net call p (rx @ ys) lg s =
          (if tcp_call_ok net lg (Tcp_Write p rsp)
           then process_buffered_frames net call p (drop n rx @ ys) (lg @ [Tcp_Write p rsp, Tcp_Output p]) s'
           else (False, rx @ ys, lg @ [Tcp_Write p rsp], s'))"
          using process_frames_step [OF same, of call s rsp s' net p lg] False adu Inr cut by simp
        show ?thesis unfolding here there using IH by (simp add: Let_def)
      qed
    qed
  qed
qed

text \<open>
  The observable outcome of a feed: success, the log, the server state, and on success the
  buffer (after a failure the connection is dropped and its buffer discarded).
\<close>

definition outcome :: "bool \<times> bytes \<times> tcp_event list \<times> mb_state \<Rightarrow> bool \<times> bytes \<times> tcp_event list \<times> mb_state" where
  "outcome x = (case x of (ok, rx, lg, s) \<Rightarrow> (ok, if ok then rx else [], lg, s))"

lemma outcome_append_ok:
  "process_buffered_frames net call p rx lg s = (True, r, lg', s') \<Longrightarrow>
   process_buffered_frames net call p (rx @ ys) lg s =
   process_buffered_frames net call p (r @ ys) lg' s'"
  using process_frames_append [where net = net and call = call and p = p and rx = rx and lg = lg and s = s and ys = ys] by simp

lemma outcome_append_fail:
  "process_buffered_frames net call p rx lg s = (False, r, lg', s') \<Longrightarrow>
   outcome (process_buffered_frames net call p (rx @ ys) lg s) = (False, [], lg', s')"
  using process_frames_append [where net = net and call = call and p = p and rx = rx and lg = lg and s = s and ys = ys] by (auto simp: outcome_def)

lemma feed_outcome:
  "settled rx \<Longrightarrow> outcome (feed_received_bytes net call p data rx lg s) =
   outcome (process_buffered_frames net call p (rx @ data) lg s)"
proof (induction "length data" arbitrary: data rx lg s rule: less_induct)
  case less
  note room = settled_length [OF less.prems]
  show ?case
  proof (cases "data = []")
    case True
    then show ?thesis by (simp add: feed_received_bytes.simps settled_frames [OF less.prems])
  next
    case False
    let ?n = "min (length data) (260 - length rx)"
    obtain ok r lg' s' where f: "process_buffered_frames net call p (rx @ take ?n data) lg s = (ok, r, lg', s')"
      by (metis prod.exhaust)
    have split: "rx @ data = (rx @ take ?n data) @ drop ?n data" by simp
    have step: "feed_received_bytes net call p data rx lg s =
      (if ok then feed_received_bytes net call p (drop ?n data) r lg' s' else (False, r, lg', s'))"
      using False room f by (simp add: feed_received_bytes.simps [of net call p data rx] not_le)
    show ?thesis
    proof (cases ok)
      case True
      have "length (drop ?n data) < length data" using False room by simp
      then have "outcome (feed_received_bytes net call p (drop ?n data) r lg' s') =
          outcome (process_buffered_frames net call p (r @ drop ?n data) lg' s')"
        using process_frames_settled [of net call p _ lg s r lg' s'] f True
        by (intro less.hyps) simp_all
      moreover have "process_buffered_frames net call p ((rx @ take ?n data) @ drop ?n data) lg s =
          process_buffered_frames net call p (r @ drop ?n data) lg' s'"
        using f True by (intro outcome_append_ok) simp
      ultimately show ?thesis unfolding split step using True by simp
    next
      case fail: False
      then have "outcome (process_buffered_frames net call p ((rx @ take ?n data) @ drop ?n data) lg s) =
          (False, [], lg', s')"
        using f by (intro outcome_append_fail) simp
      with fail show ?thesis unfolding split step by (simp add: outcome_def)
    qed
  qed
qed

lemma outcome_ok: "outcome x = (True, r, lg, s) \<longleftrightarrow> x = (True, r, lg, s)"
  by (auto simp: outcome_def split: prod.splits if_splits)

lemma feed_ok_settled:
  assumes "settled rx" "feed_received_bytes net call p data rx lg s = (True, r, lg', s')"
  shows "settled r \<and> process_buffered_frames net call p (rx @ data) lg s = (True, r, lg', s')"
proof -
  have "outcome (process_buffered_frames net call p (rx @ data) lg s) = (True, r, lg', s')"
    using feed_outcome [OF assms(1), of net call p data lg s] assms(2) by (simp add: outcome_def)
  then show ?thesis using process_frames_settled by (auto simp: outcome_ok)
qed

lemma feed_parts_outcome:
  "settled rx \<Longrightarrow> outcome (feed_parts net call p parts rx lg s) =
   outcome (process_buffered_frames net call p (rx @ concat parts) lg s)"
proof (induction parts arbitrary: rx lg s)
  case Nil
  then show ?case by (simp add: settled_frames)
next
  case (Cons d ds)
  obtain ok r lg' s' where f: "feed_received_bytes net call p d rx lg s = (ok, r, lg', s')"
    by (metis prod.exhaust)
  show ?case
  proof (cases ok)
    case True
    with feed_ok_settled [OF Cons.prems, of net call p d lg s] f
    have "settled r" "process_buffered_frames net call p (rx @ d) lg s = (True, r, lg', s')" by auto
    then show ?thesis
      using True f Cons.IH [of r lg' s'] outcome_append_ok [of net call p "rx @ d" lg s r lg' s' "concat ds"]
      by simp
  next
    case False
    with feed_outcome [OF Cons.prems, of net call p d lg s] f
    obtain r' where "process_buffered_frames net call p (rx @ d) lg s = (False, r', lg', s')"
      by (auto simp: outcome_def split: prod.splits)
    then show ?thesis
      using False f outcome_append_fail [of net call p "rx @ d" lg s r' lg' s' "concat ds"]
      by (simp add: outcome_def)
  qed
qed

text \<open>
  C33. The 260-byte receive buffer loses nothing: feeding a packet that arrives in any number
  of parts of any sizes to a settled connection has the same outcome (success, responses
  written, server state, bytes left over) as processing the whole stream at once in a
  buffer without a bound. In particular the outcome does not depend on how TCP cut the
  stream.
\<close>

theorem feed_independent_of_segmentation:
  assumes "settled rx"
  shows "outcome (feed_parts net call p parts rx lg s) =
      outcome (process_buffered_frames net call p (rx @ concat parts) lg s) \<and>
    (concat parts' = concat parts \<longrightarrow>
      outcome (feed_parts net call p parts' rx lg s) = outcome (feed_parts net call p parts rx lg s))"
  using feed_parts_outcome [OF assms] by simp

definition demo_net :: lwip where
  "demo_net = \<lparr>tcp_new_ip_type = (\<lambda>_. Some 1), tcp_listen_with_backlog = (\<lambda>_ p. Some p),
     tcp_call_ok = (\<lambda>_ _. True)\<rparr>"

theorem feed_independent_of_segmentation_witness:
  "outcome (feed_parts demo_net demo_call 7 [[0, 1, 0], [0, 0], [6, 1, 3, 0, 0, 0, 1]] [] [] demo_state) =
   outcome (feed_parts demo_net demo_call 7 [[0, 1, 0, 0, 0, 6, 1, 3, 0, 0, 0, 1]] [] [] demo_state)"
  using feed_independent_of_segmentation [OF settled_Nil, of demo_net demo_call 7
      "[[0, 1, 0, 0, 0, 6, 1, 3, 0, 0, 0, 1]]" "[]" demo_state "[[0, 1, 0], [0, 0], [6, 1, 3, 0, 0, 0, 1]]"]
  by simp

section \<open>Pipelined requests\<close>

text \<open>The responses of a sequence of frames, processed one after another.\<close>

fun serve_all :: "mei_call \<Rightarrow> mb_state \<Rightarrow> (u16 \<times> u8 \<times> bytes) list \<Rightarrow> bytes list \<times> mb_state" where
  "serve_all call s [] = ([], s)"
| "serve_all call s ((tid, unit_id, pdu) # reqs) =
     (case mb_process_pdu call s (Some pdu) (Some 253) of
        (Inr rsp, s') \<Rightarrow>
          let (rsps, s'') = serve_all call s' reqs in (mbap_frame tid unit_id rsp # rsps, s'')
      | (Inl _, s') \<Rightarrow> ([], s'))"

definition legal_request :: "u16 \<times> u8 \<times> bytes \<Rightarrow> bool" where
  "legal_request r \<longleftrightarrow> snd (snd r) \<noteq> [] \<and> length (snd (snd r)) \<le> 253"

definition frame_of :: "u16 \<times> u8 \<times> bytes \<Rightarrow> bytes" where
  "frame_of r = mbap_frame (fst r) (fst (snd r)) (snd (snd r))"

lemma frame_of_pair: "frame_of (tid, unit_id, pdu) = mbap_frame tid unit_id pdu"
  by (simp add: frame_of_def)

lemma expected_of_frame:
  assumes "pdu \<noteq> []" "length pdu \<le> 253"
  shows "expected_adu_size (mbap_frame tid unit_id pdu @ ys) = Frame_Expected (7 + length pdu)"
proof -
  note f = mbap_frame_fields [of pdu tid unit_id]
  have "read_be16 (mbap_frame tid unit_id pdu @ ys) 4 = read_be16 (mbap_frame tid unit_id pdu) 4"
    using f assms by (intro read_be16_append) simp
  then show ?thesis
    using f assms by (cases pdu) (auto simp: expected_adu_size_def Let_def word_less_nat_alt)
qed

lemma process_frames_pipeline:
  assumes "mb_wf s" "list_all legal_request reqs" "\<And>lg e. tcp_call_ok net lg e"
    "serve_all call s reqs = (rsps, s')"
  shows "process_buffered_frames net call p (concat (map frame_of reqs)) lg s =
      (True, [], lg @ concat (map (\<lambda>r. [Tcp_Write p r, Tcp_Output p]) rsps), s') \<and>
    length rsps = length reqs \<and> mb_wf s'"
  using assms(1,2,4)
proof (induction reqs arbitrary: s lg rsps)
  case Nil
  then show ?case using settled_frames [OF settled_Nil] by simp
next
  case (Cons r reqs)
  obtain tid unit_id pdu where r: "r = (tid, unit_id, pdu)" by (metis prod.exhaust)
  have legal: "pdu \<noteq> []" "length pdu \<le> 253" using Cons.prems(2) r by (simp_all add: legal_request_def)
  obtain rsp t where a: "mb_process_pdu call s (Some pdu) (Some 253) = (Inr rsp, t)"
    "mbtcp_process_adu call s (Some (mbap_frame tid unit_id pdu)) (Some 260) =
      (Inr (mbap_frame tid unit_id rsp), t)" "mb_wf t"
    using mbtcp_answers [OF Cons.prems(1) legal, of 260 call tid unit_id] by auto
  obtain rsps' where rest: "serve_all call t reqs = (rsps', s')" "rsps = mbap_frame tid unit_id rsp # rsps'"
    using Cons.prems(3) a(1) r by (auto split: prod.splits)
  let ?f = "mbap_frame tid unit_id pdu" let ?rest = "concat (map frame_of reqs)"
  have len: "length ?f = 7 + length pdu" using legal by (intro mbap_frame_fields(1)) simp
  have "process_buffered_frames net call p (?f @ ?rest) lg s =
      process_buffered_frames net call p ?rest
        (lg @ [Tcp_Write p (mbap_frame tid unit_id rsp), Tcp_Output p]) t"
    using process_frames_step [OF expected_of_frame [OF legal, where ys = ?rest], where call = call
        and s = s and rsp = "mbap_frame tid unit_id rsp" and s' = t and net = net and p = p and lg = lg]
      a(2) len assms(3) by simp
  then show ?case
    using Cons.IH [OF a(3) _ rest(1)] Cons.prems(2) rest(2) r by (simp add: frame_of_pair)
qed

text \<open>
  C34. Pipelined requests are all answered, in order: when the whole stream of any number of
  legal request frames arrives cut into arbitrary parts, the server writes exactly one
  response per request, in request order and computed on the state its predecessors left,
  and the receive buffer ends empty. It relies on lwIP accepting the writes.
\<close>

theorem pipelined_requests_answered:
  assumes "mb_wf s" "list_all legal_request reqs" "concat parts = concat (map frame_of reqs)"
    "\<And>lg e. tcp_call_ok net lg e" "serve_all call s reqs = (rsps, s')"
  shows "feed_parts net call p parts [] lg s =
      (True, [], lg @ concat (map (\<lambda>r. [Tcp_Write p r, Tcp_Output p]) rsps), s') \<and>
    length rsps = length reqs \<and> mb_wf s'"
proof -
  note pl = process_frames_pipeline [OF assms(1,2,4,5), of p lg]
  then have "outcome (feed_parts net call p parts [] lg s) =
      (True, [], lg @ concat (map (\<lambda>r. [Tcp_Write p r, Tcp_Output p]) rsps), s')"
    using feed_parts_outcome [OF settled_Nil, of net call p parts lg s] assms(3)
    by (simp add: outcome_def)
  with pl show ?thesis by (simp add: outcome_ok)
qed

theorem pipelined_requests_answered_witness:
  "fst (snd (feed_parts demo_net demo_call 7
     [take 5 (frame_of (1, 9, [0x07])), drop 5 (frame_of (1, 9, [0x07])) @ frame_of (2, 9, [0x08])]
     [] [] demo_state)) = []"
proof -
  obtain rsps s' where "serve_all demo_call demo_state [(1, 9, [0x07]), (2, 9, [0x08])] = (rsps, s')"
    by fastforce
  then show ?thesis
    using pipelined_requests_answered [OF demo_state_wf, of "[(1, 9, [0x07]), (2, 9, [0x08])]"
      "[take 5 (frame_of (1, 9, [0x07])), drop 5 (frame_of (1, 9, [0x07])) @ frame_of (2, 9, [0x08])]"
      demo_net demo_call rsps s' 7 "[]"]
    by (simp add: legal_request_def demo_net_def)
qed

section \<open>The client table\<close>

text \<open>
  The invariant between callbacks: the server state is well formed, every connection's
  buffer is settled, and a free slot has an empty buffer.
\<close>

definition tcp_wf :: "tcp_server \<Rightarrow> bool" where
  "tcp_wf t \<longleftrightarrow> mb_wf (mb t) \<and>
     (\<forall>c \<in> set (clients t). settled (rx_buffer c) \<and> (pcb c = None \<longrightarrow> rx_buffer c = []))"

lemma mbtcp_process_wf: "mb_wf s \<Longrightarrow> mb_wf (snd (mbtcp_process_adu call s req cap))"
  by (auto simp: mbtcp_process_adu_def Let_def dest: pdu.inv_process
      split: option.splits prod.splits sum.splits)
    (metis pdu.inv_process snd_conv)+

lemma process_frames_wf:
  "mb_wf s \<Longrightarrow> process_buffered_frames net call p rx lg s = (ok, r, lg', s') \<Longrightarrow> mb_wf s'"
proof (induction net call p rx lg s rule: process_buffered_frames.induct)
  case (1 net call p rx lg s)
  note unfold = process_buffered_frames.simps [of net call p rx lg s]
  show ?case
  proof (cases "\<exists>n. expected_adu_size rx = Frame_Expected n \<and> \<not> length rx < n")
    case True
    then obtain n where n: "expected_adu_size rx = Frame_Expected n" "\<not> length rx < n" by blast
    obtain res t where adu: "mbtcp_process_adu call s (Some (take n rx)) (Some 260) = (res, t)" by fastforce
    then have t: "mb_wf t" using mbtcp_process_wf [OF "1.prems"(1)] by (metis snd_conv)
    show ?thesis
    proof (cases res)
      case (Inl c)
      then show ?thesis using "1.prems"(2) n adu t by (simp add: unfold)
    next
      case (Inr rsp)
      note step = process_frames_step [OF n adu [unfolded Inr], of net p lg]
      show ?thesis
        using "1.prems"(2) t "1.IH" [OF n adu [symmetric] Inr refl refl _ t]
        unfolding step by (auto split: if_splits)
    qed
  next
    case False
    then show ?thesis using "1.prems" by (auto simp: unfold split: frame_state.splits)
  qed
qed

lemma feed_parts_wf:
  assumes "settled rx" "mb_wf s" "feed_parts net call p parts rx lg s = (ok, r, lg', s')"
  shows "mb_wf s' \<and> (ok \<longrightarrow> settled r)"
proof -
  obtain ok2 r2 lg2 s2 where f: "process_buffered_frames net call p (rx @ concat parts) lg s = (ok2, r2, lg2, s2)"
    by (metis prod.exhaust)
  have "outcome (ok, r, lg', s') = outcome (ok2, r2, lg2, s2)"
    using feed_parts_outcome [OF assms(1), of net call p parts lg s] f assms(3) by simp
  then have "s' = s2" "ok = ok2" "ok \<longrightarrow> r = r2" by (auto simp: outcome_def)
  then show ?thesis using process_frames_wf [OF assms(2) f] process_frames_settled f by auto
qed

lemma allocate_client_Some:
  "allocate_client p cs i = Some (k, cs') \<Longrightarrow>
   i \<le> k \<and> k < i + length cs \<and> pcb (cs ! (k - i)) = None \<and>
   cs' = cs[k - i := \<lparr>pcb = Some p, rx_buffer = []\<rparr>]"
proof (induction cs arbitrary: i k cs')
  case (Cons c cs)
  show ?case
  proof (cases "pcb c = None")
    case True
    then show ?thesis using Cons.prems by auto
  next
    case False
    then obtain cs2 where "allocate_client p cs (Suc i) = Some (k, cs2)" "cs' = c # cs2"
      using Cons.prems by auto
    then have "Suc i \<le> k \<and> k < Suc i + length cs \<and> pcb (cs ! (k - Suc i)) = None \<and>
        cs2 = cs[k - Suc i := \<lparr>pcb = Some p, rx_buffer = []\<rparr>]" "cs' = c # cs2"
      using Cons.IH by blast+
    moreover from this have "k - i = Suc (k - Suc i)" by auto
    ultimately show ?thesis by simp
  qed
qed simp

lemma allocate_client_None: "allocate_client p cs i = None \<longleftrightarrow> (\<forall>c \<in> set cs. pcb c \<noteq> None)"
  by (induction cs arbitrary: i) auto

datatype tcp_callback =
  Cb_Accept "nat option" err | Cb_Error "nat option"
| Cb_Receive "nat option" nat "bytes list option" err

fun tcp_dispatch :: "lwip \<Rightarrow> mei_call \<Rightarrow> tcp_callback \<Rightarrow> tcp_server \<Rightarrow> tcp_server" where
  "tcp_dispatch net call (Cb_Accept p e) t = snd (mb_accept p e t)"
| "tcp_dispatch net call (Cb_Error c) t = mb_connection_error c t"
| "tcp_dispatch net call (Cb_Receive c p pk e) t = snd (mb_receive net call c p pk e t)"

lemma tcp_wf_update:
  assumes "tcp_wf t" "mb_wf s" "settled (rx_buffer c)" "pcb c = None \<longrightarrow> rx_buffer c = []"
  shows "tcp_wf (t\<lparr>clients := (clients t)[i := c], tcp_log := lg, mb := s\<rparr>)"
  using assms set_update_subset_insert [of "clients t" i c] by (auto simp: tcp_wf_def)

lemma tcp_wf_log: "tcp_wf (t\<lparr>tcp_log := lg\<rparr>) = tcp_wf t" "tcp_wf (log_event e t) = tcp_wf t"
  by (simp_all add: tcp_wf_def log_event_def)

lemma tcp_wf_release: "tcp_wf t \<Longrightarrow> tcp_wf (release_client c t)"
  using set_update_subset_insert [of "clients t" "the c" empty_client]
  by (auto simp: tcp_wf_def release_client_def empty_client_def settled_Nil split: option.splits)

lemma tcp_wf_accept:
  assumes "tcp_wf t"
  shows "tcp_wf (snd (mb_accept p e t))"
proof (cases "e \<noteq> ERR_OK \<or> p = None \<or> allocate_client (the p) (clients t) 0 = None")
  case True
  then show ?thesis using assms by (auto simp: mb_accept_def Let_def tcp_wf_log)
next
  case False
  then obtain i cs where a: "allocate_client (the p) (clients t) 0 = Some (i, cs)" by auto
  have "tcp_wf (t\<lparr>clients := cs\<rparr>)"
    using allocate_client_Some [OF a] assms
      set_update_subset_insert [of "clients t" i "\<lparr>pcb = Some (the p), rx_buffer = []\<rparr>"]
    by (auto simp: tcp_wf_def settled_Nil)
  then show ?thesis using False a by (auto simp: mb_accept_def Let_def tcp_wf_log)
qed

lemma tcp_wf_receive:
  assumes "tcp_wf t" "\<And>i. c = Some i \<Longrightarrow> i < length (clients t) \<and> pcb (clients t ! i) \<noteq> None"
  shows "tcp_wf (snd (mb_receive net call c p pk e t))"
proof (cases "c = None \<or> pk = None \<or> e \<noteq> ERR_OK")
  case True
  then show ?thesis
    using assms(1) by (auto simp: mb_receive_def Let_def tcp_wf_log tcp_wf_release split: option.splits)
next
  case False
  then obtain i parts where [simp]: "c = Some i" "pk = Some parts" "e = ERR_OK" by auto
  let ?c = "clients t ! i"
  have c: "?c \<in> set (clients t)" "pcb ?c \<noteq> None" using assms(2) by auto
  obtain ok rx lg s where f: "feed_parts net call (the (pcb ?c)) parts (rx_buffer ?c) (tcp_log t) (mb t) =
      (ok, rx, lg, s)" by (metis prod.exhaust)
  have wf: "mb_wf s" "ok \<longrightarrow> settled rx"
    using feed_parts_wf [OF _ _ f] assms(1) c(1) by (auto simp: tcp_wf_def)
  have idem: "(clients t)[i := x, i := y] = (clients t)[i := y]" for x y by simp
  show ?thesis
  proof (cases ok)
    case True
    then have "tcp_wf (t\<lparr>clients := (clients t)[i := ?c\<lparr>rx_buffer := rx\<rparr>], tcp_log := lg, mb := s\<rparr>)"
      using wf c(2) by (intro tcp_wf_update [OF assms(1)]) auto
    then show ?thesis using True f by (simp add: mb_receive_def tcp_wf_log)
  next
    case False
    have "tcp_wf (t\<lparr>clients := (clients t)[i := empty_client], tcp_log := lg @ [Tcp_Abort p], mb := s\<rparr>)"
      using wf by (intro tcp_wf_update [OF assms(1)]) (auto simp: empty_client_def settled_Nil)
    then show ?thesis
      using False f by (simp add: mb_receive_def release_client_def log_event_def tcp_wf_def)
  qed
qed

text \<open>
  C39. The connection table keeps its invariant under every callback: after an accept, a
  connection error or a receive (data, close or failure) on a live client, the server state
  is well formed, every buffered remainder is shorter than a full ADU and holds no complete
  frame, free slots are empty, and the table keeps its size.
\<close>

theorem tcp_callbacks_keep_invariant:
  assumes "tcp_wf t"
    "\<And>i p pk e. cb = Cb_Receive (Some i) p pk e \<Longrightarrow> i < length (clients t) \<and> pcb (clients t ! i) \<noteq> None"
  shows "tcp_wf (tcp_dispatch net call cb t) \<and>
    length (clients (tcp_dispatch net call cb t)) = length (clients t)"
proof -
  have "tcp_wf (tcp_dispatch net call cb t)"
    using assms tcp_wf_accept tcp_wf_release tcp_wf_receive
    by (cases cb) (auto simp: mb_connection_error_def)
  moreover have "length (clients (tcp_dispatch net call cb t)) = length (clients t)"
    by (cases cb) (auto simp: mb_connection_error_def mb_accept_def mb_receive_def Let_def
        release_client_def log_event_def dest: allocate_client_Some split: option.splits prod.splits)
  ultimately show ?thesis ..
qed

definition demo_tcp :: tcp_server where
  "demo_tcp = \<lparr>listen_pcb = Some 1, clients = [\<lparr>pcb = Some 7, rx_buffer = []\<rparr>, empty_client, empty_client],
     tcp_log = [], mb = demo_state\<rparr>"

theorem tcp_callbacks_keep_invariant_witness:
  "tcp_wf (tcp_dispatch demo_net demo_call (Cb_Receive (Some 0) 7 (Some [[0, 1], [0]]) ERR_OK) demo_tcp) \<and>
   length (clients (tcp_dispatch demo_net demo_call (Cb_Receive (Some 0) 7 (Some [[0, 1], [0]]) ERR_OK) demo_tcp))
     = length (clients demo_tcp)"
proof (rule tcp_callbacks_keep_invariant)
  show "tcp_wf demo_tcp"
    by (simp add: tcp_wf_def demo_tcp_def empty_client_def settled_Nil demo_state_wf)
qed (simp add: demo_tcp_def)

end
