(* ===== verification/Posix_Server.thy ===== *)
theory Posix_Server
  imports Tcp_Server
begin

text \<open>
  The client loop of the POSIX demo server, Examples/posix_server.c. The sockets are parameters:
  \<open>recv_result list\<close> says what the coming \<open>recv\<close> calls meet (bytes in the socket, of which a
  call takes as many as there is room for; the end of the stream; \<open>EINTR\<close>; an error), and the
  loop waits when the list is at its end; \<open>send_result list\<close> lists the irregular results of the
  coming \<open>send\<close> calls (partial, interrupted, failed), after which the socket takes everything.
  \<open>keep k\<close> is \<open>keep_running\<close> at the k-th turn of the loop. The bytes sent are the output.
\<close>

datatype send_result = Sent nat | Send_Interrupted | Send_Failed

datatype recv_result = Received bytes | Recv_Interrupted | Recv_Failed

datatype client_end = Client_Waiting | Client_Return_0 | Client_Return_Error

fun send_all :: "send_result list \<Rightarrow> bytes \<Rightarrow> bool \<times> bytes \<times> send_result list" where
  "send_all sends [] = (True, [], sends)"
| "send_all [] data = (True, data, [])"
| "send_all (Sent n # sends) data =
     (let (ok, out, rest) = send_all sends (drop n data) in (ok, take n data @ out, rest))"
| "send_all (Send_Interrupted # sends) data = send_all sends data"
| "send_all (Send_Failed # sends) data = (False, [], sends)"

text \<open>The inner loop: \<open>False\<close> is the return of -1; otherwise the loop was left by a break.\<close>

function client_frames ::
  "mei_call \<Rightarrow> bytes \<Rightarrow> send_result list \<Rightarrow> mb_state \<Rightarrow> bool \<times> bytes \<times> send_result list \<times> bytes \<times> mb_state" where
  "client_frames call buffer sends s =
     (if length buffer < MBTCP_MBAP_HEADER_SIZE then (True, buffer, sends, [], s)
      else
        let length_field = read_be16 buffer 4; expected = 6 + unat length_field in
        if length_field < 2 \<or> expected > MODBUS_TCP_ADU_MAX_SIZE then (False, buffer, sends, [], s)
        else if length buffer < expected then (True, buffer, sends, [], s)
        else (case mbtcp_process_adu call s (Some (take expected buffer)) (Some MODBUS_TCP_ADU_MAX_SIZE) of
            (Inl _, s) \<Rightarrow> (False, buffer, sends, [], s)
          | (Inr response, s) \<Rightarrow>
              let (ok, out, sends) = send_all sends response in
              if \<not> ok then (False, buffer, sends, out, s)
              else
                let (ok, buffer, sends, more, s) = client_frames call (drop expected buffer) sends s in
                (ok, buffer, sends, out @ more, s)))"
  by pat_completeness auto
termination client_frames
  by (relation "measure (\<lambda>(call, buffer, sends, s). length buffer)") (auto simp: word_less_nat_alt not_less)

declare client_frames.simps [simp del]

fun recv_size :: "recv_result \<Rightarrow> nat" where
  "recv_size (Received data) = Suc (length data)"
| "recv_size _ = 1"

function process_client ::
  "mei_call \<Rightarrow> (nat \<Rightarrow> bool) \<Rightarrow> nat \<Rightarrow> recv_result list \<Rightarrow> bytes \<Rightarrow> send_result list \<Rightarrow> mb_state \<Rightarrow>
   client_end \<times> bytes \<times> bytes \<times> mb_state" where
  "process_client call keep k evs buffer sends s =
     (if \<not> keep k then (Client_Return_0, buffer, [], s)
      else case evs of
        [] \<Rightarrow> (Client_Waiting, buffer, [], s)
      | Recv_Interrupted # evs \<Rightarrow> process_client call keep (Suc k) evs buffer sends s
      | Recv_Failed # evs \<Rightarrow> (Client_Return_Error, buffer, [], s)
      | Received data # evs \<Rightarrow>
          let n = min (length data) (MODBUS_TCP_ADU_MAX_SIZE - length buffer) in
          if n = 0 then (Client_Return_0, buffer, [], s)
          else
            let (ok, buffer, sends, out, s) = client_frames call (buffer @ take n data) sends s in
            if \<not> ok \<or> length buffer = MODBUS_TCP_ADU_MAX_SIZE then (Client_Return_Error, buffer, out, s)
            else
              let evs = (if n < length data then Received (drop n data) # evs else evs);
                  (st, buffer, more, s) = process_client call keep (Suc k) evs buffer sends s in
              (st, buffer, out @ more, s))"
  by pat_completeness auto
termination process_client
  by (relation "measure (\<lambda>(call, keep, k, evs, buffer, sends, s). sum_list (map recv_size evs))") auto

declare process_client.simps [simp del]

section \<open>The same responses as the lwIP server\<close>

lemma send_all_sends:
  "Send_Failed \<notin> set sends \<Longrightarrow> \<exists>rest. send_all sends data = (True, data, rest) \<and> set rest \<subseteq> set sends"
  by (induction sends data rule: send_all.induct) (auto simp: Let_def split: prod.splits)

text \<open>What the lwIP server wrote to its connections.\<close>

fun written_bytes :: "tcp_event list \<Rightarrow> bytes" where
  "written_bytes [] = []"
| "written_bytes (Tcp_Write p data # lg) = data @ written_bytes lg"
| "written_bytes (e # lg) = written_bytes lg"

lemma written_append [simp]: "written_bytes (lg @ lg') = written_bytes lg @ written_bytes lg'"
  by (induction lg rule: written_bytes.induct) simp_all

lemma client_frames_agree:
  assumes "Send_Failed \<notin> set sends" "\<And>lg e. tcp_call_ok net lg e"
    "client_frames call buffer sends s = (ok, buffer', sends', out, s')"
  shows "\<exists>lg'. process_buffered_frames net call p buffer lg s = (ok, buffer', lg @ lg', s') \<and>
    written_bytes lg' = out \<and> set sends' \<subseteq> set sends"
  using assms
proof (induction "length buffer" arbitrary: buffer sends s lg out ok buffer' sends' s' rule: less_induct)
  case less
  note unfold = client_frames.simps [of call buffer sends s]
  show ?case
  proof (cases "expected_adu_size buffer")
    case Frame_Incomplete
    then have "length buffer < 7" by (auto simp: expected_adu_size_def Let_def split: if_splits)
    with less.prems Frame_Incomplete show ?thesis
      by (intro exI [of _ "[]"]) (simp add: unfold process_buffered_frames.simps)
  next
    case Frame_Invalid
    then have "\<not> length buffer < 7" "read_be16 buffer 4 < 2 \<or> 6 + unat (read_be16 buffer 4) > 260"
      by (auto simp: expected_adu_size_def Let_def split: if_splits)
    with less.prems Frame_Invalid show ?thesis
      by (intro exI [of _ "[]"]) (auto simp: unfold process_buffered_frames.simps Let_def)
  next
    case (Frame_Expected n)
    then have n: "\<not> length buffer < 7" "\<not> (read_be16 buffer 4 < 2 \<or> 6 + unat (read_be16 buffer 4) > 260)"
      "n = 6 + unat (read_be16 buffer 4)"
      by (auto simp: expected_adu_size_def Let_def split: if_splits)
    show ?thesis
    proof (cases "length buffer < n")
      case True
      with less.prems n Frame_Expected show ?thesis
        by (intro exI [of _ "[]"]) (auto simp: unfold process_buffered_frames.simps Let_def)
    next
      case False
      obtain r t where adu: "mbtcp_process_adu call s (Some (take n buffer)) (Some 260) = (r, t)" by fastforce
      show ?thesis
      proof (cases r)
        case (Inl c)
        with less.prems n False adu Frame_Expected show ?thesis
          by (intro exI [of _ "[]"]) (auto simp: unfold process_buffered_frames.simps Let_def)
      next
        case (Inr rsp)
        obtain rest where snd: "send_all sends rsp = (True, rsp, rest)" "set rest \<subseteq> set sends"
          using send_all_sends [OF less.prems(1)] by blast
        obtain more where rec: "client_frames call (drop n buffer) rest t = (ok, buffer', sends', more, s')" "out = rsp @ more"
          using less.prems(3) n False adu Inr snd(1) by (auto simp: unfold Let_def split: prod.splits)
        have "Send_Failed \<notin> set rest" "length (drop n buffer) < length buffer"
          using less.prems(1) snd(2) n by auto
        then obtain lg' where lg': "process_buffered_frames net call p (drop n buffer) ((lg @ [Tcp_Write p rsp, Tcp_Output p])) t =
            (ok, buffer', (lg @ [Tcp_Write p rsp, Tcp_Output p]) @ lg', s')" "written_bytes lg' = more" "set sends' \<subseteq> set rest"
          using less.hyps [of "drop n buffer" rest t ok buffer' sends' more s' "lg @ [Tcp_Write p rsp, Tcp_Output p]"]
            less.prems(2) rec(1) by blast
        with process_frames_step [OF Frame_Expected False adu [unfolded Inr], of net p lg] less.prems(2) rec(2) snd(2)
        show ?thesis by (intro exI [of _ "[Tcp_Write p rsp, Tcp_Output p] @ lg'"]) auto
      qed
    qed
  qed
qed

text \<open>The stream a list of results of \<open>recv\<close> delivers, and lists without an end or an error.\<close>

fun received_stream :: "recv_result list \<Rightarrow> bytes" where
  "received_stream [] = []"
| "received_stream (Received data # evs) = data @ received_stream evs"
| "received_stream (e # evs) = received_stream evs"

definition stream_goes_on :: "recv_result list \<Rightarrow> bool" where
  "stream_goes_on evs \<longleftrightarrow> Received [] \<notin> set evs \<and> Recv_Failed \<notin> set evs"

lemma client_agrees:
  assumes "settled buffer" "Send_Failed \<notin> set sends" "stream_goes_on evs" "\<And>i. keep i"
    "\<And>lg e. tcp_call_ok net lg e" "process_client call keep k evs buffer sends s = (st, buffer', out, s')"
  shows "\<exists>lg'. outcome (process_buffered_frames net call p (buffer @ received_stream evs) lg s) =
      (st = Client_Waiting, if st = Client_Waiting then buffer' else [], lg @ lg', s') \<and>
    written_bytes lg' = out \<and> st \<noteq> Client_Return_0 \<and> (st = Client_Waiting \<longrightarrow> settled buffer')"
  using assms(1-3,6)
proof (induction "sum_list (map recv_size evs)" arbitrary: k evs buffer sends s lg out rule: less_induct)
  case less
  show ?case
  proof (cases evs)
    case Nil
    with less.prems assms(4) show ?thesis
      by (intro exI [of _ "[]"]) (simp add: process_client.simps [of call keep k "[]"] settled_frames outcome_def)
  next
    case (Cons e evs')
    note unfold = process_client.simps [of call keep k "x # evs'" buffer sends s for x]
    from Cons have goes: "stream_goes_on evs'" using less.prems(3) by (simp add: stream_goes_on_def)
    show ?thesis
    proof (cases e)
      case (Received data)
      define n where "n = min (length data) (260 - length buffer)"
      have data: "data \<noteq> []" "n \<noteq> 0" "length buffer < 260"
        using less.prems(1,3) settled_length [of buffer] by (auto simp: Cons Received stream_goes_on_def n_def)
      obtain ok b1 sends1 out1 s1 where f: "client_frames call (buffer @ take n data) sends s = (ok, b1, sends1, out1, s1)"
        by (metis prod.exhaust)
      obtain lg1 where lg1: "process_buffered_frames net call p (buffer @ take n data) lg s = (ok, b1, lg @ lg1, s1)"
        "written_bytes lg1 = out1" "set sends1 \<subseteq> set sends"
        using client_frames_agree [OF less.prems(2) assms(5) f] by blast
      have split: "buffer @ received_stream evs = (buffer @ take n data) @ drop n data @ received_stream evs'"
        by (simp add: Cons Received)
      show ?thesis
      proof (cases ok)
        case False
        then have "st = Client_Return_Error \<and> out = out1 \<and> s' = s1"
          using less.prems(4) data(2) f assms(4) unfolding Cons Received by (auto simp: unfold Let_def n_def [symmetric])
        with False lg1 show ?thesis
          unfolding split using outcome_append_fail [OF lg1(1) [unfolded iffD2 [OF eq_False False]]]
          by (intro exI [of _ lg1]) simp
      next
        case True
        define evs1 where "evs1 = (if n < length data then Received (drop n data) # evs' else evs')"
        have run1: "process_buffered_frames net call p (buffer @ take n data) lg s = (True, b1, lg @ lg1, s1)"
          using lg1(1) True by simp
        from process_frames_settled [OF this] have b1: "settled b1" "length b1 \<noteq> 260" using settled_length [of b1] by auto
        obtain more where rec: "process_client call keep (Suc k) evs1 b1 sends1 s1 = (st, buffer', more, s')" "out = out1 @ more"
          using less.prems(4) data(2) f True b1(2) assms(4)
          unfolding Cons Received by (auto simp: unfold Let_def n_def [symmetric] evs1_def [symmetric] split: prod.splits)
        have "sum_list (map recv_size evs1) < sum_list (map recv_size evs)" "stream_goes_on evs1"
          "received_stream evs1 = drop n data @ received_stream evs'" "Send_Failed \<notin> set sends1"
          using data goes lg1(3) less.prems(2) by (auto simp: evs1_def Cons Received stream_goes_on_def)
        from less.hyps [OF this(1) b1(1) this(4,2) rec(1), of "lg @ lg1"] this(3)
        obtain lg2 where lg2: "outcome (process_buffered_frames net call p (b1 @ drop n data @ received_stream evs') (lg @ lg1) s1) =
            (st = Client_Waiting, if st = Client_Waiting then buffer' else [], (lg @ lg1) @ lg2, s')"
          "written_bytes lg2 = more" "st \<noteq> Client_Return_0 \<and> (st = Client_Waiting \<longrightarrow> settled buffer')" by auto
        then show ?thesis
          unfolding split using outcome_append_ok [OF run1] lg1(2) rec(2)
          by (intro exI [of _ "lg1 @ lg2"]) simp
      qed
    next
      case Recv_Interrupted
      have "process_client call keep (Suc k) evs' buffer sends s = (st, buffer', out, s')"
        using less.prems(4) assms(4) by (simp add: unfold Cons Recv_Interrupted)
      with less.hyps [OF _ less.prems(1,2) goes] show ?thesis by (simp add: Cons Recv_Interrupted)
    next
      case Recv_Failed
      then show ?thesis using less.prems(3) by (simp add: Cons stream_goes_on_def)
    qed
  qed
qed

text \<open>
  C35. The POSIX server and the lwIP server answer alike. As long as the stream goes on and no
  send fails, however \<open>recv\<close> cuts the stream, however often calls are interrupted and however
  few bytes each \<open>send\<close> takes: the bytes the POSIX client loop sends, the server state it leaves
  and the bytes it keeps are those of the lwIP server fed with the same stream in any segments;
  it gives up exactly when the lwIP server drops the connection; and it never takes a full
  buffer for the end of the stream.
\<close>

theorem posix_server_agrees:
  assumes "Send_Failed \<notin> set sends" "stream_goes_on evs" "\<And>i. keep i" "\<And>lg e. tcp_call_ok net lg e"
    "concat parts = received_stream evs"
    "process_client call keep 0 evs [] sends s = (st, buffer, out, s')"
    "feed_parts net call p parts [] [] s = (ok, rx, lg, s2)"
  shows "(st = Client_Waiting \<longleftrightarrow> ok) \<and> (st = Client_Return_Error \<longleftrightarrow> \<not> ok) \<and> s' = s2 \<and> out = written_bytes lg \<and>
    (ok \<longrightarrow> buffer = rx)"
proof -
  obtain lg' where "outcome (process_buffered_frames net call p (received_stream evs) [] s) =
      (st = Client_Waiting, if st = Client_Waiting then buffer else [], lg', s')" "written_bytes lg' = out"
    "st \<noteq> Client_Return_0"
    using client_agrees [OF settled_Nil assms(1-4,6), of p "[]"] by auto
  moreover have "outcome (ok, rx, lg, s2) = outcome (process_buffered_frames net call p (received_stream evs) [] s)"
    using feed_parts_outcome [OF settled_Nil, of net call p parts "[]" s] assms(5,7) by simp
  ultimately show ?thesis by (cases st) (auto simp: outcome_def split: if_splits)
qed

theorem posix_server_agrees_witness:
  "fst (process_client demo_call (\<lambda>_. True) 0 [Received (take 5 (frame_of (1, 9, [0x07]))), Recv_Interrupted,
       Received (drop 5 (frame_of (1, 9, [0x07])))] [] [Sent 3, Send_Interrupted, Sent 0] demo_state) = Client_Waiting \<longleftrightarrow>
   fst (feed_parts demo_net demo_call 7 [frame_of (1, 9, [0x07])] [] [] demo_state)"
proof -
  let ?evs = "[Received (take 5 (frame_of (1, 9, [0x07]))), Recv_Interrupted, Received (drop 5 (frame_of (1, 9, [0x07])))]"
  obtain st b out s' where c: "process_client demo_call (\<lambda>_. True) 0 ?evs [] [Sent 3, Send_Interrupted, Sent 0] demo_state =
      (st, b, out, s')" by (metis prod.exhaust)
  obtain ok rx lg s2 where f: "feed_parts demo_net demo_call 7 [frame_of (1, 9, [0x07])] [] [] demo_state = (ok, rx, lg, s2)"
    by (metis prod.exhaust)
  have "length (frame_of (1, 9, [0x07])) = 8" by (simp add: frame_of_def mbap_frame_fields)
  then have "stream_goes_on ?evs" by (simp add: stream_goes_on_def) (auto dest: arg_cong [where f = length])
  from posix_server_agrees [OF _ this _ _ _ c f] c f show ?thesis by (simp add: demo_net_def)
qed

end
