(* ===== verification/Crc16.thy ===== *)
theory Crc16
  imports Bytes
begin

text \<open>
  The serial-line CRC-16 of modbus_crc16.c. The two nested loops are a fold over the data
  and eight iterations of one shift-register step. The lemmas show that the check the
  master makes (the CRC over a whole frame, trailer included, is zero) and the check the
  slave makes (the received trailer equals the CRC of the rest) accept the same frames,
  and that a frame with one corrupted byte is always rejected.
\<close>

definition crc_shift :: "u16 \<Rightarrow> u16" where
  "crc_shift crc = (if crc AND 1 \<noteq> 0 then drop_bit 1 crc XOR 0xA001 else drop_bit 1 crc)"

definition crc_byte :: "u16 \<Rightarrow> u8 \<Rightarrow> u16" where
  "crc_byte crc b = (crc_shift ^^ 8) (crc XOR ucast b)"

definition mb_crc16 :: "bytes \<Rightarrow> u16" where
  "mb_crc16 data = foldl crc_byte 0xFFFF data"

lemma mb_crc16_Nil: "mb_crc16 [] = 0xFFFF"
  by (simp add: mb_crc16_def)

lemma mb_crc16_append: "mb_crc16 (xs @ ys) = foldl crc_byte (mb_crc16 xs) ys"
  by (simp add: mb_crc16_def)

text \<open>Equations that let the simplifier run the CRC on a concrete frame.\<close>

lemma crc_shift_8:
  "(crc_shift ^^ 8) x = crc_shift (crc_shift (crc_shift (crc_shift
     (crc_shift (crc_shift (crc_shift (crc_shift x)))))))"
  by (simp add: eval_nat_numeral)

lemmas crc_eval = mb_crc16_def crc_byte_def crc_shift_8 crc_shift_def

section \<open>The shift register is linear and invertible\<close>

abbreviation crc_shift8 :: "u16 \<Rightarrow> u16" where
  "crc_shift8 \<equiv> crc_shift ^^ 8"

lemma crc_shift_alt: "crc_shift c = drop_bit 1 c XOR (if bit c 0 then 0xA001 else 0)"
  by (simp add: crc_shift_def and_one_eq odd_iff_mod_2_eq_one bit_0)

lemma crc_shift_xor: "crc_shift (x XOR y) = crc_shift x XOR crc_shift y"
  by (auto simp: crc_shift_alt drop_bit_xor bit_xor_iff ac_simps)

lemma crc_shift_zero: "crc_shift 0 = 0"
  by (simp add: crc_shift_alt)

lemma crc_shift_msb: "bit (crc_shift c) 15 \<longleftrightarrow> bit c 0"
proof -
  have "\<not> bit (drop_bit 1 c) 15"
    by (auto simp: bit_simps dest: bit_imp_le_length)
  moreover have "bit (0xA001 :: u16) 15"
    by code_simp
  ultimately show ?thesis
    by (simp add: crc_shift_alt bit_xor_iff)
qed

lemma crc_shift_eq_0: "crc_shift x = 0 \<longleftrightarrow> x = 0"
proof
  assume z: "crc_shift x = 0"
  then have b0: "\<not> bit x 0" using crc_shift_msb [of x] by simp
  with z have d: "drop_bit 1 x = 0" by (simp add: crc_shift_alt)
  show "x = 0"
  proof (rule bit_word_eqI)
    fix n
    show "bit x n \<longleftrightarrow> bit 0 n"
      using b0 arg_cong [OF d, of "\<lambda>w. bit w (n - 1)"] by (cases n) (auto simp: bit_simps)
  qed
qed (simp add: crc_shift_zero)

lemma crc_shift_pow_xor: "(crc_shift ^^ n) (x XOR y) = (crc_shift ^^ n) x XOR (crc_shift ^^ n) y"
  by (induction n) (simp_all add: crc_shift_xor)

lemma crc_shift_pow_eq_0: "(crc_shift ^^ n) x = 0 \<longleftrightarrow> x = 0"
  by (induction n) (simp_all add: crc_shift_eq_0)

lemma crc_shift_pow_inject: "(crc_shift ^^ n) x = (crc_shift ^^ n) y \<longleftrightarrow> x = y"
proof -
  have "(crc_shift ^^ n) x = (crc_shift ^^ n) y \<longleftrightarrow> (crc_shift ^^ n) (x XOR y) = 0"
    by (simp add: crc_shift_pow_xor word_xor_eq_0)
  also have "\<dots> \<longleftrightarrow> x XOR y = 0"
    by (rule crc_shift_pow_eq_0)
  also have "\<dots> \<longleftrightarrow> x = y"
    by (rule word_xor_eq_0)
  finally show ?thesis .
qed

text \<open>Zero bits leave the register by plain shifting.\<close>

lemma crc_shift_pow_low_zero:
  "(\<And>i. i < n \<Longrightarrow> \<not> bit x i) \<Longrightarrow> (crc_shift ^^ n) x = drop_bit n x"
proof (induction n)
  case 0
  then show ?case by simp
next
  case (Suc n)
  then have "(crc_shift ^^ n) x = drop_bit n x" by simp
  moreover have "\<not> bit (drop_bit n x) 0" using Suc.prems [of n] by (simp add: bit_simps)
  ultimately have "(crc_shift ^^ Suc n) x = drop_bit 1 (drop_bit n x)"
    by (simp add: crc_shift_alt [of "drop_bit n x"])
  then show ?case by simp
qed

section \<open>The trailer check\<close>

lemma crc_byte_two:
  "foldl crc_byte c [a, b] = (crc_shift ^^ 16) (c XOR (ucast a OR push_bit 8 (ucast b)))"
proof -
  let ?b = "push_bit 8 (ucast b) :: u16"
  have "crc_shift8 ?b = drop_bit 8 ?b"
    by (rule crc_shift_pow_low_zero) (simp add: bit_simps)
  also have "\<dots> = ucast b"
    by (rule bit_word_eqI) (auto simp: bit_simps dest: bit_imp_le_length)
  finally have b: "ucast b = crc_shift8 ?b" by simp
  have ab: "ucast a OR ?b = ucast a XOR ?b"
    by (rule bit_word_eqI) (auto simp: bit_simps dest: bit_imp_le_length)
  have "foldl crc_byte c [a, b] = crc_shift8 (crc_shift8 (c XOR ucast a) XOR crc_shift8 ?b)"
    using b by (simp add: crc_byte_def)
  also have "\<dots> = crc_shift8 (crc_shift8 ((c XOR ucast a) XOR ?b))"
    by (simp only: crc_shift_pow_xor)
  also have "\<dots> = (crc_shift ^^ (8 + 8)) (c XOR (ucast a OR ?b))"
    by (simp only: funpow_add comp_apply ab xor.assoc)
  finally show ?thesis by simp
qed

lemma crc_trailer_zero:
  "mb_crc16 (xs @ [a, b]) = 0 \<longleftrightarrow> [a, b] = write_crc_le (mb_crc16 xs)"
proof -
  have "mb_crc16 (xs @ [a, b]) = 0 \<longleftrightarrow> mb_crc16 xs XOR read_crc_le [a, b] 0 = 0"
    unfolding mb_crc16_append crc_byte_two crc_shift_pow_eq_0 read_crc_le_def by simp
  also have "\<dots> \<longleftrightarrow> mb_crc16 xs = read_crc_le [a, b] 0"
    by (rule word_xor_eq_0)
  also have "\<dots> \<longleftrightarrow> [a, b] = write_crc_le (mb_crc16 xs)"
    using le.enc_dec [of 0 "[a, b]"] le.dec_enc_front [of "mb_crc16 xs" "[]"] by auto
  finally show ?thesis .
qed

lemma crc_append_zero: "mb_crc16 (xs @ write_crc_le (mb_crc16 xs)) = 0"
  using crc_trailer_zero [of xs "hd (write_crc_le (mb_crc16 xs))"
      "last (write_crc_le (mb_crc16 xs))"]
  by (simp add: write_crc_le_def)

lemma split_trailer:
  assumes "2 \<le> length adu"
  shows "adu = take (length adu - 2) adu @ [adu ! (length adu - 2), adu ! (length adu - 2 + 1)]"
proof -
  have "drop (length adu - 2) adu = [adu ! (length adu - 2), adu ! (length adu - 2 + 1)]"
    using assms by (intro nth_equalityI) (auto simp: less_Suc_eq numeral_2_eq_2 Suc_diff_Suc)
  then show ?thesis by (metis append_take_drop_id)
qed

lemma crc_residue_zero:
  assumes "2 \<le> length adu"
  shows "mb_crc16 adu = 0 \<longleftrightarrow>
    read_crc_le adu (length adu - 2) = mb_crc16 (take (length adu - 2) adu)"
proof -
  let ?n = "length adu - 2"
  have "mb_crc16 adu = 0 \<longleftrightarrow> [adu ! ?n, adu ! (?n + 1)] = write_crc_le (mb_crc16 (take ?n adu))"
    using crc_trailer_zero [of "take ?n adu" "adu ! ?n" "adu ! (?n + 1)"]
    by (simp only: split_trailer [OF assms, symmetric])
  also have "\<dots> \<longleftrightarrow> write_crc_le (read_crc_le adu ?n) = write_crc_le (mb_crc16 (take ?n adu))"
    using le.enc_dec [of ?n adu] assms by simp
  finally show ?thesis by (simp add: le.enc_inject)
qed

text \<open>
  C25. The two CRC checks of the sources agree on every frame of at least two bytes: the
  master's test that the CRC of the whole frame is zero, and the slave's comparison of the
  received little-endian trailer with the CRC of the bytes before it.
\<close>

theorem crc_checks_agree:
  assumes "2 \<le> length adu"
  shows "mb_crc16 adu = 0 \<longleftrightarrow>
    read_crc_le adu (length adu - 2) = mb_crc16 (take (length adu - 2) adu)"
  using crc_residue_zero [OF assms] .

theorem crc_checks_agree_witness:
  "mb_crc16 [1, 3, 0, 0, 0, 10, 0xC5, 0xCD] = 0 \<longleftrightarrow>
    read_crc_le [1, 3, 0, 0, 0, 10, 0xC5, 0xCD] 6 = mb_crc16 [1, 3, 0, 0, 0, 10]"
  using crc_checks_agree [of "[1, 3, 0, 0, 0, 10, 0xC5, 0xCD]"]
  by (simp add: eval_nat_numeral)

section \<open>Error detection\<close>

lemma crc_byte_inject_state: "crc_byte c x = crc_byte d x \<longleftrightarrow> c = d"
  by (simp only: crc_byte_def crc_shift_pow_inject word_xor_right_cancel)

lemma foldl_crc_inject_state: "foldl crc_byte c xs = foldl crc_byte d xs \<longleftrightarrow> c = d"
  by (induction xs arbitrary: c d) (simp_all add: crc_byte_inject_state)

lemma foldl_crc_two_inject:
  "foldl crc_byte c [a, b] = foldl crc_byte c [a', b'] \<longleftrightarrow> a = a' \<and> b = b'"
proof
  assume "foldl crc_byte c [a, b] = foldl crc_byte c [a', b']"
  then have "c XOR read_crc_le [a, b] 0 = c XOR read_crc_le [a', b'] 0"
    by (simp only: crc_byte_two crc_shift_pow_inject read_crc_le_def) simp
  then have "read_crc_le [a, b] 0 = read_crc_le [a', b'] 0"
    by (simp only: word_xor_left_cancel)
  moreover have "write_crc_le (read_crc_le [x, y] 0) = [x, y]" for x y
    using le.enc_dec [of 0 "[x, y]"] by simp
  ultimately show "a = a' \<and> b = b'"
    by (metis list.inject)
qed simp

text \<open>
  C26. A burst confined to two adjacent bytes (any error of up to nine consecutive bits, and
  any single-byte corruption) changes the CRC, so a frame the master accepts is never
  accepted after such a corruption.
\<close>

theorem crc_detects_adjacent_corruption:
  assumes "mb_crc16 (pre @ [a, b] @ post) = 0" "[a', b'] \<noteq> [a, b]"
  shows "mb_crc16 (pre @ [a', b'] @ post) \<noteq> 0"
proof
  assume "mb_crc16 (pre @ [a', b'] @ post) = 0"
  with assms(1) have "foldl crc_byte (foldl crc_byte (mb_crc16 pre) [a, b]) post =
      foldl crc_byte (foldl crc_byte (mb_crc16 pre) [a', b']) post"
    by (simp only: mb_crc16_append foldl_append)
  then have "foldl crc_byte (mb_crc16 pre) [a, b] = foldl crc_byte (mb_crc16 pre) [a', b']"
    by (simp only: foldl_crc_inject_state)
  with assms(2) show False by (simp only: foldl_crc_two_inject)
qed

theorem crc_detects_adjacent_corruption_witness:
  "mb_crc16 ([1, 3] @ [0, 7] @ [0, 10, 0xC5, 0xCD]) \<noteq> 0"
proof -
  have ok: "mb_crc16 ([1, 3] @ [0, 0] @ [0, 10, 0xC5, 0xCD]) = 0"
    by (simp add: crc_eval)
  show ?thesis
    by (rule crc_detects_adjacent_corruption [OF ok]) simp
qed

end
