(* ===== verification/Diagnostics.thy ===== *)
theory Diagnostics
  imports Pdu
begin

text \<open>
  The serial-line diagnostics of modbus_rtu_diagnostics.c: saturating counters, the ring of
  the 64 newest events, listen-only mode and the functions FC07, FC08, FC11 and FC12.
  \<open>listen_only\<close> is only ever 0 or 1 and is \<open>bool\<close>; \<open>event_log_head\<close> and
  \<open>event_log_count\<close> stay below 65 by the invariant and are \<open>nat\<close>. The functions that C
  lets be called with a NULL object are defined on an object; the callers apply them under
  \<open>map_option\<close>. The application's policy callback, with its context, is an optional function.
\<close>

abbreviation (input) EVENT_LOG_CAPACITY :: nat where "EVENT_LOG_CAPACITY \<equiv> 64"

record mbrtu_diagnostics =
  exception_status :: u8
  diagnostic_register :: u16
  communication_status :: u16
  event_counter :: u16
  message_count :: u16
  bus_communication_error_count :: u16
  bus_exception_error_count :: u16
  server_message_count :: u16
  server_no_response_count :: u16
  server_nak_count :: u16
  server_busy_count :: u16
  bus_character_overrun_count :: u16
  event_log :: bytes
  event_log_head :: nat
  event_log_count :: nat
  listen_only :: bool
  pending_actions :: u8

datatype diag_action =
  ACTION_RESTART_COMMUNICATIONS | ACTION_FORCE_LISTEN_ONLY | ACTION_CLEAR_COUNTERS_AND_REGISTER
| ACTION_CLEAR_OVERRUN_COUNTER

type_synonym diag_policy = "(diag_action \<Rightarrow> u16 \<Rightarrow> bool) option"

datatype diag_result =
  PDU_NOT_HANDLED | PDU_RESPONSE bytes | PDU_NO_RESPONSE | PDU_ERROR

section \<open>Counters and event log\<close>

definition increment_saturating :: "u16 \<Rightarrow> u16" where
  "increment_saturating v = (if v \<noteq> 0xFFFF then v + 1 else v)"

definition push_event :: "u8 \<Rightarrow> mbrtu_diagnostics \<Rightarrow> mbrtu_diagnostics" where
  "push_event event d =
     (let head = (if event_log_count d = 0 then 0
                  else if event_log_head d = 0 then EVENT_LOG_CAPACITY - 1
                  else event_log_head d - 1) in
      d\<lparr>event_log_head := head, event_log := (event_log d)[head := event],
        event_log_count := (if event_log_count d < EVENT_LOG_CAPACITY
                            then event_log_count d + 1 else event_log_count d)\<rparr>)"

definition make_receive_event :: "mbrtu_diagnostics \<Rightarrow> bool \<Rightarrow> bool \<Rightarrow> bool \<Rightarrow> u8" where
  "make_receive_event d broadcast communication_error character_overrun =
     0x80 OR (if broadcast then 0x40 else 0) OR (if listen_only d then 0x20 else 0) OR
     (if communication_error then 0x02 else 0) OR (if character_overrun then 0x10 else 0)"

definition make_send_event :: "mbrtu_diagnostics \<Rightarrow> u8 \<Rightarrow> u8" where
  "make_send_event d exception_code =
     0x40 OR (if listen_only d then 0x20 else 0) OR
     (if exception_code \<ge> 1 \<and> exception_code \<le> 3 then 0x01
      else if exception_code = 4 then 0x02
      else if exception_code = 5 \<or> exception_code = 6 then 0x04
      else if exception_code = 7 then 0x08 else 0)"

definition clear_counters :: "mbrtu_diagnostics \<Rightarrow> mbrtu_diagnostics" where
  "clear_counters d = d\<lparr>event_counter := 0, message_count := 0,
     bus_communication_error_count := 0, bus_exception_error_count := 0,
     server_message_count := 0, server_no_response_count := 0, server_nak_count := 0,
     server_busy_count := 0, bus_character_overrun_count := 0\<rparr>"

definition policy_allows :: "diag_policy \<Rightarrow> diag_action \<Rightarrow> u16 \<Rightarrow> bool" where
  "policy_allows policy action data = (case policy of None \<Rightarrow> False | Some f \<Rightarrow> f action data)"

definition make_exception :: "u8 \<Rightarrow> u8 \<Rightarrow> nat \<Rightarrow> diag_result" where
  "make_exception fc exception_code cap =
     (if cap < 2 then PDU_ERROR else PDU_RESPONSE [fc OR 0x80, exception_code])"

definition fixed_word_response :: "u8 \<Rightarrow> u16 \<Rightarrow> u16 \<Rightarrow> nat \<Rightarrow> diag_result" where
  "fixed_word_response fc subfunction v cap =
     (if cap < 5 then PDU_ERROR else PDU_RESPONSE ([fc] @ write_be16 subfunction @ write_be16 v))"

definition mbrtu_diagnostics_init :: mbrtu_diagnostics where
  "mbrtu_diagnostics_init =
     \<lparr>exception_status = 0, diagnostic_register = 0, communication_status = 0, event_counter = 0,
      message_count = 0, bus_communication_error_count = 0, bus_exception_error_count = 0,
      server_message_count = 0, server_no_response_count = 0, server_nak_count = 0,
      server_busy_count = 0, bus_character_overrun_count = 0,
      event_log = replicate EVENT_LOG_CAPACITY 0, event_log_head = 0, event_log_count = 0,
      listen_only = False, pending_actions = 0\<rparr>"

definition mbrtu_diagnostics_set_exception_status :: "u8 \<Rightarrow> mbrtu_diagnostics \<Rightarrow> mbrtu_diagnostics" where
  "mbrtu_diagnostics_set_exception_status status d = d\<lparr>exception_status := status\<rparr>"

definition mbrtu_diagnostics_set_register :: "u16 \<Rightarrow> mbrtu_diagnostics \<Rightarrow> mbrtu_diagnostics" where
  "mbrtu_diagnostics_set_register v d = d\<lparr>diagnostic_register := v\<rparr>"

definition mbrtu_diagnostics_set_communication_status ::
  "u16 \<Rightarrow> mbrtu_diagnostics \<Rightarrow> mbrtu_diagnostics" where
  "mbrtu_diagnostics_set_communication_status status d = d\<lparr>communication_status := status\<rparr>"

definition mbrtu_diagnostics_is_listen_only :: "mbrtu_diagnostics option \<Rightarrow> bool" where
  "mbrtu_diagnostics_is_listen_only d = (case d of None \<Rightarrow> False | Some d \<Rightarrow> listen_only d)"

definition mbrtu_diagnostics_take_pending_actions :: "mbrtu_diagnostics \<Rightarrow> u8 \<times> mbrtu_diagnostics" where
  "mbrtu_diagnostics_take_pending_actions d = (pending_actions d, d\<lparr>pending_actions := 0\<rparr>)"

definition mbrtu_diagnostics_get_event :: "mbrtu_diagnostics \<Rightarrow> nat \<Rightarrow> u8 option" where
  "mbrtu_diagnostics_get_event d newest_first_index =
     (if newest_first_index \<ge> event_log_count d then None
      else Some (event_log d ! ((event_log_head d + newest_first_index) mod EVENT_LOG_CAPACITY)))"

definition mbrtu_diagnostics_note_bus_message :: "bool \<Rightarrow> mbrtu_diagnostics \<Rightarrow> mbrtu_diagnostics" where
  "mbrtu_diagnostics_note_bus_message broadcast d =
     (let d = d\<lparr>message_count := increment_saturating (message_count d)\<rparr> in
      push_event (make_receive_event d broadcast False False) d)"

definition mbrtu_diagnostics_note_server_message :: "mbrtu_diagnostics \<Rightarrow> mbrtu_diagnostics" where
  "mbrtu_diagnostics_note_server_message d =
     d\<lparr>server_message_count := increment_saturating (server_message_count d)\<rparr>"

definition mbrtu_diagnostics_note_normal_completion ::
  "bool \<Rightarrow> bool \<Rightarrow> mbrtu_diagnostics \<Rightarrow> mbrtu_diagnostics" where
  "mbrtu_diagnostics_note_normal_completion no_response exclude_from_event_counter d =
     (let d = (if \<not> exclude_from_event_counter
               then d\<lparr>event_counter := increment_saturating (event_counter d)\<rparr> else d);
          d = (if no_response
               then d\<lparr>server_no_response_count := increment_saturating (server_no_response_count d)\<rparr>
               else d) in
      push_event (make_send_event d 0) d)"

definition mbrtu_diagnostics_note_exception :: "u8 \<Rightarrow> mbrtu_diagnostics \<Rightarrow> mbrtu_diagnostics" where
  "mbrtu_diagnostics_note_exception exception_code d =
     (let d = d\<lparr>bus_exception_error_count := increment_saturating (bus_exception_error_count d)\<rparr>;
          d = (if exception_code = 6
               then d\<lparr>server_busy_count := increment_saturating (server_busy_count d)\<rparr>
               else if exception_code = 7
               then d\<lparr>server_nak_count := increment_saturating (server_nak_count d)\<rparr> else d) in
      push_event (make_send_event d exception_code) d)"

definition mbrtu_diagnostics_note_communication_error ::
  "bool \<Rightarrow> bool \<Rightarrow> mbrtu_diagnostics \<Rightarrow> mbrtu_diagnostics" where
  "mbrtu_diagnostics_note_communication_error broadcast character_overrun d =
     (let d = d\<lparr>message_count := increment_saturating (message_count d),
                bus_communication_error_count :=
                  increment_saturating (bus_communication_error_count d)\<rparr>;
          d = (if character_overrun
               then d\<lparr>bus_character_overrun_count :=
                        increment_saturating (bus_character_overrun_count d)\<rparr> else d) in
      push_event (make_receive_event d broadcast True character_overrun) d)"

definition mbrtu_diagnostics_note_character_overrun ::
  "bool \<Rightarrow> bool \<Rightarrow> mbrtu_diagnostics \<Rightarrow> mbrtu_diagnostics" where
  "mbrtu_diagnostics_note_character_overrun broadcast addressed_to_server d =
     (let d = d\<lparr>message_count := increment_saturating (message_count d)\<rparr>;
          d = (if addressed_to_server
               then d\<lparr>bus_character_overrun_count :=
                        increment_saturating (bus_character_overrun_count d)\<rparr> else d) in
      push_event (make_receive_event d broadcast False True) d)"

section \<open>FC08 Diagnostics\<close>

text \<open>
  The recurring branch of the source: a broadcast is completed silently and left out of the
  event counter, any other request gets an exception response.
\<close>

definition silent_or_exception ::
  "bool \<Rightarrow> u8 \<Rightarrow> u8 \<Rightarrow> nat \<Rightarrow> mbrtu_diagnostics \<Rightarrow> diag_result \<times> mbrtu_diagnostics" where
  "silent_or_exception broadcast fc code cap d =
     (if broadcast then (PDU_NO_RESPONSE, mbrtu_diagnostics_note_normal_completion False True d)
      else (make_exception fc code cap, d))"

definition fc08_return_query_data ::
  "bool \<Rightarrow> bytes \<Rightarrow> nat \<Rightarrow> mbrtu_diagnostics \<Rightarrow> diag_result \<times> mbrtu_diagnostics" where
  "fc08_return_query_data broadcast pdu cap d =
     (if broadcast then (PDU_NO_RESPONSE, mbrtu_diagnostics_note_normal_completion False True d)
      else if cap < length pdu then (PDU_ERROR, d)
      else (PDU_RESPONSE pdu, d))"

definition fc08_restart_communications ::
  "diag_policy \<Rightarrow> bool \<Rightarrow> bytes \<Rightarrow> u16 \<Rightarrow> nat \<Rightarrow> mbrtu_diagnostics \<Rightarrow>
   diag_result \<times> mbrtu_diagnostics" where
  "fc08_restart_communications policy broadcast pdu data cap d =
     (if length pdu \<noteq> 5 \<or> (data \<noteq> 0x0000 \<and> data \<noteq> 0xFF00)
      then silent_or_exception broadcast 0x08 MB_EX_ILLEGAL_DATA_VALUE cap d
      else if \<not> policy_allows policy ACTION_RESTART_COMMUNICATIONS data then
        if broadcast \<or> listen_only d
        then (PDU_NO_RESPONSE, mbrtu_diagnostics_note_normal_completion (\<not> broadcast) True d)
        else (make_exception 0x08 MB_EX_ILLEGAL_DATA_VALUE cap, d)
      else if \<not> broadcast \<and> \<not> listen_only d \<and> cap < 5 then (PDU_ERROR, d)
      else
        let was_listen_only = listen_only d;
            d = (clear_counters d)\<lparr>listen_only := False, pending_actions := pending_actions d OR 0x01\<rparr>;
            d = (if data = 0xFF00 then d\<lparr>event_log_count := 0, event_log_head := 0\<rparr> else d);
            d = push_event 0x00 d in
        if broadcast \<or> was_listen_only then (PDU_NO_RESPONSE, d)
        else (fixed_word_response 0x08 0x0001 data cap, d))"

definition fc08_return_diagnostic_register ::
  "bool \<Rightarrow> bytes \<Rightarrow> u16 \<Rightarrow> nat \<Rightarrow> mbrtu_diagnostics \<Rightarrow> diag_result \<times> mbrtu_diagnostics" where
  "fc08_return_diagnostic_register broadcast pdu data cap d =
     (if broadcast then (PDU_NO_RESPONSE, mbrtu_diagnostics_note_normal_completion False True d)
      else if length pdu \<noteq> 5 \<or> data \<noteq> 0 then (make_exception 0x08 MB_EX_ILLEGAL_DATA_VALUE cap, d)
      else (fixed_word_response 0x08 0x0002 (diagnostic_register d) cap, d))"

definition fc08_force_listen_only ::
  "diag_policy \<Rightarrow> bool \<Rightarrow> bytes \<Rightarrow> u16 \<Rightarrow> nat \<Rightarrow> mbrtu_diagnostics \<Rightarrow>
   diag_result \<times> mbrtu_diagnostics" where
  "fc08_force_listen_only policy broadcast pdu data cap d =
     (if length pdu \<noteq> 5 \<or> data \<noteq> 0
      then silent_or_exception broadcast 0x08 MB_EX_ILLEGAL_DATA_VALUE cap d
      else if \<not> policy_allows policy ACTION_FORCE_LISTEN_ONLY data
      then silent_or_exception broadcast 0x08 MB_EX_ILLEGAL_DATA_VALUE cap d
      else
        let d = mbrtu_diagnostics_note_normal_completion (\<not> broadcast) False (d\<lparr>listen_only := True\<rparr>);
            d = d\<lparr>pending_actions := pending_actions d OR 0x02\<rparr> in
        (PDU_NO_RESPONSE, push_event 0x04 d))"

definition fc08_clear_counters_and_register ::
  "diag_policy \<Rightarrow> bool \<Rightarrow> bytes \<Rightarrow> u16 \<Rightarrow> nat \<Rightarrow> mbrtu_diagnostics \<Rightarrow>
   diag_result \<times> mbrtu_diagnostics" where
  "fc08_clear_counters_and_register policy broadcast pdu data cap d =
     (if length pdu \<noteq> 5 \<or> data \<noteq> 0
      then silent_or_exception broadcast 0x08 MB_EX_ILLEGAL_DATA_VALUE cap d
      else if \<not> policy_allows policy ACTION_CLEAR_COUNTERS_AND_REGISTER data
      then silent_or_exception broadcast 0x08 MB_EX_ILLEGAL_DATA_VALUE cap d
      else if \<not> broadcast \<and> cap < 5 then (PDU_ERROR, d)
      else
        let d = mbrtu_diagnostics_note_normal_completion False True
                  ((clear_counters d)\<lparr>diagnostic_register := 0\<rparr>) in
        if broadcast then (PDU_NO_RESPONSE, d)
        else (fixed_word_response 0x08 0x000A data cap, d))"

definition fc08_return_count ::
  "bool \<Rightarrow> u16 \<Rightarrow> bytes \<Rightarrow> u16 \<Rightarrow> nat \<Rightarrow> mbrtu_diagnostics \<Rightarrow> diag_result \<times> mbrtu_diagnostics" where
  "fc08_return_count broadcast subfunction pdu data cap d =
     (if broadcast then (PDU_NO_RESPONSE, mbrtu_diagnostics_note_normal_completion False True d)
      else if length pdu \<noteq> 5 \<or> data \<noteq> 0 then (make_exception 0x08 MB_EX_ILLEGAL_DATA_VALUE cap, d)
      else
        let v = (if subfunction = 0x000B then message_count d
                 else if subfunction = 0x000C then bus_communication_error_count d
                 else if subfunction = 0x000D then bus_exception_error_count d
                 else if subfunction = 0x000E then server_message_count d
                 else if subfunction = 0x000F then server_no_response_count d
                 else if subfunction = 0x0010 then server_nak_count d
                 else if subfunction = 0x0011 then server_busy_count d
                 else bus_character_overrun_count d) in
        (fixed_word_response 0x08 subfunction v cap, d))"

definition fc08_clear_overrun_counter ::
  "diag_policy \<Rightarrow> bool \<Rightarrow> bytes \<Rightarrow> u16 \<Rightarrow> nat \<Rightarrow> mbrtu_diagnostics \<Rightarrow>
   diag_result \<times> mbrtu_diagnostics" where
  "fc08_clear_overrun_counter policy broadcast pdu data cap d =
     (if length pdu \<noteq> 5 \<or> data \<noteq> 0
      then silent_or_exception broadcast 0x08 MB_EX_ILLEGAL_DATA_VALUE cap d
      else if \<not> policy_allows policy ACTION_CLEAR_OVERRUN_COUNTER data
      then silent_or_exception broadcast 0x08 MB_EX_ILLEGAL_DATA_VALUE cap d
      else if \<not> broadcast \<and> cap < 5 then (PDU_ERROR, d)
      else
        let d = d\<lparr>bus_character_overrun_count := 0\<rparr> in
        if broadcast
        then (PDU_NO_RESPONSE, mbrtu_diagnostics_note_normal_completion False False d)
        else (fixed_word_response 0x08 0x0014 data cap, d))"

definition process_fc08 ::
  "diag_policy \<Rightarrow> u8 \<Rightarrow> bytes \<Rightarrow> nat \<Rightarrow> mbrtu_diagnostics \<Rightarrow> diag_result \<times> mbrtu_diagnostics" where
  "process_fc08 policy request_address pdu cap d =
     (let broadcast = (request_address = 0) in
      if length pdu < 3 \<or> (length pdu - 3) mod 2 \<noteq> 0
      then silent_or_exception broadcast 0x08 MB_EX_ILLEGAL_DATA_VALUE cap d
      else
        let sub = read_be16 pdu 1; data = (if length pdu \<ge> 5 then read_be16 pdu 3 else 0) in
        if listen_only d \<and> sub \<noteq> 0x0001 then (PDU_NO_RESPONSE, d)
        else if sub = 0x0000 then fc08_return_query_data broadcast pdu cap d
        else if sub = 0x0001 then fc08_restart_communications policy broadcast pdu data cap d
        else if sub = 0x0002 then fc08_return_diagnostic_register broadcast pdu data cap d
        else if sub = 0x0004 then fc08_force_listen_only policy broadcast pdu data cap d
        else if sub = 0x000A then fc08_clear_counters_and_register policy broadcast pdu data cap d
        else if 0x000B \<le> sub \<and> sub \<le> 0x0012 then fc08_return_count broadcast sub pdu data cap d
        else if sub = 0x0014 then fc08_clear_overrun_counter policy broadcast pdu data cap d
        else silent_or_exception broadcast 0x08 MB_EX_ILLEGAL_FUNCTION cap d)"

section \<open>Dispatch\<close>

definition read_exception_status_pdu ::
  "bool \<Rightarrow> bytes \<Rightarrow> nat \<Rightarrow> mbrtu_diagnostics \<Rightarrow> diag_result \<times> mbrtu_diagnostics" where
  "read_exception_status_pdu broadcast pdu cap d =
     (if broadcast then (PDU_NO_RESPONSE, mbrtu_diagnostics_note_normal_completion False True d)
      else if length pdu \<noteq> 1 then (make_exception (pdu ! 0) MB_EX_ILLEGAL_DATA_VALUE cap, d)
      else if cap < 2 then (PDU_ERROR, d)
      else (PDU_RESPONSE [pdu ! 0, exception_status d], d))"

definition get_comm_event_counter_pdu ::
  "bool \<Rightarrow> bytes \<Rightarrow> nat \<Rightarrow> mbrtu_diagnostics \<Rightarrow> diag_result \<times> mbrtu_diagnostics" where
  "get_comm_event_counter_pdu broadcast pdu cap d =
     (if broadcast then (PDU_NO_RESPONSE, mbrtu_diagnostics_note_normal_completion False True d)
      else if length pdu \<noteq> 1 then (make_exception (pdu ! 0) MB_EX_ILLEGAL_DATA_VALUE cap, d)
      else if cap < 5 then (PDU_ERROR, d)
      else (PDU_RESPONSE ([pdu ! 0] @ write_be16 (communication_status d) @
              write_be16 (event_counter d)), d))"

definition get_comm_event_log_pdu ::
  "bool \<Rightarrow> bytes \<Rightarrow> nat \<Rightarrow> mbrtu_diagnostics \<Rightarrow> diag_result \<times> mbrtu_diagnostics" where
  "get_comm_event_log_pdu broadcast pdu cap d =
     (if broadcast then (PDU_NO_RESPONSE, mbrtu_diagnostics_note_normal_completion False True d)
      else if length pdu \<noteq> 1 then (make_exception (pdu ! 0) MB_EX_ILLEGAL_DATA_VALUE cap, d)
      else if cap < 8 + event_log_count d then (PDU_ERROR, d)
      else (PDU_RESPONSE ([pdu ! 0, of_nat (6 + event_log_count d)] @
              write_be16 (communication_status d) @ write_be16 (event_counter d) @
              write_be16 (message_count d) @
              map (\<lambda>i. case mbrtu_diagnostics_get_event d i of None \<Rightarrow> 0 | Some e \<Rightarrow> e)
                [0..<event_log_count d]), d))"

definition mbrtu_diagnostics_process_pdu ::
  "mbrtu_diagnostics option \<Rightarrow> diag_policy \<Rightarrow> u8 \<Rightarrow> bytes option \<Rightarrow> nat option \<Rightarrow>
   diag_result \<times> mbrtu_diagnostics option" where
  "mbrtu_diagnostics_process_pdu diag policy request_address request capacity =
     (case (diag, request, capacity) of
        (Some d, Some pdu, Some cap) \<Rightarrow>
          if length pdu = 0 \<or> length pdu > MODBUS_PDU_MAX_SIZE then (PDU_ERROR, diag)
          else
            let fc = pdu ! 0; broadcast = (request_address = 0) in
            if fc \<noteq> 0x07 \<and> fc \<noteq> 0x08 \<and> fc \<noteq> 0x0B \<and> fc \<noteq> 0x0C then (PDU_NOT_HANDLED, diag)
            else if listen_only d \<and> \<not> (fc = 0x08 \<and> length pdu \<ge> 3 \<and> read_be16 pdu 1 = 0x0001)
            then (PDU_NO_RESPONSE, diag)
            else
              let (r, d') =
                (if fc = 0x07 then read_exception_status_pdu broadcast pdu cap d
                 else if fc = 0x08 then process_fc08 policy request_address pdu cap d
                 else if fc = 0x0B then get_comm_event_counter_pdu broadcast pdu cap d
                 else get_comm_event_log_pdu broadcast pdu cap d) in
              (r, Some d')
      | _ \<Rightarrow> (PDU_ERROR, diag))"

section \<open>The event log is a bounded newest-first log\<close>

text \<open>The contract of a bounded log: pushing puts the new entry first and drops the oldest.\<close>

locale bounded_log =
  fixes push :: "'e \<Rightarrow> 's \<Rightarrow> 's"
    and entries :: "'s \<Rightarrow> 'e list"
    and inv :: "'s \<Rightarrow> bool"
    and capacity :: nat
  assumes entries_push: "inv s \<Longrightarrow> entries (push e s) = take capacity (e # entries s)"
    and inv_push: "inv s \<Longrightarrow> inv (push e s)"
    and entries_bound: "inv s \<Longrightarrow> length (entries s) \<le> capacity"
begin

lemma inv_fold_push: "inv s \<Longrightarrow> inv (fold push es s)"
  by (induction es arbitrary: s) (auto simp: inv_push)

lemma entries_fold_push: "inv s \<Longrightarrow> entries (fold push es s) = take capacity (rev es @ entries s)"
proof (induction es arbitrary: s)
  case Nil
  then show ?case by (simp add: entries_bound)
next
  case (Cons e es)
  have t: "take n (xs @ take n ys) = take n (xs @ ys)" for n and xs ys :: "'e list"
    by (simp add: min_def)
  show ?case
    using Cons t [of capacity "rev es" "e # entries s"] by (simp add: inv_push entries_push)
qed

end

definition log_wf :: "mbrtu_diagnostics \<Rightarrow> bool" where
  "log_wf d \<longleftrightarrow> length (event_log d) = EVENT_LOG_CAPACITY \<and> event_log_head d < EVENT_LOG_CAPACITY \<and>
     event_log_count d \<le> EVENT_LOG_CAPACITY"

definition log_entries :: "mbrtu_diagnostics \<Rightarrow> bytes" where
  "log_entries d = map (\<lambda>i. the (mbrtu_diagnostics_get_event d i)) [0..<event_log_count d]"

lemma log_entries_nth:
  "i < event_log_count d \<Longrightarrow> log_entries d ! i = event_log d ! ((event_log_head d + i) mod 64)"
  by (simp add: log_entries_def mbrtu_diagnostics_get_event_def)

lemma log_entries_length [simp]: "length (log_entries d) = event_log_count d"
  by (simp add: log_entries_def)

definition pushed_head :: "mbrtu_diagnostics \<Rightarrow> nat" where
  "pushed_head d = (if event_log_count d = 0 then 0
     else if event_log_head d = 0 then EVENT_LOG_CAPACITY - 1 else event_log_head d - 1)"

lemma push_event_fields:
  "event_log_head (push_event e d) = pushed_head d"
  "event_log (push_event e d) = (event_log d)[pushed_head d := e]"
  "event_log_count (push_event e d) = min 64 (event_log_count d + 1) \<or> event_log_count d > 64"
  by (auto simp: push_event_def pushed_head_def Let_def)

lemma pushed_head_next:
  "event_log_head d < 64 \<Longrightarrow> event_log_count d \<noteq> 0 \<Longrightarrow>
   (pushed_head d + Suc i) mod 64 = (event_log_head d + i) mod 64"
  by (cases "event_log_head d") (auto simp: pushed_head_def mod_if)

lemma ring_slot_distinct: "h < 64 \<Longrightarrow> 0 < i \<Longrightarrow> i < (64 :: nat) \<Longrightarrow> (h + i) mod 64 \<noteq> h"
  by (cases "h + i < 64") (auto simp: mod_if)

lemma push_event_entries:
  assumes "log_wf d"
  shows "log_entries (push_event e d) = take 64 (e # log_entries d)"
proof (rule nth_equalityI)
  let ?d = "push_event e d"
  have wf: "length (event_log d) = 64" "event_log_head d < 64" "event_log_count d \<le> 64"
    using assms by (simp_all add: log_wf_def)
  have cnt: "event_log_count ?d = min 64 (event_log_count d + 1)"
    using push_event_fields(3) [of e d] wf(3) by auto
  have h: "pushed_head d < 64" using wf(2) by (auto simp: pushed_head_def)
  show "length (log_entries ?d) = length (take 64 (e # log_entries d))" by (simp add: cnt)
  fix i assume "i < length (log_entries ?d)"
  then have i: "i < 64" "i < event_log_count d + 1" "i < event_log_count ?d" by (simp_all add: cnt)
  have at: "log_entries ?d ! i = (event_log d)[pushed_head d := e] ! ((pushed_head d + i) mod 64)"
    using log_entries_nth [OF i(3)] by (simp add: push_event_fields)
  show "log_entries ?d ! i = take 64 (e # log_entries d) ! i"
  proof (cases i)
    case 0
    then show ?thesis using at h wf(1) by simp
  next
    case (Suc j)
    have "(pushed_head d + i) mod 64 \<noteq> pushed_head d"
      using i(1) Suc by (intro ring_slot_distinct [OF h]) simp_all
    then have "log_entries ?d ! i = event_log d ! ((pushed_head d + Suc j) mod 64)"
      using at Suc by simp
    also have "\<dots> = log_entries d ! j"
      using i Suc wf by (subst pushed_head_next) (simp_all add: log_entries_nth)
    finally show ?thesis using i(1) Suc by simp
  qed
qed

lemma push_event_wf: "log_wf d \<Longrightarrow> log_wf (push_event e d)"
  by (auto simp: log_wf_def push_event_def Let_def)

interpretation elog: bounded_log push_event log_entries log_wf EVENT_LOG_CAPACITY
  by unfold_locales (simp_all add: push_event_entries push_event_wf, simp add: log_wf_def)

text \<open>
  C38. FC12 reports the newest events: after any sequence of events on a well-formed log,
  the response of Get Communication Event Log holds, newest first, exactly the last 64 of
  the events before and in the sequence, behind the status word and the two counters.
\<close>

theorem event_log_reports_newest:
  assumes "log_wf d" "d' = fold push_event es d" "8 + event_log_count d' \<le> cap" "\<not> listen_only d'" "a \<noteq> 0"
  shows "mbrtu_diagnostics_process_pdu (Some d') policy a (Some [0x0C]) (Some cap) =
    (PDU_RESPONSE ([0x0C, of_nat (6 + event_log_count d')] @ write_be16 (communication_status d') @
       write_be16 (event_counter d') @ write_be16 (message_count d') @
       take 64 (rev es @ log_entries d)), Some d')"
proof -
  have "map (\<lambda>i. case mbrtu_diagnostics_get_event d' i of None \<Rightarrow> 0 | Some e \<Rightarrow> e) [0..<event_log_count d'] =
      log_entries d'"
    by (auto simp: log_entries_def mbrtu_diagnostics_get_event_def)
  then have "map (\<lambda>i. case mbrtu_diagnostics_get_event d' i of None \<Rightarrow> 0 | Some e \<Rightarrow> e) [0..<event_log_count d'] =
      take 64 (rev es @ log_entries d)"
    using elog.entries_fold_push [OF assms(1), of es] assms(2) by simp
  then show ?thesis
    using assms(3-5)
    by (simp add: mbrtu_diagnostics_process_pdu_def get_comm_event_log_pdu_def Let_def not_less)
qed

lemma log_wf_init: "log_wf mbrtu_diagnostics_init"
  by (simp add: log_wf_def mbrtu_diagnostics_init_def)

theorem event_log_reports_newest_witness:
  "fst (mbrtu_diagnostics_process_pdu (Some (fold push_event [0x80, 0x40, 0x82] mbrtu_diagnostics_init)) None 17
     (Some [0x0C]) (Some 253)) = PDU_RESPONSE [0x0C, 9, 0, 0, 0, 0, 0, 0, 0x82, 0x40, 0x80]"
proof -
  have "log_entries mbrtu_diagnostics_init = []" by (simp add: log_entries_def mbrtu_diagnostics_init_def)
  then show ?thesis
    using event_log_reports_newest [OF log_wf_init refl, of "[0x80, 0x40, 0x82]" 253 17 None]
    by (simp add: push_event_def Let_def mbrtu_diagnostics_init_def write_be16_def)
qed

section \<open>Counters saturate, operations need the policy\<close>

lemma increment_saturating_unat:
  "unat (increment_saturating v) = min 65535 (unat v + 1)"
proof (cases "v = 0xFFFF")
  case True
  then show ?thesis by (simp add: increment_saturating_def)
next
  case False
  then have "unat v \<noteq> unat (0xFFFF :: u16)" by (simp only: word_unat_eq_iff not_False_eq_True)
  then have "unat v \<noteq> 65535" by simp
  then have "unat v + 1 < 65536" using unat_u16_less [of v] by simp
  then have "unat (v + 1) = unat v + 1" using unat_add_of_nat_u16 [of v 1] by simp
  then show ?thesis using False \<open>unat v + 1 < 65536\<close> by (simp add: increment_saturating_def)
qed

text \<open>The fields a request may change without the application's consent.\<close>

definition unprotected_cleared :: "mbrtu_diagnostics \<Rightarrow> mbrtu_diagnostics" where
  "unprotected_cleared d = d\<lparr>event_log := [], event_log_head := 0, event_log_count := 0,
     server_no_response_count := 0\<rparr>"

lemma unprotected_push [simp]: "unprotected_cleared (push_event e d) = unprotected_cleared d"
  by (simp add: unprotected_cleared_def push_event_def Let_def)

lemma unprotected_completion [simp]:
  "unprotected_cleared (mbrtu_diagnostics_note_normal_completion nr True d) = unprotected_cleared d"
  by (simp add: mbrtu_diagnostics_note_normal_completion_def Let_def)
    (simp add: unprotected_cleared_def)

lemma silent_or_exception_unprotected [simp]:
  "unprotected_cleared (snd (silent_or_exception b fc c cap d)) = unprotected_cleared d"
  by (simp add: silent_or_exception_def)

lemma fc08_denied:
  assumes "\<And>a x. \<not> policy_allows policy a x"
  shows "unprotected_cleared (snd (process_fc08 policy addr pdu cap d)) = unprotected_cleared d"
  by (simp add: process_fc08_def Let_def fc08_return_query_data_def fc08_restart_communications_def
      fc08_return_diagnostic_register_def fc08_force_listen_only_def
      fc08_clear_counters_and_register_def fc08_return_count_def fc08_clear_overrun_counter_def assms)

text \<open>
  Without the application's consent a diagnostic request changes nothing that matters:
  if the policy is absent or denies every action, no FC07, FC08, FC11 or FC12 request
  changes listen-only mode, the pending actions, the diagnostic register, the status words
  or any counter other than Server No Response; besides that counter only the event log
  may grow.
\<close>

lemma diagnostics_need_policy:
  assumes "\<And>a x. \<not> policy_allows policy a x"
    "mbrtu_diagnostics_process_pdu (Some d) policy addr request capacity = (r, Some d')"
  shows "unprotected_cleared d' = unprotected_cleared d"
proof (cases "request = None \<or> capacity = None")
  case True
  then show ?thesis using assms(2) by (cases request; cases capacity)
      (auto simp: mbrtu_diagnostics_process_pdu_def)
next
  case False
  then obtain pdu cap where [simp]: "request = Some pdu" "capacity = Some cap" by auto
  show ?thesis
    using assms(2) fc08_denied [OF assms(1), of addr pdu cap d]
    by (auto simp: mbrtu_diagnostics_process_pdu_def Let_def read_exception_status_pdu_def
        get_comm_event_counter_pdu_def get_comm_event_log_pdu_def case_prod_beta split: if_splits)
qed

section \<open>Listen-only mode\<close>

definition restart_request :: "bytes \<Rightarrow> bool" where
  "restart_request pdu \<longleftrightarrow> pdu ! 0 = 0x08 \<and> 3 \<le> length pdu \<and> read_be16 pdu 1 = 0x0001"

definition restart_well_formed :: "bytes \<Rightarrow> bool" where
  "restart_well_formed pdu \<longleftrightarrow> length pdu = 5 \<and> (read_be16 pdu 3 = 0 \<or> read_be16 pdu 3 = 0xFF00)"

lemma listen_only_other:
  assumes "listen_only d" "pdu \<noteq> []" "length pdu \<le> 253"
    "mbrtu_diagnostics_process_pdu (Some d) policy addr (Some pdu) (Some cap) = (r, d')"
    "\<not> restart_request pdu"
  shows "d' = Some d \<and> (r = PDU_NO_RESPONSE \<or> r = PDU_NOT_HANDLED)"
  using assms by (auto simp: mbrtu_diagnostics_process_pdu_def restart_request_def Let_def split: if_splits)

lemma listen_only_restart:
  assumes "listen_only d" "length pdu \<le> 253" "restart_request pdu"
  shows "mbrtu_diagnostics_process_pdu (Some d) policy addr (Some pdu) (Some cap) =
    (if \<not> restart_well_formed pdu then
       let (r, d') = silent_or_exception (addr = 0) 0x08 MB_EX_ILLEGAL_DATA_VALUE cap d in (r, Some d')
     else if \<not> policy_allows policy ACTION_RESTART_COMMUNICATIONS (read_be16 pdu 3)
     then (PDU_NO_RESPONSE, Some (mbrtu_diagnostics_note_normal_completion (addr \<noteq> 0) True d))
     else (PDU_NO_RESPONSE, Some (push_event 0x00
       (let d = (clear_counters d)\<lparr>listen_only := False, pending_actions := pending_actions d OR 0x01\<rparr> in
        if read_be16 pdu 3 = 0xFF00 then d\<lparr>event_log_count := 0, event_log_head := 0\<rparr> else d))))"
proof (cases "length pdu < 3 \<or> (length pdu - 3) mod 2 \<noteq> 0")
  case True
  then show ?thesis
    using assms by (auto simp: mbrtu_diagnostics_process_pdu_def restart_request_def process_fc08_def
        restart_well_formed_def Let_def)
next
  case False
  then show ?thesis
    using assms by (auto simp: mbrtu_diagnostics_process_pdu_def restart_request_def process_fc08_def
        restart_well_formed_def fc08_restart_communications_def Let_def clear_counters_def)
qed

text \<open>
  Listen-only mode is left only by an authorised restart: as long as the server is
  listen-only, a request makes it leave that mode only if it is a well-formed Restart
  Communications Option the policy allows, and then without a response; every request that
  is not a Restart leaves the whole diagnostics state alone and gets no response.
\<close>

lemma listen_only_exit:
  assumes "listen_only d" "pdu \<noteq> []" "length pdu \<le> 253"
    "mbrtu_diagnostics_process_pdu (Some d) policy addr (Some pdu) (Some cap) = (r, Some d')"
  shows "(\<not> listen_only d' \<longleftrightarrow> restart_request pdu \<and> restart_well_formed pdu \<and>
      policy_allows policy ACTION_RESTART_COMMUNICATIONS (read_be16 pdu 3)) \<and>
    (\<not> listen_only d' \<longrightarrow> r = PDU_NO_RESPONSE) \<and>
    (\<not> restart_request pdu \<longrightarrow> d' = d \<and> (\<forall>rsp. r \<noteq> PDU_RESPONSE rsp))"
proof (cases "restart_request pdu")
  case False
  then show ?thesis using listen_only_other [OF assms False] assms(1) by auto
next
  case True
  have note_lo: "listen_only (mbrtu_diagnostics_note_normal_completion nr ex d) = listen_only d" for nr ex
    by (simp add: mbrtu_diagnostics_note_normal_completion_def push_event_def Let_def)
  have push_lo: "listen_only (push_event e x) = listen_only x" for e x
    by (simp add: push_event_def Let_def)
  show ?thesis
    using assms(4) assms(1) True unfolding listen_only_restart [OF assms(1,3) True]
    by (auto simp: silent_or_exception_def Let_def note_lo push_lo split: if_splits)
qed

definition demo_listening :: mbrtu_diagnostics where
  "demo_listening = mbrtu_diagnostics_init\<lparr>listen_only := True\<rparr>"

section \<open>Response size and invariant\<close>

lemma log_wf_updates [simp]:
  "log_wf (d\<lparr>listen_only := b\<rparr>) = log_wf d" "log_wf (d\<lparr>pending_actions := pa\<rparr>) = log_wf d"
  "log_wf (clear_counters d) = log_wf d" "log_wf (d\<lparr>diagnostic_register := v\<rparr>) = log_wf d"
  "log_wf (d\<lparr>bus_character_overrun_count := v\<rparr>) = log_wf d"
  "log_wf (d\<lparr>message_count := v\<rparr>) = log_wf d" "log_wf (d\<lparr>server_message_count := v\<rparr>) = log_wf d"
  "log_wf (d\<lparr>bus_exception_error_count := v\<rparr>) = log_wf d" "log_wf (d\<lparr>server_busy_count := v\<rparr>) = log_wf d"
  "log_wf (d\<lparr>server_nak_count := v\<rparr>) = log_wf d"
  "log_wf (d\<lparr>bus_communication_error_count := v\<rparr>) = log_wf d"
  "log_wf (d\<lparr>event_counter := v\<rparr>) = log_wf d" "log_wf (d\<lparr>server_no_response_count := v\<rparr>) = log_wf d"
  by (simp_all add: log_wf_def clear_counters_def)

lemma completion_log_wf [simp]:
  "log_wf d \<Longrightarrow> log_wf (mbrtu_diagnostics_note_normal_completion nr ex d)"
  by (simp add: mbrtu_diagnostics_note_normal_completion_def Let_def push_event_wf)

lemma log_wf_cleared [simp]: "log_wf d \<Longrightarrow> log_wf (d\<lparr>event_log_count := 0, event_log_head := 0\<rparr>)"
  by (simp add: log_wf_def)

definition diag_ok :: "nat \<Rightarrow> diag_result \<times> mbrtu_diagnostics \<Rightarrow> bool" where
  "diag_ok cap x \<longleftrightarrow> log_wf (snd x) \<and>
     (case fst x of PDU_RESPONSE rsp \<Rightarrow> 2 \<le> length rsp \<and> length rsp \<le> min cap 253 | _ \<Rightarrow> True)"

lemma diag_ok_simps [simp]:
  "diag_ok cap (PDU_NOT_HANDLED, d) = log_wf d" "diag_ok cap (PDU_NO_RESPONSE, d) = log_wf d"
  "diag_ok cap (PDU_ERROR, d) = log_wf d"
  "diag_ok cap (make_exception fc c cap, d) = log_wf d"
  "diag_ok cap (fixed_word_response fc sub v cap, d) = log_wf d"
  "log_wf d \<Longrightarrow> diag_ok cap (silent_or_exception b fc c cap d)"
  by (auto simp: diag_ok_def make_exception_def fixed_word_response_def silent_or_exception_def)

lemma fc08_ok:
  assumes "log_wf d" "length pdu \<le> 253"
  shows "diag_ok cap (process_fc08 policy addr pdu cap d)"
proof -
  have "diag_ok cap (fc08_return_query_data b pdu cap d)" if "3 \<le> length pdu" for b
    using assms that by (simp add: fc08_return_query_data_def) (simp add: diag_ok_def not_less)
  moreover have "diag_ok cap (fc08_restart_communications policy b pdu data cap d)" for b data
    using assms(1) by (simp add: fc08_restart_communications_def Let_def push_event_wf)
  moreover have "diag_ok cap (fc08_return_diagnostic_register b pdu data cap d)" for b data
    using assms(1) by (simp add: fc08_return_diagnostic_register_def)
  moreover have "diag_ok cap (fc08_force_listen_only policy b pdu data cap d)" for b data
    using assms(1) by (simp add: fc08_force_listen_only_def Let_def push_event_wf)
  moreover have "diag_ok cap (fc08_clear_counters_and_register policy b pdu data cap d)" for b data
    using assms(1) by (simp add: fc08_clear_counters_and_register_def Let_def)
  moreover have "diag_ok cap (fc08_return_count b sub pdu data cap d)" for b sub data
    using assms(1) by (simp add: fc08_return_count_def Let_def)
  moreover have "diag_ok cap (fc08_clear_overrun_counter policy b pdu data cap d)" for b data
    using assms(1) by (simp add: fc08_clear_overrun_counter_def Let_def)
  ultimately show ?thesis
    using assms(1) by (simp add: process_fc08_def Let_def not_less)
qed

lemma diagnostics_process_ok:
  assumes "log_wf d" "mbrtu_diagnostics_process_pdu (Some d) policy addr (Some pdu) (Some cap) = (r, d2)"
  shows "\<exists>d'. d2 = Some d' \<and> diag_ok cap (r, d')"
proof -
  have "length (map (\<lambda>i. case mbrtu_diagnostics_get_event d i of None \<Rightarrow> 0 | Some e \<Rightarrow> e) [0..<event_log_count d]) \<le> 64"
    using assms(1) by (simp add: log_wf_def)
  then have "diag_ok cap (get_comm_event_log_pdu b pdu cap d)" for b
    using assms(1) by (simp add: get_comm_event_log_pdu_def) (simp add: diag_ok_def not_less)
  moreover have "diag_ok cap (read_exception_status_pdu b pdu cap d)" for b
    using assms(1) by (simp add: read_exception_status_pdu_def) (simp add: diag_ok_def not_less)
  moreover have "diag_ok cap (get_comm_event_counter_pdu b pdu cap d)" for b
    using assms(1) by (simp add: get_comm_event_counter_pdu_def) (simp add: diag_ok_def not_less)
  moreover have "diag_ok cap (process_fc08 policy addr pdu cap d)" if "length pdu \<le> 253"
    using fc08_ok [OF assms(1) that] .
  ultimately show ?thesis
    using assms(2,1)
    by (auto simp: mbrtu_diagnostics_process_pdu_def Let_def case_prod_beta split: if_splits)
qed

lemma diagnostics_no_error:
  assumes "log_wf d" "pdu \<noteq> []" "length pdu \<le> 253" "253 \<le> cap"
  shows "fst (mbrtu_diagnostics_process_pdu (Some d) policy addr (Some pdu) (Some cap)) \<noteq> PDU_ERROR"
proof -
  have "event_log_count d \<le> 64" using assms(1) by (simp add: log_wf_def)
  moreover have "fst (silent_or_exception b fc c cap d) \<noteq> PDU_ERROR" for b fc c
    using assms(4) by (simp add: silent_or_exception_def make_exception_def)
  moreover have "make_exception fc c cap \<noteq> PDU_ERROR" "fixed_word_response fc sub v cap \<noteq> PDU_ERROR"
    for fc c sub v
    using assms(4) by (simp_all add: make_exception_def fixed_word_response_def)
  ultimately show ?thesis
    using assms(2-4)
    by (simp add: mbrtu_diagnostics_process_pdu_def Let_def case_prod_beta process_fc08_def
        fc08_return_query_data_def fc08_restart_communications_def
        fc08_return_diagnostic_register_def fc08_force_listen_only_def
        fc08_clear_counters_and_register_def fc08_return_count_def fc08_clear_overrun_counter_def
        read_exception_status_pdu_def get_comm_event_counter_pdu_def get_comm_event_log_pdu_def)
qed

lemma notes_log_wf [simp]:
  "log_wf d \<Longrightarrow> log_wf (mbrtu_diagnostics_note_bus_message b d)"
  "log_wf d \<Longrightarrow> log_wf (mbrtu_diagnostics_note_server_message d)"
  "log_wf d \<Longrightarrow> log_wf (mbrtu_diagnostics_note_exception c d)"
  "log_wf d \<Longrightarrow> log_wf (mbrtu_diagnostics_note_communication_error b ov d)"
  "log_wf d \<Longrightarrow> log_wf (mbrtu_diagnostics_note_character_overrun b ov d)"
  by (simp_all add: mbrtu_diagnostics_note_bus_message_def mbrtu_diagnostics_note_server_message_def
      mbrtu_diagnostics_note_exception_def mbrtu_diagnostics_note_communication_error_def
      mbrtu_diagnostics_note_character_overrun_def Let_def push_event_wf)

lemma notes_listen_only [simp]:
  "listen_only (mbrtu_diagnostics_note_bus_message b d) = listen_only d"
  "listen_only (mbrtu_diagnostics_note_server_message d) = listen_only d"
  "listen_only (mbrtu_diagnostics_note_exception e d) = listen_only d"
  "listen_only (mbrtu_diagnostics_note_normal_completion b b' d) = listen_only d"
  by (simp_all add: mbrtu_diagnostics_note_bus_message_def mbrtu_diagnostics_note_server_message_def
      mbrtu_diagnostics_note_exception_def mbrtu_diagnostics_note_normal_completion_def push_event_def Let_def)

end
