(* ===== verification/Server_Id.thy ===== *)
theory Server_Id
  imports Pdu
begin

text \<open>
  Report Server ID (FC17) of modbus_rtu_server_id.c: the configured identity block and its
  request handler. The data array up to \<open>byte_count\<close> is a list.
\<close>

abbreviation (input) MBRTU_SERVER_ID_MAX_BYTE_COUNT :: nat where
  "MBRTU_SERVER_ID_MAX_BYTE_COUNT \<equiv> 251"
abbreviation (input) MBRTU_SERVER_ID_MAX_SERVER_ID_LENGTH :: nat where
  "MBRTU_SERVER_ID_MAX_SERVER_ID_LENGTH \<equiv> 250"
abbreviation (input) MBRTU_SERVER_ID_MAX_ADDITIONAL_DATA :: nat where
  "MBRTU_SERVER_ID_MAX_ADDITIONAL_DATA \<equiv> 249"

record mbrtu_server_id_state =
  sid_configured :: bool
  sid_data :: bytes

datatype server_id_error = SERVER_ID_ERROR_ARGUMENT | SERVER_ID_ERROR_STATUS
| SERVER_ID_ERROR_CAPACITY | SERVER_ID_ERROR_LENGTH

datatype server_id_result = SERVER_ID_NOT_HANDLED | SERVER_ID_RESPONSE bytes | SERVER_ID_PDU_ERROR
| SERVER_ID_PDU_CAPACITY

definition mbrtu_server_id_clear :: "mbrtu_server_id_state \<Rightarrow> mbrtu_server_id_state" where
  "mbrtu_server_id_clear st = \<lparr>sid_configured = False, sid_data = []\<rparr>"

definition mbrtu_server_id_configure ::
  "bytes option \<Rightarrow> u8 \<Rightarrow> bytes option \<Rightarrow> nat \<Rightarrow> mbrtu_server_id_state \<Rightarrow>
   (server_id_error + unit) \<times> mbrtu_server_id_state" where
  "mbrtu_server_id_configure server_id run_status additional additional_length st =
     (if server_id = None \<or> (additional_length > 0 \<and> additional = None)
      then (Inl SERVER_ID_ERROR_ARGUMENT, st)
      else if length (the server_id) = 0 \<or>
              length (the server_id) > MBRTU_SERVER_ID_MAX_SERVER_ID_LENGTH
      then (Inl SERVER_ID_ERROR_LENGTH, st)
      else if run_status \<noteq> 0x00 \<and> run_status \<noteq> 0xFF then (Inl SERVER_ID_ERROR_STATUS, st)
      else if additional_length > MBRTU_SERVER_ID_MAX_ADDITIONAL_DATA
      then (Inl SERVER_ID_ERROR_CAPACITY, st)
      else if length (the server_id) + 1 + additional_length > MBRTU_SERVER_ID_MAX_BYTE_COUNT
      then (Inl SERVER_ID_ERROR_CAPACITY, st)
      else (Inr (), \<lparr>sid_configured = True,
              sid_data = the server_id @ [run_status] @
                (if additional_length > 0 then take additional_length (the additional) else [])\<rparr>))"

definition mbrtu_server_id_is_configured :: "mbrtu_server_id_state \<Rightarrow> bool" where
  "mbrtu_server_id_is_configured st \<longleftrightarrow> sid_configured st"

definition write_exception :: "u8 \<Rightarrow> bytes" where
  "write_exception exception_code = [0x11 OR 0x80, exception_code]"

definition mbrtu_server_id_process_pdu ::
  "mbrtu_server_id_state \<Rightarrow> bytes option \<Rightarrow> nat option \<Rightarrow> server_id_result" where
  "mbrtu_server_id_process_pdu st request capacity =
     (case (request, capacity) of
        (Some pdu, Some cap) \<Rightarrow>
          if length pdu = 0 \<or> pdu ! 0 \<noteq> 0x11 then SERVER_ID_NOT_HANDLED
          else if cap < 2 then SERVER_ID_PDU_CAPACITY
          else if length pdu \<noteq> 1 then SERVER_ID_RESPONSE (write_exception 0x03)
          else if \<not> sid_configured st then SERVER_ID_RESPONSE (write_exception 0x04)
          else if cap < 2 + length (sid_data st) then SERVER_ID_PDU_CAPACITY
          else SERVER_ID_RESPONSE ([0x11, of_nat (length (sid_data st))] @ sid_data st)
      | _ \<Rightarrow> SERVER_ID_PDU_ERROR)"

definition server_id_wf :: "mbrtu_server_id_state \<Rightarrow> bool" where
  "server_id_wf st \<longleftrightarrow> length (sid_data st) \<le> MBRTU_SERVER_ID_MAX_BYTE_COUNT"

lemma server_id_configure_wf:
  "server_id_wf st \<Longrightarrow> server_id_wf (snd (mbrtu_server_id_configure sid rs ad n st))"
  by (auto simp: mbrtu_server_id_configure_def server_id_wf_def)

lemma server_id_configure_error:
  "mbrtu_server_id_configure sid rs ad n st = (Inl e, st') \<Longrightarrow> st' = st"
  by (auto simp: mbrtu_server_id_configure_def split: if_splits)

lemma server_id_response_length:
  "server_id_wf st \<Longrightarrow> mbrtu_server_id_process_pdu st (Some pdu) (Some cap) = SERVER_ID_RESPONSE rsp \<Longrightarrow>
   2 \<le> length rsp \<and> length rsp \<le> min cap 253"
  by (auto simp: mbrtu_server_id_process_pdu_def server_id_wf_def write_exception_def split: if_splits)

text \<open>
  Report Server ID returns the configured identity: after a successful configuration
  the FC17 response is the function code, the byte count and exactly the server
  identification, the run indicator and the additional data; the byte count is exact.
\<close>

lemma server_id_roundtrip:
  assumes "mbrtu_server_id_configure (Some sid) rs ad n st = (Inr (), st')" "2 + 251 \<le> cap"
    "\<And>a. ad = Some a \<Longrightarrow> n \<le> length a"
  shows "\<exists>data. mbrtu_server_id_process_pdu st' (Some [0x11]) (Some cap) =
      SERVER_ID_RESPONSE ([0x11, of_nat (length data)] @ data) \<and>
    data = sid @ [rs] @ take n (case ad of None \<Rightarrow> [] | Some a \<Rightarrow> a) \<and>
    length data = length sid + 1 + n \<and> length data \<le> 251 \<and> (rs = 0x00 \<or> rs = 0xFF)"
proof -
  let ?data = "sid @ [rs] @ (if n > 0 then take n (the ad) else [])"
  have c: "st' = \<lparr>sid_configured = True, sid_data = ?data\<rparr>" "length sid + 1 + n \<le> 251"
    "rs = 0x00 \<or> rs = 0xFF" "n > 0 \<longrightarrow> ad \<noteq> None"
    using assms(1) by (auto simp: mbrtu_server_id_configure_def split: if_splits)
  have data: "?data = sid @ [rs] @ take n (case ad of None \<Rightarrow> [] | Some a \<Rightarrow> a)"
    using c(4) by (auto split: option.splits)
  have len: "length ?data = length sid + 1 + n"
    using c(4) assms(3) by (auto split: option.splits)
  have "mbrtu_server_id_process_pdu st' (Some [0x11]) (Some cap) =
      SERVER_ID_RESPONSE ([0x11, of_nat (length ?data)] @ ?data)"
    using c(1,2) len assms(2) by (auto simp: mbrtu_server_id_process_pdu_def)
  with data len c show ?thesis by (metis (no_types, lifting))
qed

end
