(* ===== verification/Rtu.thy ===== *)
theory Rtu
  imports Crc16 Diagnostics Server_Id
begin

text \<open>
  Complete-frame RTU processing of modbus_rtu.c: address and CRC checks, diagnostics,
  Report Server ID, broadcasts and unicast requests. The long C function is one definition
  per stage; \<open>None\<close> from a stage means that the source falls through to the next one. The
  state is the PDU server, the identity block and the optional diagnostics object; calls of
  the note functions with a NULL object are \<open>map_option\<close>. The build with diagnostics and
  server identification enabled is modelled, which is the build of the repository.
\<close>

abbreviation (input) MODBUS_RTU_ADDRESS_MIN :: u8 where "MODBUS_RTU_ADDRESS_MIN \<equiv> 1"
abbreviation (input) MODBUS_RTU_ADDRESS_MAX :: u8 where "MODBUS_RTU_ADDRESS_MAX \<equiv> 247"
abbreviation (input) MODBUS_RTU_ADU_MIN_SIZE :: nat where "MODBUS_RTU_ADU_MIN_SIZE \<equiv> 4"
abbreviation (input) MODBUS_RTU_ADU_MAX_SIZE :: nat where "MODBUS_RTU_ADU_MAX_SIZE \<equiv> 256"

datatype mbrtu_result =
  MBRTU_NO_RESPONSE | MBRTU_RESPONSE_READY bytes | MBRTU_ERROR_ARGUMENT
| MBRTU_ERROR_SLAVE_ADDRESS | MBRTU_ERROR_RESPONSE_CAPACITY | MBRTU_ERROR_PDU

record rtu_state =
  rtu_mb :: mb_state
  rtu_server_id :: mbrtu_server_id_state
  rtu_diag :: "mbrtu_diagnostics option"

definition note_diag :: "(mbrtu_diagnostics \<Rightarrow> mbrtu_diagnostics) \<Rightarrow> rtu_state \<Rightarrow> rtu_state" where
  "note_diag f s = s\<lparr>rtu_diag := map_option f (rtu_diag s)\<rparr>"

definition is_supported_write_function :: "u8 \<Rightarrow> bool" where
  "is_supported_write_function fc \<longleftrightarrow>
     fc = 0x05 \<or> fc = 0x06 \<or> fc = 0x0F \<or> fc = 0x10 \<or> fc = 0x15 \<or> fc = 0x16"

definition response_exception_code :: "bytes \<Rightarrow> u8" where
  "response_exception_code pdu =
     (if length pdu = 2 \<and> pdu ! 0 AND 0x80 \<noteq> 0 then pdu ! 1 else 0)"

text \<open>Address, PDU and the CRC over both, as every response is assembled.\<close>

definition rtu_frame :: "u8 \<Rightarrow> bytes \<Rightarrow> bytes" where
  "rtu_frame address pdu = [address] @ pdu @ write_crc_le (mb_crc16 ([address] @ pdu))"

definition pdu_room :: "nat \<Rightarrow> nat" where
  "pdu_room cap = (if cap > 1 + 2 then cap - 1 - 2 else 0)"

definition rtu_diagnostics_stage ::
  "diag_policy \<Rightarrow> bytes \<Rightarrow> nat \<Rightarrow> rtu_state \<Rightarrow> mbrtu_result option \<times> rtu_state" where
  "rtu_diagnostics_stage policy adu cap s =
     (if rtu_diag s = None then (None, s)
      else
        let request_address = adu ! 0; pdu = take (length adu - 3) (drop 1 adu);
            (r, d) = mbrtu_diagnostics_process_pdu (rtu_diag s) policy request_address
                       (Some pdu) (Some (pdu_room cap));
            s = s\<lparr>rtu_diag := d\<rparr> in
        case r of
          PDU_RESPONSE rsp \<Rightarrow>
            if cap < 1 + length rsp + 2 then (Some MBRTU_ERROR_RESPONSE_CAPACITY, s)
            else
              let exception_code = response_exception_code rsp in
              (Some (MBRTU_RESPONSE_READY (rtu_frame request_address rsp)),
               if exception_code \<noteq> 0 then note_diag (mbrtu_diagnostics_note_exception exception_code) s
               else if \<not> (adu ! 1 = 0x08 \<and> length pdu \<ge> 3 \<and> adu ! 2 = 0x00 \<and>
                         (adu ! 3 = 0x01 \<or> adu ! 3 = 0x0A))
               then note_diag (mbrtu_diagnostics_note_normal_completion False
                            (adu ! 1 = 0x0B \<or> adu ! 1 = 0x0C)) s
               else s)
        | PDU_NO_RESPONSE \<Rightarrow> (Some MBRTU_NO_RESPONSE, s)
        | PDU_ERROR \<Rightarrow> (Some MBRTU_ERROR_PDU, s)
        | PDU_NOT_HANDLED \<Rightarrow> (None, s))"

definition note_response :: "bytes \<Rightarrow> rtu_state \<Rightarrow> rtu_state" where
  "note_response rsp s =
     (let exception_code = response_exception_code rsp in
      if exception_code \<noteq> 0 then note_diag (mbrtu_diagnostics_note_exception exception_code) s
      else note_diag (mbrtu_diagnostics_note_normal_completion False False) s)"

definition rtu_server_id_stage ::
  "bytes \<Rightarrow> nat \<Rightarrow> rtu_state \<Rightarrow> mbrtu_result option \<times> rtu_state" where
  "rtu_server_id_stage adu cap s =
     (if adu ! 1 \<noteq> 0x11 then (None, s)
      else if adu ! 0 = 0
      then (Some MBRTU_NO_RESPONSE, note_diag (mbrtu_diagnostics_note_normal_completion False True) s)
      else case mbrtu_server_id_process_pdu (rtu_server_id s)
               (Some (take (length adu - 3) (drop 1 adu))) (Some (pdu_room cap)) of
          SERVER_ID_RESPONSE rsp \<Rightarrow>
            if cap < 1 + length rsp + 2 then (Some MBRTU_ERROR_RESPONSE_CAPACITY, s)
            else (Some (MBRTU_RESPONSE_READY (rtu_frame (adu ! 0) rsp)), note_response rsp s)
        | SERVER_ID_PDU_CAPACITY \<Rightarrow> (Some MBRTU_ERROR_RESPONSE_CAPACITY, s)
        | SERVER_ID_PDU_ERROR \<Rightarrow> (Some MBRTU_ERROR_PDU, s)
        | SERVER_ID_NOT_HANDLED \<Rightarrow> (None, s))"

definition rtu_broadcast_stage ::
  "mei_call \<Rightarrow> bytes \<Rightarrow> rtu_state \<Rightarrow> mbrtu_result \<times> rtu_state" where
  "rtu_broadcast_stage call adu s =
     (if \<not> is_supported_write_function (adu ! 1)
      then (MBRTU_NO_RESPONSE, note_diag (mbrtu_diagnostics_note_normal_completion False True) s)
      else case mb_process_pdu call (rtu_mb s) (Some (take (length adu - 3) (drop 1 adu)))
               (Some MODBUS_PDU_MAX_SIZE) of
          (Inl _, m) \<Rightarrow> (MBRTU_ERROR_PDU, s\<lparr>rtu_mb := m\<rparr>)
        | (Inr rsp, m) \<Rightarrow>
            (MBRTU_NO_RESPONSE,
             note_diag (mbrtu_diagnostics_note_normal_completion False (response_exception_code rsp \<noteq> 0))
               (s\<lparr>rtu_mb := m\<rparr>)))"

definition rtu_unicast_stage ::
  "mei_call \<Rightarrow> bytes \<Rightarrow> nat \<Rightarrow> rtu_state \<Rightarrow> mbrtu_result \<times> rtu_state" where
  "rtu_unicast_stage call adu cap s =
     (if cap < 1 + 2 + 2 then (MBRTU_ERROR_RESPONSE_CAPACITY, s)
      else case mb_process_pdu call (rtu_mb s) (Some (take (length adu - 3) (drop 1 adu)))
               (Some (cap - 1 - 2)) of
          (Inl _, m) \<Rightarrow> (MBRTU_ERROR_PDU, s\<lparr>rtu_mb := m\<rparr>)
        | (Inr rsp, m) \<Rightarrow>
            (MBRTU_RESPONSE_READY (rtu_frame (adu ! 0) rsp), note_response rsp (s\<lparr>rtu_mb := m\<rparr>)))"

definition rtu_process_addressed ::
  "mei_call \<Rightarrow> diag_policy \<Rightarrow> bytes \<Rightarrow> nat \<Rightarrow> rtu_state \<Rightarrow> mbrtu_result \<times> rtu_state" where
  "rtu_process_addressed call policy adu cap s =
     (case rtu_diagnostics_stage policy adu cap s of
        (Some r, s) \<Rightarrow> (r, s)
      | (None, s) \<Rightarrow>
          (case rtu_server_id_stage adu cap s of
             (Some r, s) \<Rightarrow> (r, s)
           | (None, s) \<Rightarrow>
               if adu ! 0 = 0 then rtu_broadcast_stage call adu s
               else rtu_unicast_stage call adu cap s))"

definition mbrtu_process_adu_with_diagnostics ::
  "mei_call \<Rightarrow> diag_policy \<Rightarrow> u8 \<Rightarrow> bytes option \<Rightarrow> nat option \<Rightarrow> rtu_state \<Rightarrow>
   mbrtu_result \<times> rtu_state" where
  "mbrtu_process_adu_with_diagnostics call policy slave_address request capacity s =
     (case (request, capacity) of
        (Some adu, Some cap) \<Rightarrow>
          if slave_address < MODBUS_RTU_ADDRESS_MIN \<or> slave_address > MODBUS_RTU_ADDRESS_MAX
          then (MBRTU_ERROR_SLAVE_ADDRESS, s)
          else if length adu < MODBUS_RTU_ADU_MIN_SIZE \<or> length adu > MODBUS_RTU_ADU_MAX_SIZE then
            (MBRTU_NO_RESPONSE,
             if length adu > 0
             then note_diag (mbrtu_diagnostics_note_communication_error (adu ! 0 = 0) False) s else s)
          else
            let request_address = adu ! 0; broadcast = (request_address = 0);
                received_crc = read_crc_le adu (length adu - 2);
                calculated_crc = mb_crc16 (take (length adu - 2) adu) in
            if received_crc \<noteq> calculated_crc
            then (MBRTU_NO_RESPONSE,
                  note_diag (mbrtu_diagnostics_note_communication_error broadcast False) s)
            else
              let s = note_diag (mbrtu_diagnostics_note_bus_message broadcast) s in
              if request_address \<noteq> 0 \<and> request_address \<noteq> slave_address
              then (MBRTU_NO_RESPONSE, s)
              else
                let s = note_diag mbrtu_diagnostics_note_server_message s in
                if mbrtu_diagnostics_is_listen_only (rtu_diag s) \<and>
                   \<not> (length adu - 3 \<ge> 5 \<and> adu ! 1 = 0x08 \<and> adu ! 2 = 0x00 \<and> adu ! 3 = 0x01)
                then (MBRTU_NO_RESPONSE,
                      note_diag (mbrtu_diagnostics_note_normal_completion (\<not> broadcast) True) s)
                else rtu_process_addressed call policy adu cap s
      | _ \<Rightarrow> (MBRTU_ERROR_ARGUMENT, s))"

definition mbrtu_process_adu ::
  "mei_call \<Rightarrow> u8 \<Rightarrow> bytes option \<Rightarrow> nat option \<Rightarrow> rtu_state \<Rightarrow> mbrtu_result \<times> rtu_state" where
  "mbrtu_process_adu call slave_address request capacity s =
     (let (r, s') = mbrtu_process_adu_with_diagnostics call None slave_address request capacity
                      (s\<lparr>rtu_diag := None\<rparr>) in
      (r, s'\<lparr>rtu_diag := rtu_diag s\<rparr>))"

section \<open>Frames\<close>

lemma rtu_frame_crc: "mb_crc16 (rtu_frame address pdu) = 0"
  unfolding rtu_frame_def using crc_append_zero [of "[address] @ pdu"] by simp

lemma rtu_frame_length [simp]: "length (rtu_frame address pdu) = 3 + length pdu"
  by (simp add: rtu_frame_def)

lemma rtu_frame_parts [simp]:
  "rtu_frame address pdu ! 0 = address"
  "pdu \<noteq> [] \<Longrightarrow> rtu_frame address pdu ! Suc 0 = pdu ! 0"
  "take (length pdu) (drop (Suc 0) (rtu_frame address pdu)) = pdu"
  "take (Suc (length pdu)) (rtu_frame address pdu) = address # pdu"
  by (simp_all add: rtu_frame_def nth_append)

lemma rtu_frame_trailer:
  "read_crc_le (rtu_frame address pdu) (Suc (length pdu)) = mb_crc16 (address # pdu)"
  using le.dec_enc [of "address # pdu" "mb_crc16 (address # pdu)" "[]"]
  by (simp add: rtu_frame_def)

section \<open>Invariant and totality\<close>

definition rtu_wf :: "rtu_state \<Rightarrow> bool" where
  "rtu_wf s \<longleftrightarrow> mb_wf (rtu_mb s) \<and> server_id_wf (rtu_server_id s) \<and>
     (case rtu_diag s of None \<Rightarrow> True | Some d \<Rightarrow> log_wf d)"

lemma note_diag_fields [simp]:
  "rtu_mb (note_diag f s) = rtu_mb s" "rtu_server_id (note_diag f s) = rtu_server_id s"
  "rtu_diag (note_diag f s) = map_option f (rtu_diag s)"
  by (simp_all add: note_diag_def)

lemma note_diag_wf:
  "rtu_wf s \<Longrightarrow> (\<And>d. log_wf d \<Longrightarrow> log_wf (f d)) \<Longrightarrow> rtu_wf (note_diag f s)"
  by (auto simp: rtu_wf_def split: option.splits)

lemma note_response_wf: "rtu_wf s \<Longrightarrow> rtu_wf (note_response rsp s)"
  by (simp add: note_response_def Let_def note_diag_wf)

lemma note_response_mb [simp]: "rtu_mb (note_response rsp s) = rtu_mb s"
  by (simp add: note_response_def Let_def)

lemma rtu_wf_mb: "rtu_wf s \<Longrightarrow> mb_wf m \<Longrightarrow> rtu_wf (s\<lparr>rtu_mb := m\<rparr>)"
  by (simp add: rtu_wf_def)

text \<open>What a stage may return: a frame of the slave within the capacity, or nothing.\<close>

definition answer_ok :: "u8 \<Rightarrow> mbrtu_result \<Rightarrow> bool" where
  "answer_ok a r \<longleftrightarrow> r = MBRTU_NO_RESPONSE \<or>
     (\<exists>pdu. r = MBRTU_RESPONSE_READY (rtu_frame a pdu) \<and> 2 \<le> length pdu \<and> length pdu \<le> 253 \<and> a \<noteq> 0)"

lemma diagnostics_broadcast_silent:
  "mbrtu_diagnostics_process_pdu (Some d) policy 0 (Some pdu) (Some cap) = (PDU_RESPONSE rsp, d') \<Longrightarrow> False"
  by (auto simp: mbrtu_diagnostics_process_pdu_def Let_def case_prod_beta process_fc08_def
        fc08_return_query_data_def fc08_restart_communications_def silent_or_exception_def
        fc08_return_diagnostic_register_def fc08_force_listen_only_def
        fc08_clear_counters_and_register_def fc08_return_count_def fc08_clear_overrun_counter_def
        read_exception_status_pdu_def get_comm_event_counter_pdu_def get_comm_event_log_pdu_def
      split: if_splits)

lemma diagnostics_stage_ok:
  assumes "rtu_wf s" "4 \<le> length adu" "length adu \<le> 256" "256 \<le> cap"
    "rtu_diagnostics_stage policy adu cap s = (r, s')"
  shows "rtu_wf s' \<and> rtu_mb s' = rtu_mb s \<and> (\<forall>x. r = Some x \<longrightarrow> answer_ok (adu ! 0) x)"
proof (cases "rtu_diag s")
  case None
  then show ?thesis using assms(1,5) by (auto simp: rtu_diagnostics_stage_def)
next
  case (Some d)
  let ?pdu = "take (length adu - 3) (drop 1 adu)"
  obtain q d2 where q: "mbrtu_diagnostics_process_pdu (Some d) policy (adu ! 0) (Some ?pdu)
      (Some (pdu_room cap)) = (q, d2)" by fastforce
  have room: "pdu_room cap = cap - 3" using assms(4) by (simp add: pdu_room_def)
  have pdu: "?pdu \<noteq> []" "length ?pdu \<le> 253" using assms(2,3) by auto
  have wf: "log_wf d" using assms(1) Some by (simp add: rtu_wf_def)
  obtain d' where d': "d2 = Some d'" "diag_ok (pdu_room cap) (q, d')"
    using diagnostics_process_ok [OF wf q] by blast
  have ne: "q \<noteq> PDU_ERROR"
    using diagnostics_no_error [OF wf pdu, of "pdu_room cap" policy "adu ! 0"] q room assms(4) by simp
  have uni: "adu ! 0 \<noteq> 0" if "q = PDU_RESPONSE rsp" for rsp
    using diagnostics_broadcast_silent q that by metis
  have s1: "rtu_wf (s\<lparr>rtu_diag := d2\<rparr>)" using assms(1) d' by (simp add: rtu_wf_def diag_ok_def)
  show ?thesis
  proof (cases q)
    case (PDU_RESPONSE rsp)
    then have len: "2 \<le> length rsp" "length rsp \<le> 253" "length rsp \<le> cap - 3"
      using d'(2) room by (auto simp: diag_ok_def)
    then have "r = Some (MBRTU_RESPONSE_READY (rtu_frame (adu ! 0) rsp))" "rtu_mb s' = rtu_mb s" "rtu_wf s'"
      using assms(4,5) Some q PDU_RESPONSE s1
      by (auto simp: rtu_diagnostics_stage_def Let_def note_diag_wf split: if_splits)
    then show ?thesis using len uni [OF PDU_RESPONSE] by (auto simp: answer_ok_def)
  qed (use assms(5) Some q s1 ne in \<open>auto simp: rtu_diagnostics_stage_def Let_def answer_ok_def\<close>)
qed

lemma server_id_stage_ok:
  assumes "rtu_wf s" "256 \<le> cap" "rtu_server_id_stage adu cap s = (r, s')"
  shows "rtu_wf s' \<and> rtu_mb s' = rtu_mb s \<and> (\<forall>x. r = Some x \<longrightarrow> answer_ok (adu ! 0) x)"
proof -
  let ?p = "mbrtu_server_id_process_pdu (rtu_server_id s)
      (Some (take (length adu - 3) (drop 1 adu))) (Some (pdu_room cap))"
  have wf: "server_id_wf (rtu_server_id s)" using assms(1) by (simp add: rtu_wf_def)
  have room: "pdu_room cap = cap - 3" using assms(2) by (simp add: pdu_room_def)
  have len: "2 \<le> length rsp \<and> length rsp \<le> min (cap - 3) 253" if "?p = SERVER_ID_RESPONSE rsp" for rsp
    using server_id_response_length [OF wf that] room by simp
  have ne: "?p \<noteq> SERVER_ID_PDU_CAPACITY" "?p \<noteq> SERVER_ID_PDU_ERROR"
    using wf room assms(2) by (auto simp: mbrtu_server_id_process_pdu_def server_id_wf_def)
  show ?thesis
  proof (cases "adu ! 1 \<noteq> 0x11 \<or> adu ! 0 = 0")
    case True
    then show ?thesis
      using assms(1,3) by (auto simp: rtu_server_id_stage_def answer_ok_def note_diag_wf split: if_splits)
  next
    case False
    show ?thesis
    proof (cases ?p)
      case (SERVER_ID_RESPONSE rsp)
      then show ?thesis
        using assms False len [OF SERVER_ID_RESPONSE]
        by (auto simp: rtu_server_id_stage_def answer_ok_def note_response_wf split: if_splits)
    qed (use assms False ne in \<open>auto simp: rtu_server_id_stage_def\<close>)
  qed
qed

lemma request_pdu_legal:
  "4 \<le> length adu \<Longrightarrow> length adu \<le> 256 \<Longrightarrow>
   take (length adu - 3) (drop 1 adu) \<noteq> [] \<and> length (take (length adu - 3) (drop 1 adu)) \<le> 253"
  by auto

lemma broadcast_stage_ok:
  assumes "rtu_wf s" "4 \<le> length adu" "length adu \<le> 256" "rtu_broadcast_stage call adu s = (r, s')"
  shows "rtu_wf s' \<and> r = MBRTU_NO_RESPONSE \<and>
    rtu_mb s' = (if is_supported_write_function (adu ! 1)
      then snd (mb_process_pdu call (rtu_mb s) (Some (take (length adu - 3) (drop 1 adu))) (Some 253))
      else rtu_mb s)"
proof -
  have "mb_wf (rtu_mb s)" using assms(1) by (simp add: rtu_wf_def)
  then obtain rsp m where m: "mb_process_pdu call (rtu_mb s) (Some (take (length adu - 3) (drop 1 adu)))
      (Some 253) = (Inr rsp, m)" "mb_wf m"
    using pdu.answers [of "rtu_mb s" "take (length adu - 3) (drop 1 adu)" 253 call]
      request_pdu_legal [OF assms(2,3)] by auto
  show ?thesis
    using assms(1,4) m rtu_wf_mb [OF assms(1) m(2)]
    by (auto simp: rtu_broadcast_stage_def note_diag_wf split: if_splits)
qed

lemma unicast_stage_ok:
  assumes "rtu_wf s" "4 \<le> length adu" "length adu \<le> 256" "256 \<le> cap" "adu ! 0 \<noteq> 0"
    "rtu_unicast_stage call adu cap s = (r, s')"
  shows "rtu_wf s' \<and> answer_ok (adu ! 0) r \<and>
    (\<exists>rsp. mb_process_pdu call (rtu_mb s) (Some (take (length adu - 3) (drop 1 adu))) (Some (cap - 3)) =
      (Inr rsp, rtu_mb s') \<and> r = MBRTU_RESPONSE_READY (rtu_frame (adu ! 0) rsp))"
proof -
  have "mb_wf (rtu_mb s)" using assms(1) by (simp add: rtu_wf_def)
  then obtain rsp m where m: "mb_process_pdu call (rtu_mb s) (Some (take (length adu - 3) (drop 1 adu)))
      (Some (cap - 3)) = (Inr rsp, m)" "mb_wf m" "2 \<le> length rsp" "length rsp \<le> min (cap - 3) 253"
    using pdu.answers [of "rtu_mb s" "take (length adu - 3) (drop 1 adu)" "cap - 3" call]
      request_pdu_legal [OF assms(2,3)] diff_le_mono [OF assms(4), of 3] by auto
  then have "r = MBRTU_RESPONSE_READY (rtu_frame (adu ! 0) rsp)" "s' = note_response rsp (s\<lparr>rtu_mb := m\<rparr>)"
    using assms(4,6) by (auto simp: rtu_unicast_stage_def numeral_3_eq_3 numeral_2_eq_2)
  then show ?thesis
    using m assms(1,5) by (auto simp: answer_ok_def rtu_wf_mb note_response_wf)
qed

lemma addressed_ok:
  assumes "rtu_wf s" "4 \<le> length adu" "length adu \<le> 256" "256 \<le> cap"
    "rtu_process_addressed call policy adu cap s = (r, s')"
  shows "rtu_wf s' \<and> answer_ok (adu ! 0) r"
proof -
  obtain q1 s1 where 1: "rtu_diagnostics_stage policy adu cap s = (q1, s1)" by fastforce
  obtain q2 s2 where 2: "rtu_server_id_stage adu cap s1 = (q2, s2)" by fastforce
  note ok1 = diagnostics_stage_ok [OF assms(1-4) 1]
  then have ok2: "rtu_wf s2 \<and> rtu_mb s2 = rtu_mb s1 \<and> (\<forall>x. q2 = Some x \<longrightarrow> answer_ok (adu ! 0) x)"
    using server_id_stage_ok [OF _ assms(4) 2] by blast
  show ?thesis
  proof (cases "q1 = None \<and> q2 = None")
    case True
    then have r: "(if adu ! 0 = 0 then rtu_broadcast_stage call adu s2
        else rtu_unicast_stage call adu cap s2) = (r, s')"
      using assms(5) 1 2 by (simp add: rtu_process_addressed_def)
    show ?thesis
    proof (cases "adu ! 0 = 0")
      case True
      then show ?thesis using r broadcast_stage_ok [of s2 adu call r s'] ok2 assms(2,3)
        by (simp add: answer_ok_def)
    next
      case False
      then show ?thesis using r unicast_stage_ok [of s2 adu cap call r s'] ok2 assms(2-4) by simp
    qed
  next
    case False
    then show ?thesis
      using assms(5) 1 2 ok1 ok2 by (auto simp: rtu_process_addressed_def split: option.splits)
  qed
qed

lemma crc_valid_iff:
  "2 \<le> length adu \<Longrightarrow>
   read_crc_le adu (length adu - 2) = mb_crc16 (take (length adu - 2) adu) \<longleftrightarrow> mb_crc16 adu = 0"
  using crc_residue_zero by blast

text \<open>The frames the slave considers: right length, valid CRC, its address or broadcast.\<close>

definition frame_accepted :: "u8 \<Rightarrow> bytes \<Rightarrow> bool" where
  "frame_accepted a adu \<longleftrightarrow> 4 \<le> length adu \<and> length adu \<le> 256 \<and> mb_crc16 adu = 0 \<and>
     (adu ! 0 = 0 \<or> adu ! 0 = a)"

lemma rtu_rejected:
  assumes "1 \<le> a" "a \<le> 247" "\<not> frame_accepted a adu" "rtu_wf s"
    "mbrtu_process_adu_with_diagnostics call policy a (Some adu) (Some cap) s = (r, s')"
  shows "r = MBRTU_NO_RESPONSE \<and> rtu_mb s' = rtu_mb s \<and> rtu_server_id s' = rtu_server_id s \<and> rtu_wf s'"
  using assms crc_valid_iff [of adu]
  by (auto simp: mbrtu_process_adu_with_diagnostics_def frame_accepted_def Let_def not_less not_le
      note_diag_wf split: if_splits)

lemma rtu_accepted:
  assumes "1 \<le> a" "a \<le> 247" "frame_accepted a adu"
  defines "s1 s \<equiv> note_diag mbrtu_diagnostics_note_server_message
    (note_diag (mbrtu_diagnostics_note_bus_message (adu ! 0 = 0)) s)"
  shows "mbrtu_process_adu_with_diagnostics call policy a (Some adu) (Some cap) s =
    (if mbrtu_diagnostics_is_listen_only (rtu_diag s) \<and>
        \<not> (length adu - 3 \<ge> 5 \<and> adu ! 1 = 0x08 \<and> adu ! 2 = 0x00 \<and> adu ! 3 = 0x01)
     then (MBRTU_NO_RESPONSE,
           note_diag (mbrtu_diagnostics_note_normal_completion (adu ! 0 \<noteq> 0) True) (s1 s))
     else rtu_process_addressed call policy adu cap (s1 s))"
proof -
  have "read_crc_le adu (length adu - 2) = mb_crc16 (take (length adu - 2) adu)"
    using assms(3) crc_valid_iff [of adu] by (simp add: frame_accepted_def)
  moreover have "mbrtu_diagnostics_is_listen_only (rtu_diag (s1 s)) =
      mbrtu_diagnostics_is_listen_only (rtu_diag s)"
    by (simp add: s1_def mbrtu_diagnostics_is_listen_only_def split: option.splits)
  ultimately show ?thesis
    using assms(1-3)
    by (auto simp: mbrtu_process_adu_with_diagnostics_def frame_accepted_def Let_def not_less not_le
        s1_def)
qed

text \<open>
  C32. The RTU slave always does one of two things with a received frame, whatever its
  bytes: it stays silent, or it returns a frame with its own address, a PDU of 2 to 253
  bytes and a valid CRC, and then the request was a frame of legal length with a valid CRC
  addressed to it alone. It never reports an error when the response buffer has the size of
  an ADU, and it keeps the invariant of all the state behind it.
\<close>

theorem rtu_silent_or_valid_answer:
  assumes "rtu_wf s" "1 \<le> a" "a \<le> 247" "256 \<le> cap"
  shows "\<exists>r s'. mbrtu_process_adu_with_diagnostics call policy a (Some adu) (Some cap) s = (r, s') \<and>
    rtu_wf s' \<and>
    (r = MBRTU_NO_RESPONSE \<or>
     (\<exists>pdu. r = MBRTU_RESPONSE_READY (rtu_frame a pdu) \<and> 2 \<le> length pdu \<and> length pdu \<le> 253 \<and>
        mb_crc16 (rtu_frame a pdu) = 0 \<and>
        4 \<le> length adu \<and> length adu \<le> 256 \<and> mb_crc16 adu = 0 \<and> adu ! 0 = a))"
proof -
  obtain r s' where r: "mbrtu_process_adu_with_diagnostics call policy a (Some adu) (Some cap) s = (r, s')"
    by fastforce
  show ?thesis
  proof (cases "frame_accepted a adu")
    case False
    then show ?thesis using rtu_rejected [OF assms(2,3) False assms(1) r] r by auto
  next
    case True
    then have len: "4 \<le> length adu" "length adu \<le> 256" by (simp_all add: frame_accepted_def)
    let ?s1 = "note_diag mbrtu_diagnostics_note_server_message
      (note_diag (mbrtu_diagnostics_note_bus_message (adu ! 0 = 0)) s)"
    have wf1: "rtu_wf ?s1" using assms(1) by (simp add: note_diag_wf)
    have "rtu_wf s' \<and> answer_ok (adu ! 0) r"
      using r wf1 addressed_ok [OF wf1 len assms(4)] unfolding rtu_accepted [OF assms(2,3) True]
      by (auto simp: answer_ok_def note_diag_wf split: if_splits)
    then show ?thesis
      using r True rtu_frame_crc by (auto simp: answer_ok_def frame_accepted_def)
  qed
qed

definition demo_rtu :: rtu_state where
  "demo_rtu = \<lparr>rtu_mb = demo_state, rtu_server_id = \<lparr>sid_configured = False, sid_data = []\<rparr>,
     rtu_diag = Some mbrtu_diagnostics_init\<rparr>"

lemma demo_rtu_wf: "rtu_wf demo_rtu"
  by (simp add: demo_rtu_def rtu_wf_def demo_state_wf server_id_wf_def log_wf_init)

theorem rtu_silent_or_valid_answer_witness:
  "\<exists>r s'. mbrtu_process_adu_with_diagnostics demo_call None 17 (Some [17, 3, 0, 0, 0, 1, 0x86, 0x9A]) (Some 256)
      demo_rtu = (r, s') \<and> rtu_wf s' \<and>
    (r = MBRTU_NO_RESPONSE \<or>
     (\<exists>pdu. r = MBRTU_RESPONSE_READY (rtu_frame 17 pdu) \<and> 2 \<le> length pdu \<and> length pdu \<le> 253 \<and>
        mb_crc16 (rtu_frame 17 pdu) = 0 \<and>
        4 \<le> length [17, 3, 0, 0, 0, 1, 0x86, 0x9A :: u8] \<and> length [17, 3, 0, 0, 0, 1, 0x86, 0x9A :: u8] \<le> 256 \<and>
        mb_crc16 [17, 3, 0, 0, 0, 1, 0x86, 0x9A] = 0 \<and> [17, 3, 0, 0, 0, 1, 0x86, 0x9A :: u8] ! 0 = 17))"
  by (rule rtu_silent_or_valid_answer [OF demo_rtu_wf]) simp_all

section \<open>Broadcast and unicast requests\<close>

lemma rtu_frame_accepted:
  "pdu \<noteq> [] \<Longrightarrow> length pdu \<le> 253 \<Longrightarrow> b = 0 \<or> b = a \<Longrightarrow> frame_accepted a (rtu_frame b pdu)"
  by (cases pdu) (auto simp: frame_accepted_def rtu_frame_crc)


text \<open>
  Frames that are not for the slave have no effect: a frame of illegal length, with a
  wrong CRC or with another slave's address is met with silence, and neither the register
  map nor any other part of the server or the identity block changes; only the diagnostics
  counters and event log may record it.
\<close>

lemma rtu_foreign_frames_ignored:
  assumes "rtu_wf s" "1 \<le> a" "a \<le> 247"
    "length adu < 4 \<or> length adu > 256 \<or> mb_crc16 adu \<noteq> 0 \<or> (adu ! 0 \<noteq> 0 \<and> adu ! 0 \<noteq> a)"
    "mbrtu_process_adu_with_diagnostics call policy a (Some adu) (Some cap) s = (r, s')"
  shows "r = MBRTU_NO_RESPONSE \<and> rtu_mb s' = rtu_mb s \<and> rtu_server_id s' = rtu_server_id s \<and> rtu_wf s'"
proof (rule rtu_rejected [OF assms(2,3) _ assms(1,5)])
  show "\<not> frame_accepted a adu" using assms(4) by (auto simp: frame_accepted_def)
qed

lemma diagnostics_stage_not_diag:
  assumes "adu ! 1 \<noteq> 0x07" "adu ! 1 \<noteq> 0x08" "adu ! 1 \<noteq> 0x0B" "adu ! 1 \<noteq> 0x0C" "4 \<le> length adu"
    "length adu \<le> 256"
  shows "rtu_diagnostics_stage policy adu cap s = (None, s)"
proof (cases "rtu_diag s")
  case None
  then show ?thesis by (simp add: rtu_diagnostics_stage_def)
next
  case (Some d)
  have "take (length adu - 3) (drop 1 adu) ! 0 = adu ! 1" "take (length adu - 3) (drop 1 adu) \<noteq> []"
    using assms(5) by auto
  then have "mbrtu_diagnostics_process_pdu (rtu_diag s) policy (adu ! 0)
      (Some (take (length adu - 3) (drop 1 adu))) (Some (pdu_room cap)) = (PDU_NOT_HANDLED, rtu_diag s)"
    using assms Some by (simp add: mbrtu_diagnostics_process_pdu_def Let_def)
  then show ?thesis using Some by (simp add: rtu_diagnostics_stage_def Let_def)
qed

lemma diagnostics_stage_broadcast:
  assumes "rtu_diagnostics_stage policy adu cap s = (Some r, s')" "4 \<le> length adu"
  shows "adu ! 1 \<in> {0x07, 0x08, 0x0B, 0x0C} \<or> length adu > 256"
  using diagnostics_stage_not_diag [of adu policy cap s] assms by (cases "length adu \<le> 256") auto

text \<open>
  C36. A broadcast is never answered and does exactly what its write says: the register map
  and files become what the PDU server makes of the request when it is one of the supported
  write functions (FC05, FC06, FC15, FC16, FC21, FC22) and the server is not in listen-only
  mode, and stay as they are for every other broadcast.
\<close>

theorem rtu_broadcast_effect:
  assumes "rtu_wf s" "1 \<le> a" "a \<le> 247" "256 \<le> cap" "pdu \<noteq> []" "length pdu \<le> 253"
    "mbrtu_process_adu_with_diagnostics call policy a (Some (rtu_frame 0 pdu)) (Some cap) s = (r, s')"
  shows "r = MBRTU_NO_RESPONSE \<and>
    rtu_mb s' = (if is_supported_write_function (pdu ! 0) \<and>
        \<not> mbrtu_diagnostics_is_listen_only (rtu_diag s)
      then snd (mb_process_pdu call (rtu_mb s) (Some pdu) (Some 253)) else rtu_mb s)"
proof -
  let ?adu = "rtu_frame 0 pdu"
  let ?s1 = "note_diag mbrtu_diagnostics_note_server_message
      (note_diag (mbrtu_diagnostics_note_bus_message (?adu ! 0 = 0)) s)"
  have len: "4 \<le> length ?adu" "length ?adu \<le> 256" using assms(5,6) by (cases pdu; simp)+
  have wf1: "rtu_wf ?s1" using assms(1) by (simp add: note_diag_wf)
  have fc: "?adu ! 1 = pdu ! 0" using assms(5) by simp
  note run = rtu_accepted [OF assms(2,3) rtu_frame_accepted [OF assms(5,6), of 0 a], simplified]
  have no_diag: "\<not> is_supported_write_function (pdu ! 0)"
    if "pdu ! 0 \<in> {0x07, 0x08, 0x0B, 0x0C, 0x11}"
    using that by (auto simp: is_supported_write_function_def)
  have addressed: "r = MBRTU_NO_RESPONSE \<and> rtu_mb s' = (if is_supported_write_function (pdu ! 0)
      then snd (mb_process_pdu call (rtu_mb s) (Some pdu) (Some 253)) else rtu_mb s)"
    if p: "rtu_process_addressed call policy ?adu cap ?s1 = (r, s')"
  proof -
    obtain q1 s2 where 1: "rtu_diagnostics_stage policy ?adu cap ?s1 = (q1, s2)" by fastforce
    note ok1 = diagnostics_stage_ok [OF wf1 len assms(4) 1]
    obtain q2 s3 where 2: "rtu_server_id_stage ?adu cap s2 = (q2, s3)" by fastforce
    have ok2: "rtu_wf s3" "rtu_mb s3 = rtu_mb s2" "\<forall>x. q2 = Some x \<longrightarrow> answer_ok (?adu ! 0) x"
      using ok1 server_id_stage_ok [OF _ assms(4) 2] by blast+
    show ?thesis
    proof (cases "q1 = None \<and> q2 = None")
      case True
      then have "rtu_broadcast_stage call ?adu s3 = (r, s')"
        using p 1 2 by (simp add: rtu_process_addressed_def)
      from broadcast_stage_ok [OF ok2(1) len this] fc ok1 ok2(2) show ?thesis by simp
    next
      case False
      have "pdu ! 0 \<in> {0x07, 0x08, 0x0B, 0x0C, 0x11}"
        using False 1 2 diagnostics_stage_broadcast [of policy ?adu cap ?s1 _ s2] len fc
        by (auto simp: rtu_server_id_stage_def split: if_splits)
      moreover have "r = MBRTU_NO_RESPONSE" "rtu_mb s' = rtu_mb s"
        using False p 1 2 ok1 ok2
        by (auto simp: rtu_process_addressed_def answer_ok_def split: option.splits)
      ultimately show ?thesis using no_diag by simp
    qed
  qed
  have lo_write: "\<not> is_supported_write_function (pdu ! 0)" if "pdu ! 0 = 8"
    using that by (simp add: is_supported_write_function_def)
  show ?thesis
    using assms(7) addressed fc lo_write unfolding run
    by (auto split: if_splits)
qed

theorem rtu_broadcast_effect_witness:
  "fst (mbrtu_process_adu_with_diagnostics demo_call None 17 (Some (rtu_frame 0 [6, 0, 2, 0, 9])) (Some 256) demo_rtu)
     = MBRTU_NO_RESPONSE \<and>
   rtu_mb (snd (mbrtu_process_adu_with_diagnostics demo_call None 17 (Some (rtu_frame 0 [6, 0, 2, 0, 9])) (Some 256)
     demo_rtu)) = snd (mb_process_pdu demo_call demo_state (Some [6, 0, 2, 0, 9]) (Some 253))"
  using rtu_broadcast_effect [OF demo_rtu_wf, of 17 256 "[6, 0, 2, 0, 9]" demo_call None, OF _ _ _ _ _ surjective_pairing]
  by (simp add: demo_rtu_def is_supported_write_function_def mbrtu_diagnostics_is_listen_only_def
      mbrtu_diagnostics_init_def)

lemma unicast_stage_mode:
  assumes "rtu_unicast_stage call adu cap s = (r, s')"
  shows "mbrtu_diagnostics_is_listen_only (rtu_diag s') = mbrtu_diagnostics_is_listen_only (rtu_diag s)"
  using assms by (auto simp: rtu_unicast_stage_def note_response_def Let_def mbrtu_diagnostics_is_listen_only_def
      split: if_splits prod.splits sum.splits option.splits)

lemma unicast_answer:
  assumes "rtu_wf s" "1 \<le> a" "a \<le> 247" "256 \<le> cap" "pdu \<noteq> []" "length pdu \<le> 253"
    "rtu_diag s = None \<or> (\<not> mbrtu_diagnostics_is_listen_only (rtu_diag s) \<and>
       pdu ! 0 \<notin> set [0x07, 0x08, 0x0B, 0x0C])" "pdu ! 0 \<noteq> 0x11"
  shows "\<exists>rsp s'. mbrtu_process_adu_with_diagnostics call policy a (Some (rtu_frame a pdu)) (Some cap) s =
      (MBRTU_RESPONSE_READY (rtu_frame a rsp), s') \<and>
    mb_process_pdu call (rtu_mb s) (Some pdu) (Some (cap - 3)) = (Inr rsp, rtu_mb s') \<and> rtu_wf s' \<and>
    \<not> mbrtu_diagnostics_is_listen_only (rtu_diag s')"
proof -
  let ?adu = "rtu_frame a pdu"
  let ?s1 = "note_diag mbrtu_diagnostics_note_server_message
      (note_diag (mbrtu_diagnostics_note_bus_message (?adu ! 0 = 0)) s)"
  have len: "4 \<le> length ?adu" "length ?adu \<le> 256" using assms(5,6) by (cases pdu; simp)+
  have wf1: "rtu_wf ?s1" using assms(1) by (simp add: note_diag_wf)
  have fc: "?adu ! 1 = pdu ! 0" using assms(5) by simp
  have a0: "?adu ! 0 \<noteq> 0" using assms(2) by (auto simp: word_le_nat_alt)
  note run = rtu_accepted [OF assms(2,3) rtu_frame_accepted [OF assms(5,6), of a a, simplified]]
  have not_lo: "\<not> mbrtu_diagnostics_is_listen_only (rtu_diag s)"
    using assms(7) by (auto simp: mbrtu_diagnostics_is_listen_only_def)
  have "rtu_diagnostics_stage policy ?adu cap ?s1 = (None, ?s1)"
  proof (cases "rtu_diag s")
    case None
    then show ?thesis by (simp add: rtu_diagnostics_stage_def)
  next
    case (Some d)
    then show ?thesis using assms(7) fc len by (intro diagnostics_stage_not_diag) auto
  qed
  moreover have "rtu_server_id_stage ?adu cap ?s1 = (None, ?s1)"
    using assms(8) fc by (simp add: rtu_server_id_stage_def)
  ultimately have p: "rtu_process_addressed call policy ?adu cap ?s1 = rtu_unicast_stage call ?adu cap ?s1"
    using a0 by (simp add: rtu_process_addressed_def)
  obtain r s' where u: "rtu_unicast_stage call ?adu cap ?s1 = (r, s')" by fastforce
  from unicast_stage_ok [OF wf1 len assms(4) a0 u] obtain rsp where
    "mb_process_pdu call (rtu_mb ?s1) (Some (take (length ?adu - 3) (drop 1 ?adu))) (Some (cap - 3)) =
      (Inr rsp, rtu_mb s')" "r = MBRTU_RESPONSE_READY (rtu_frame (?adu ! 0) rsp)" "rtu_wf s'" by blast
  moreover have "\<not> mbrtu_diagnostics_is_listen_only (rtu_diag s')"
    using unicast_stage_mode [OF u] not_lo
    by (simp add: mbrtu_diagnostics_is_listen_only_def split: option.splits)
  ultimately show ?thesis
    unfolding run using not_lo p u by simp
qed

section \<open>Listen-only mode\<close>




text \<open>The diagnostics without its event log, and without the log and the counters of traffic seen.\<close>

definition without_log :: "mbrtu_diagnostics \<Rightarrow> mbrtu_diagnostics" where
  "without_log d = d\<lparr>event_log := [], event_log_head := 0, event_log_count := 0\<rparr>"

definition without_traffic :: "mbrtu_diagnostics \<Rightarrow> mbrtu_diagnostics" where
  "without_traffic d = (without_log d)\<lparr>message_count := 0, bus_communication_error_count := 0,
     bus_exception_error_count := 0, server_message_count := 0, server_no_response_count := 0\<rparr>"

lemma without_log_push [simp]: "without_log (push_event e d) = without_log d"
  by (simp add: without_log_def push_event_def Let_def)

lemma without_log_mode [simp]: "listen_only (without_log d) = listen_only d"
  by (simp add: without_log_def)

lemma without_traffic_push [simp]: "without_traffic (push_event e d) = without_traffic d"
  by (simp add: without_traffic_def)

lemma without_traffic_notes [simp]:
  "without_traffic (mbrtu_diagnostics_note_bus_message b d) = without_traffic d"
  "without_traffic (mbrtu_diagnostics_note_server_message d) = without_traffic d"
  "without_traffic (mbrtu_diagnostics_note_normal_completion nr True d) = without_traffic d"
  "without_traffic (mbrtu_diagnostics_note_communication_error b False d) = without_traffic d"
  "without_traffic (mbrtu_diagnostics_note_exception 3 d) = without_traffic d"
  by (simp_all add: mbrtu_diagnostics_note_bus_message_def mbrtu_diagnostics_note_server_message_def
      mbrtu_diagnostics_note_normal_completion_def mbrtu_diagnostics_note_communication_error_def
      mbrtu_diagnostics_note_exception_def Let_def)
    (simp_all add: without_traffic_def without_log_def)











end
