(* ===== verification/Rtu_Timing.thy ===== *)
theory Rtu_Timing
  imports Prelude
begin

text \<open>
  The RTU timing calculation of modbus_rtu.c, at the widths of the source: 64-bit products
  and quotients truncated to 32-bit tick counts.
\<close>

record mbrtu_timing =
  character_ticks :: u32
  t1_5_ticks :: u32
  t3_5_ticks :: u32
  byte_complete_t1_5_ticks :: u32
  byte_complete_t3_5_ticks :: u32

definition ceil_div_u64 :: "u64 \<Rightarrow> u64 \<Rightarrow> u32" where
  "ceil_div_u64 numerator denominator = ucast ((numerator + denominator - 1) div denominator)"

definition timing_of :: "u32 \<Rightarrow> u32 \<Rightarrow> mbrtu_timing" where
  "timing_of baud_rate bits =
     (let baud = ucast baud_rate :: u64; k = ucast bits :: u64 in
      if baud_rate > 19200 then
        \<lparr>character_ticks = ceil_div_u64 (k * 1000000) (baud * 50),
         t1_5_ticks = 15, t3_5_ticks = 35,
         byte_complete_t1_5_ticks = ceil_div_u64 (750 * baud + k * 1000000) (baud * 50),
         byte_complete_t3_5_ticks = ceil_div_u64 (1750 * baud + k * 1000000) (baud * 50)\<rparr>
      else
        \<lparr>character_ticks = ceil_div_u64 (k * 1000000) (baud * 50),
         t1_5_ticks = ceil_div_u64 (15 * k * 1000000) (10 * baud * 50),
         t3_5_ticks = ceil_div_u64 (35 * k * 1000000) (10 * baud * 50),
         byte_complete_t1_5_ticks = ceil_div_u64 (25 * k * 1000000) (10 * baud * 50),
         byte_complete_t3_5_ticks = ceil_div_u64 (45 * k * 1000000) (10 * baud * 50)\<rparr>)"

text \<open>\<open>None\<close> is the result \<open>MBRTU_ERROR_SERIAL_CONFIG\<close>. The result for a NULL \<open>timing\<close>,
  \<open>MBRTU_ERROR_ARGUMENT\<close>, is left out: the result is returned here, and every caller in the
  modelled sources passes a pointer.\<close>

definition mbrtu_calculate_timing :: "u32 \<Rightarrow> u8 \<Rightarrow> u8 \<Rightarrow> u8 \<Rightarrow> mbrtu_timing option" where
  "mbrtu_calculate_timing baud_rate data_bits parity_bits stop_bits =
     (if baud_rate = 0 \<or> data_bits < 5 \<or> data_bits > 9 \<or> parity_bits > 1 \<or>
         stop_bits < 1 \<or> stop_bits > 2
      then None
      else
        let t = timing_of baud_rate (1 + ucast data_bits + ucast parity_bits + ucast stop_bits) in
        if character_ticks t = 0 \<or> t1_5_ticks t = 0 \<or> t3_5_ticks t = 0 \<or>
           byte_complete_t1_5_ticks t = 0 \<or> byte_complete_t3_5_ticks t = 0 \<or>
           t1_5_ticks t \<ge> t3_5_ticks t \<or>
           byte_complete_t1_5_ticks t \<ge> byte_complete_t3_5_ticks t
        then None else Some t)"

section \<open>No overflow, exact ceilings\<close>

lemma ceil_div_of_nat:
  assumes "0 < d" "n + d < 2 ^ 64" "(n + d - 1) div d < 2 ^ 32"
  shows "unat (ceil_div_u64 (of_nat n) (of_nat d)) = (n + d - 1) div d"
proof -
  have "(of_nat n + of_nat d - 1 :: u64) = of_nat (n + d - 1)"
    using assms(1) by (simp add: of_nat_diff)
  moreover have "unat (of_nat (n + d - 1) :: u64) = n + d - 1" "unat (of_nat d :: u64) = d"
    using assms by (simp_all only: unat_of_nat) simp_all
  ultimately have "unat ((of_nat n + of_nat d - 1) div of_nat d :: u64) = (n + d - 1) div d"
    by (simp add: unat_div)
  then show ?thesis
    using assms(3) by (simp add: ceil_div_u64_def unsigned_ucast_eq take_bit_nat_eq_self)
qed

text \<open>A ceiling is the least count that covers the interval.\<close>

lemma ceil_covers:
  assumes "0 < (d :: nat)"
  shows "n \<le> ((n + d - 1) div d) * d" "((n + d - 1) div d) * d < n + d"
proof -
  have "(n + d - 1) div d * d + (n + d - 1) mod d = n + d - 1" by simp
  moreover have "(n + d - 1) mod d < d" using assms by simp
  ultimately show "n \<le> ((n + d - 1) div d) * d" "((n + d - 1) div d) * d < n + d" by linarith+
qed

definition is_ceiling :: "nat \<Rightarrow> nat \<Rightarrow> nat \<Rightarrow> bool" where
  "is_ceiling t n d \<longleftrightarrow> n \<le> t * d \<and> t * d < n + d"

lemma ceil_div_exact:
  assumes "0 < d" "d < 2 ^ 63" "n < 2 ^ 63" "n < (2 ^ 32 - 1) * d"
  shows "is_ceiling (unat (ceil_div_u64 (of_nat n) (of_nat d))) n d"
proof -
  have "n < 4294967295 * d" using assms(4) by simp
  then have "((n + d - 1) div d) * d < 4294967296 * d"
    using ceil_covers(2) [OF assms(1), of n] by linarith
  then have "(n + d - 1) div d < 4294967296" by (simp only: mult_less_cancel2)
  then have "(n + d - 1) div d < 2 ^ 32" by simp
  then have "unat (ceil_div_u64 (of_nat n) (of_nat d)) = (n + d - 1) div d"
    using assms by (intro ceil_div_of_nat) simp_all
  then show ?thesis using ceil_covers [OF assms(1), of n] by (simp add: is_ceiling_def)
qed

lemma less_from_ceilings:
  assumes "is_ceiling s n d" "is_ceiling t m d" "n + d \<le> m"
  shows "s < t"
proof -
  have "s * d < t * d" using assms unfolding is_ceiling_def by linarith
  then show ?thesis by simp
qed

lemma ceiling_pos: "is_ceiling t n d \<Longrightarrow> 0 < n \<Longrightarrow> 0 < t"
  by (cases t) (auto simp: is_ceiling_def)

text \<open>
  The five tick counts against their specification, in micro-bit units: a tick is 50 us, a
  character is \<open>k\<close> bits of \<open>10^6 / baud\<close> us each.
\<close>

definition timing_spec :: "nat \<Rightarrow> nat \<Rightarrow> mbrtu_timing \<Rightarrow> bool" where
  "timing_spec baud k t \<longleftrightarrow>
     is_ceiling (unat (character_ticks t)) (k * 1000000) (baud * 50) \<and>
     (if baud > 19200 then
        t1_5_ticks t = 15 \<and> t3_5_ticks t = 35 \<and>
        is_ceiling (unat (byte_complete_t1_5_ticks t)) (750 * baud + k * 1000000) (baud * 50) \<and>
        is_ceiling (unat (byte_complete_t3_5_ticks t)) (1750 * baud + k * 1000000) (baud * 50)
      else
        is_ceiling (unat (t1_5_ticks t)) (15 * k * 1000000) (10 * baud * 50) \<and>
        is_ceiling (unat (t3_5_ticks t)) (35 * k * 1000000) (10 * baud * 50) \<and>
        is_ceiling (unat (byte_complete_t1_5_ticks t)) (25 * k * 1000000) (10 * baud * 50) \<and>
        is_ceiling (unat (byte_complete_t3_5_ticks t)) (45 * k * 1000000) (10 * baud * 50))"

lemma timing_of_spec:
  assumes "baud_rate \<noteq> 0" "unat bits \<le> 13"
  shows "timing_spec (unat baud_rate) (unat bits) (timing_of baud_rate bits)"
proof -
  define B where "B = unat baud_rate"
  define K where "K = unat bits"
  have B: "0 < B" "B < 4294967296" "K \<le> 13"
    using assms unat_u32_less [of baud_rate] by (simp_all add: B_def K_def unat_gt_0)
  have w: "(ucast baud_rate :: u64) = of_nat B" "(ucast bits :: u64) = of_nat K"
    by (simp_all add: B_def K_def)
  have gt: "baud_rate > 19200 \<longleftrightarrow> B > 19200" by (simp add: B_def word_less_nat_alt)
  have prod: "of_nat K * 1000000 = (of_nat (K * 1000000) :: u64)" "of_nat B * 50 = (of_nat (B * 50) :: u64)"
    "750 * of_nat B + of_nat (K * 1000000) = (of_nat (750 * B + K * 1000000) :: u64)"
    "1750 * of_nat B + of_nat (K * 1000000) = (of_nat (1750 * B + K * 1000000) :: u64)"
    "10 * of_nat B * 50 = (of_nat (10 * B * 50) :: u64)"
    "15 * of_nat K * 1000000 = (of_nat (15 * K * 1000000) :: u64)"
    "25 * of_nat K * 1000000 = (of_nat (25 * K * 1000000) :: u64)"
    "35 * of_nat K * 1000000 = (of_nat (35 * K * 1000000) :: u64)"
    "45 * of_nat K * 1000000 = (of_nat (45 * K * 1000000) :: u64)"
    by simp_all
  have c: "is_ceiling (unat (ceil_div_u64 (of_nat n) (of_nat d))) n d"
    if "0 < d" "d < 2 ^ 63" "n < 2 ^ 63" "n < 4294967295 * d" for n d
    using ceil_div_exact [OF that(1-3)] that(4) by simp
  show ?thesis
    unfolding timing_spec_def timing_of_def Let_def w gt B_def [symmetric] K_def [symmetric]
    unfolding prod using B by (auto intro!: c simp del: of_nat_mult of_nat_add)
qed

lemma timing_of_ordered:
  assumes "timing_spec baud k t" "0 < baud" "7 \<le> k"
  shows "0 < unat (character_ticks t) \<and> 0 < unat (t1_5_ticks t) \<and> unat (t1_5_ticks t) < unat (t3_5_ticks t) \<and>
    0 < unat (byte_complete_t1_5_ticks t) \<and>
    unat (byte_complete_t1_5_ticks t) < unat (byte_complete_t3_5_ticks t)"
proof (cases "baud > 19200")
  case True
  then have s: "is_ceiling (unat (character_ticks t)) (k * 1000000) (baud * 50)"
    "t1_5_ticks t = 15" "t3_5_ticks t = 35"
    "is_ceiling (unat (byte_complete_t1_5_ticks t)) (750 * baud + k * 1000000) (baud * 50)"
    "is_ceiling (unat (byte_complete_t3_5_ticks t)) (1750 * baud + k * 1000000) (baud * 50)"
    using assms(1) by (simp_all add: timing_spec_def)
  show ?thesis
    using s(2,3) ceiling_pos [OF s(1)] ceiling_pos [OF s(4)] less_from_ceilings [OF s(4,5)] assms(3) by simp
next
  case False
  then have s: "is_ceiling (unat (character_ticks t)) (k * 1000000) (baud * 50)"
    "is_ceiling (unat (t1_5_ticks t)) (15 * k * 1000000) (10 * baud * 50)"
    "is_ceiling (unat (t3_5_ticks t)) (35 * k * 1000000) (10 * baud * 50)"
    "is_ceiling (unat (byte_complete_t1_5_ticks t)) (25 * k * 1000000) (10 * baud * 50)"
    "is_ceiling (unat (byte_complete_t3_5_ticks t)) (45 * k * 1000000) (10 * baud * 50)"
    using assms(1) by (simp_all add: timing_spec_def)
  show ?thesis
    using ceiling_pos [OF s(1)] ceiling_pos [OF s(2)] ceiling_pos [OF s(4)] less_from_ceilings [OF s(2,3)]
      less_from_ceilings [OF s(4,5)] assms(3) False by simp
qed

text \<open>
  C30. The timing calculation succeeds for exactly the legal serial configurations, never
  overflows, and never declares an interval over too early: each tick count is the least
  number of 50 us ticks that covers its interval (for the fixed intervals above 19200 baud
  the 15 and 35 ticks of 750 us and 1750 us), all are positive, and T1.5 lies strictly
  before T3.5, also for the receive-complete deadlines.
\<close>

theorem timing_exact:
  assumes "legal = (baud_rate \<noteq> 0 \<and> 5 \<le> data_bits \<and> data_bits \<le> 9 \<and> parity_bits \<le> 1 \<and>
    1 \<le> stop_bits \<and> stop_bits \<le> 2)"
  shows "(mbrtu_calculate_timing baud_rate data_bits parity_bits stop_bits = None \<longleftrightarrow> \<not> legal) \<and>
    (\<forall>t. mbrtu_calculate_timing baud_rate data_bits parity_bits stop_bits = Some t \<longrightarrow>
       timing_spec (unat baud_rate) (1 + unat data_bits + unat parity_bits + unat stop_bits) t \<and>
       0 < unat (t1_5_ticks t) \<and> t1_5_ticks t < t3_5_ticks t \<and>
       0 < unat (byte_complete_t1_5_ticks t) \<and> byte_complete_t1_5_ticks t < byte_complete_t3_5_ticks t)"
proof (cases legal)
  case False
  then have "mbrtu_calculate_timing baud_rate data_bits parity_bits stop_bits = None"
    using assms by (auto simp: mbrtu_calculate_timing_def not_less not_le)
  then show ?thesis using False by simp
next
  case True
  define bits :: u32 where "bits = 1 + ucast data_bits + ucast parity_bits + ucast stop_bits"
  have ranges: "5 \<le> unat data_bits" "unat data_bits \<le> 9" "unat parity_bits \<le> 1" "1 \<le> unat stop_bits"
    "unat stop_bits \<le> 2" "baud_rate \<noteq> 0"
    using True assms by (auto simp: word_le_nat_alt)
  have "bits = of_nat (1 + unat data_bits + unat parity_bits + unat stop_bits)" by (simp add: bits_def)
  then have k: "unat bits = 1 + unat data_bits + unat parity_bits + unat stop_bits"
    using ranges by (simp only: unat_of_nat) simp
  let ?t = "timing_of baud_rate bits"
  have spec: "timing_spec (unat baud_rate) (unat bits) ?t"
    using ranges k by (intro timing_of_spec) auto
  have ord: "0 < unat (character_ticks ?t) \<and> 0 < unat (t1_5_ticks ?t) \<and> unat (t1_5_ticks ?t) < unat (t3_5_ticks ?t) \<and>
      0 < unat (byte_complete_t1_5_ticks ?t) \<and>
      unat (byte_complete_t1_5_ticks ?t) < unat (byte_complete_t3_5_ticks ?t)"
    using ranges k by (intro timing_of_ordered [OF spec]) (auto simp: unat_gt_0)
  have "mbrtu_calculate_timing baud_rate data_bits parity_bits stop_bits = Some ?t"
    using True assms ord unfolding mbrtu_calculate_timing_def bits_def [symmetric]
    by (auto simp: Let_def word_le_nat_alt not_less not_le)
  then show ?thesis
    using True spec ord unfolding k by (simp add: word_less_nat_alt)
qed

theorem timing_exact_witness:
  "mbrtu_calculate_timing 9600 8 1 1 \<noteq> None \<and> mbrtu_calculate_timing 0 8 1 1 = None"
  using timing_exact [OF refl, of 9600 8 1 1] timing_exact [OF refl, of 0 8 1 1] by simp

end
