(* ===== verification/Rtu_Link.thy ===== *)
theory Rtu_Link
  imports Rtu Rtu_Timing
begin

text \<open>
  The bare-metal RTU server layer of modbus_rtu.c: the receive and tick interrupt handlers
  with their two receive buffers, and the main-loop poll. The two buffers are a list of two
  arrays, indexed by \<open>active_buffer_index\<close> and \<open>pending_buffer_index\<close>; the 0/1 flags
  are \<open>bool\<close>; the statistics are 32-bit words that wrap. The diagnostics object of the
  context is the one of the RTU state. The transmit callback is a parameter: whether it
  accepts a frame may depend on the frames handed to it before, which \<open>tx_log\<close> records.
\<close>

record mbrtu_stats =
  received_bytes :: u32
  detected_frame_boundaries :: u32
  queued_frames :: u32
  invalid_gap_events :: u32
  overflow_events :: u32
  overrun_frames :: u32
  no_response_frames :: u32
  responses_sent :: u32
  processing_errors :: u32
  transmit_errors :: u32

record mbrtu_context =
  slave_address :: u8
  receive_buffers :: "bytes list"
  receive_buffer_capacity :: nat
  response_buffer_capacity :: nat
  timing :: mbrtu_timing
  gap_ticks :: u32
  active_length :: nat
  pending_length :: nat
  active_buffer_index :: u8
  pending_buffer_index :: u8
  frame_active :: bool
  active_invalid_gap :: bool
  active_overflow :: bool
  pending_ready :: bool
  pending_invalid_gap :: bool
  pending_overflow :: bool
  initialized :: bool
  stats :: mbrtu_stats
  policy :: diag_policy
  tx_log :: "bytes list"

text \<open>Configuration: buffer pointers are identities in a memory of arrays.\<close>

record mbrtu_config =
  cfg_slave_address :: u8
  cfg_baud_rate :: u32
  cfg_data_bits :: u8
  cfg_parity_bits :: u8
  cfg_stop_bits :: u8
  cfg_receive_buffer_a :: "nat option"
  cfg_receive_buffer_b :: "nat option"
  cfg_receive_buffer_capacity :: nat
  cfg_response_buffer :: "nat option"
  cfg_response_buffer_capacity :: nat
  cfg_transmit_set :: bool

datatype init_error = INIT_ERROR_ARGUMENT | INIT_ERROR_SLAVE_ADDRESS | INIT_ERROR_SERIAL_CONFIG

definition reset_active_frame :: "mbrtu_context \<Rightarrow> mbrtu_context" where
  "reset_active_frame ctx = ctx\<lparr>gap_ticks := 0, active_length := 0, frame_active := False,
     active_invalid_gap := False, active_overflow := False\<rparr>"

definition complete_active_frame_isr :: "mbrtu_context \<Rightarrow> mbrtu_context" where
  "complete_active_frame_isr ctx =
     (if \<not> frame_active ctx then ctx
      else
        let st = (stats ctx)\<lparr>detected_frame_boundaries := detected_frame_boundaries (stats ctx) + 1\<rparr> in
        reset_active_frame
          (if \<not> pending_ready ctx then
             ctx\<lparr>pending_buffer_index := active_buffer_index ctx,
                 pending_length := active_length ctx,
                 pending_invalid_gap := active_invalid_gap ctx,
                 pending_overflow := active_overflow ctx,
                 active_buffer_index := active_buffer_index ctx XOR 1,
                 pending_ready := True,
                 stats := st\<lparr>queued_frames := queued_frames st + 1\<rparr>\<rparr>
           else ctx\<lparr>stats := st\<lparr>overrun_frames := overrun_frames st + 1\<rparr>\<rparr>))"

definition zero_stats :: mbrtu_stats where
  "zero_stats = \<lparr>received_bytes = 0, detected_frame_boundaries = 0, queued_frames = 0,
     invalid_gap_events = 0, overflow_events = 0, overrun_frames = 0, no_response_frames = 0,
     responses_sent = 0, processing_errors = 0, transmit_errors = 0\<rparr>"

text \<open>
  \<open>mbrtu_init\<close> returns the initialised context; on an error the context is not touched.
  \<open>arrays\<close> gives the contents of the caller's buffers.
\<close>

definition mbrtu_init ::
  "(nat \<Rightarrow> bytes) \<Rightarrow> mbrtu_config option \<Rightarrow> init_error + mbrtu_context" where
  "mbrtu_init arrays config =
     (case config of None \<Rightarrow> Inl INIT_ERROR_ARGUMENT
      | Some c \<Rightarrow>
          if cfg_receive_buffer_a c = None \<or> cfg_receive_buffer_b c = None \<or>
             cfg_response_buffer c = None \<or> \<not> cfg_transmit_set c \<or>
             cfg_receive_buffer_a c = cfg_receive_buffer_b c \<or>
             cfg_receive_buffer_a c = cfg_response_buffer c \<or>
             cfg_receive_buffer_b c = cfg_response_buffer c \<or>
             cfg_receive_buffer_capacity c < MODBUS_RTU_ADU_MIN_SIZE \<or>
             cfg_receive_buffer_capacity c > MODBUS_RTU_ADU_MAX_SIZE \<or>
             cfg_response_buffer_capacity c < 1 + 2 + 2
          then Inl INIT_ERROR_ARGUMENT
          else if cfg_slave_address c < MODBUS_RTU_ADDRESS_MIN \<or>
                  cfg_slave_address c > MODBUS_RTU_ADDRESS_MAX
          then Inl INIT_ERROR_SLAVE_ADDRESS
          else case mbrtu_calculate_timing (cfg_baud_rate c) (cfg_data_bits c) (cfg_parity_bits c)
                   (cfg_stop_bits c) of
              None \<Rightarrow> Inl INIT_ERROR_SERIAL_CONFIG
            | Some t \<Rightarrow> Inr
                \<lparr>slave_address = cfg_slave_address c,
                 receive_buffers = [arrays (the (cfg_receive_buffer_a c)),
                                    arrays (the (cfg_receive_buffer_b c))],
                 receive_buffer_capacity = cfg_receive_buffer_capacity c,
                 response_buffer_capacity = cfg_response_buffer_capacity c,
                 timing = t, gap_ticks = 0, active_length = 0, pending_length = 0,
                 active_buffer_index = 0, pending_buffer_index = 0, frame_active = False,
                 active_invalid_gap = False, active_overflow = False, pending_ready = False,
                 pending_invalid_gap = False, pending_overflow = False, initialized = True,
                 stats = zero_stats, policy = None, tx_log = []\<rparr>)"

definition mbrtu_init_with_diagnostics ::
  "(nat \<Rightarrow> bytes) \<Rightarrow> mbrtu_config option \<Rightarrow> mbrtu_diagnostics option \<Rightarrow> diag_policy \<Rightarrow>
   init_error + mbrtu_context" where
  "mbrtu_init_with_diagnostics arrays config diag pol =
     (if diag = None then Inl INIT_ERROR_ARGUMENT
      else case mbrtu_init arrays config of
          Inl e \<Rightarrow> Inl e
        | Inr ctx \<Rightarrow> Inr (ctx\<lparr>policy := pol\<rparr>))"

definition mbrtu_on_rx_byte_isr :: "u8 \<Rightarrow> mbrtu_context \<Rightarrow> mbrtu_context" where
  "mbrtu_on_rx_byte_isr b ctx =
     (if \<not> initialized ctx then ctx
      else
        let ctx = ctx\<lparr>stats := (stats ctx)\<lparr>received_bytes := received_bytes (stats ctx) + 1\<rparr>\<rparr>;
            ctx = (if frame_active ctx then
                     if gap_ticks ctx \<ge> byte_complete_t3_5_ticks (timing ctx)
                     then complete_active_frame_isr ctx
                     else if gap_ticks ctx > byte_complete_t1_5_ticks (timing ctx) \<and>
                             \<not> active_invalid_gap ctx
                     then ctx\<lparr>active_invalid_gap := True,
                              stats := (stats ctx)\<lparr>invalid_gap_events :=
                                         invalid_gap_events (stats ctx) + 1\<rparr>\<rparr>
                     else ctx
                   else ctx);
            ctx = ctx\<lparr>gap_ticks := 0, frame_active := True\<rparr> in
        if active_invalid_gap ctx \<or> active_overflow ctx then ctx
        else if active_length ctx \<ge> receive_buffer_capacity ctx
        then ctx\<lparr>active_overflow := True,
                 stats := (stats ctx)\<lparr>overflow_events := overflow_events (stats ctx) + 1\<rparr>\<rparr>
        else
          let i = unat (active_buffer_index ctx) in
          ctx\<lparr>receive_buffers := (receive_buffers ctx)
                [i := (receive_buffers ctx ! i)[active_length ctx := b]],
              active_length := active_length ctx + 1\<rparr>)"

definition mbrtu_on_50us_tick_isr :: "mbrtu_context \<Rightarrow> mbrtu_context" where
  "mbrtu_on_50us_tick_isr ctx =
     (if \<not> initialized ctx \<or> \<not> frame_active ctx then ctx
      else
        let ctx = (if gap_ticks ctx < byte_complete_t3_5_ticks (timing ctx)
                   then ctx\<lparr>gap_ticks := gap_ticks ctx + 1\<rparr> else ctx) in
        if gap_ticks ctx \<ge> byte_complete_t3_5_ticks (timing ctx)
        then complete_active_frame_isr ctx else ctx)"

datatype poll_result =
  POLL_ERROR_ARGUMENT | POLL_IDLE | POLL_RESPONSE_SENT | POLL_NO_RESPONSE | POLL_FRAME_DROPPED
| POLL_ERROR_TRANSMIT | POLL_ERROR mbrtu_result

text \<open>The published frame, as \<open>mbrtu_poll\<close> reads it.\<close>

definition pending_frame :: "mbrtu_context \<Rightarrow> bytes" where
  "pending_frame ctx =
     take (pending_length ctx) (receive_buffers ctx ! unat (pending_buffer_index ctx))"

definition bump :: "(mbrtu_stats \<Rightarrow> mbrtu_stats) \<Rightarrow> mbrtu_context \<Rightarrow> mbrtu_context" where
  "bump f ctx = ctx\<lparr>stats := f (stats ctx)\<rparr>"

definition mbrtu_poll ::
  "mei_call \<Rightarrow> (bytes list \<Rightarrow> bytes \<Rightarrow> bool) \<Rightarrow> mbrtu_context \<Rightarrow> rtu_state \<Rightarrow>
   poll_result \<times> mbrtu_context \<times> rtu_state" where
  "mbrtu_poll call transmit ctx s =
     (if \<not> initialized ctx then (POLL_ERROR_ARGUMENT, ctx, s)
      else if \<not> pending_ready ctx then (POLL_IDLE, ctx, s)
      else
        let request = pending_frame ctx in
        if pending_invalid_gap ctx \<or> pending_overflow ctx then
          let broadcast = (length request > 0 \<and> request ! 0 = 0) in
          (POLL_FRAME_DROPPED, ctx\<lparr>pending_ready := False\<rparr>,
           if pending_overflow ctx
           then note_diag (mbrtu_diagnostics_note_character_overrun broadcast
                  (length request > 0 \<and> request ! 0 = slave_address ctx)) s
           else note_diag (mbrtu_diagnostics_note_communication_error broadcast False) s)
        else
          let (r, s) = mbrtu_process_adu_with_diagnostics call (policy ctx) (slave_address ctx)
                         (Some request) (Some (response_buffer_capacity ctx)) s;
              ctx = ctx\<lparr>pending_ready := False\<rparr> in
          case r of
            MBRTU_RESPONSE_READY rsp \<Rightarrow>
              let ok = transmit (tx_log ctx) rsp; ctx = ctx\<lparr>tx_log := tx_log ctx @ [rsp]\<rparr> in
              if \<not> ok
              then (POLL_ERROR_TRANSMIT,
                    bump (\<lambda>st. st\<lparr>transmit_errors := transmit_errors st + 1\<rparr>) ctx, s)
              else (POLL_RESPONSE_SENT,
                    bump (\<lambda>st. st\<lparr>responses_sent := responses_sent st + 1\<rparr>) ctx, s)
          | MBRTU_NO_RESPONSE \<Rightarrow>
              (POLL_NO_RESPONSE,
               bump (\<lambda>st. st\<lparr>no_response_frames := no_response_frames st + 1\<rparr>) ctx, s)
          | _ \<Rightarrow>
              (POLL_ERROR r,
               bump (\<lambda>st. st\<lparr>processing_errors := processing_errors st + 1\<rparr>) ctx, s))"

definition mbrtu_get_stats :: "mbrtu_context \<Rightarrow> mbrtu_stats" where
  "mbrtu_get_stats ctx = stats ctx"

section \<open>The double buffer\<close>

text \<open>
  The invariant: while a frame is published, the interrupt handlers write to the other
  buffer; lengths stay within the capacity; and the gap counter of a frame in progress is
  below the end-of-frame deadline. \<open>ctx_wf0\<close> leaves out the last part, which a tick breaks
  for the moment before it closes the frame.
\<close>

definition ctx_wf0 :: "mbrtu_context \<Rightarrow> bool" where
  "ctx_wf0 ctx \<longleftrightarrow> initialized ctx \<and>
     1 \<le> slave_address ctx \<and> slave_address ctx \<le> 247 \<and>
     4 \<le> receive_buffer_capacity ctx \<and> receive_buffer_capacity ctx \<le> 256 \<and>
     length (receive_buffers ctx) = 2 \<and>
     (\<forall>b \<in> set (receive_buffers ctx). receive_buffer_capacity ctx \<le> length b) \<and>
     (active_buffer_index ctx = 0 \<or> active_buffer_index ctx = 1) \<and>
     (pending_buffer_index ctx = 0 \<or> pending_buffer_index ctx = 1) \<and>
     (pending_ready ctx \<longrightarrow> pending_buffer_index ctx \<noteq> active_buffer_index ctx) \<and>
     active_length ctx \<le> receive_buffer_capacity ctx \<and>
     pending_length ctx \<le> receive_buffer_capacity ctx \<and>
     (\<not> frame_active ctx \<longrightarrow> active_length ctx = 0 \<and> \<not> active_invalid_gap ctx \<and> \<not> active_overflow ctx) \<and>
     0 < byte_complete_t1_5_ticks (timing ctx) \<and>
     byte_complete_t1_5_ticks (timing ctx) < byte_complete_t3_5_ticks (timing ctx)"

definition ctx_wf :: "mbrtu_context \<Rightarrow> bool" where
  "ctx_wf ctx \<longleftrightarrow> ctx_wf0 ctx \<and>
     (frame_active ctx \<longrightarrow> gap_ticks ctx < byte_complete_t3_5_ticks (timing ctx))"

lemma calculate_timing_ordered:
  assumes "mbrtu_calculate_timing baud d p st = Some t"
  shows "0 < byte_complete_t1_5_ticks t" "byte_complete_t1_5_ticks t < byte_complete_t3_5_ticks t"
  using assms by (auto simp: mbrtu_calculate_timing_def Let_def not_le word_neq_0_conv split: if_splits)

lemma mbrtu_init_wf:
  assumes init: "mbrtu_init arrays (Some c) = Inr ctx"
    and arrays: "\<And>a. length (arrays a) \<ge> cfg_receive_buffer_capacity c"
  shows "ctx_wf ctx"
proof -
  obtain t where t: "mbrtu_calculate_timing (cfg_baud_rate c) (cfg_data_bits c)
      (cfg_parity_bits c) (cfg_stop_bits c) = Some t"
    using init by (auto simp: mbrtu_init_def split: if_splits option.splits)
  have "1 \<le> cfg_slave_address c"
    by (rule leI) (use init in \<open>auto simp: mbrtu_init_def split: if_splits\<close>)
  moreover have "cfg_slave_address c \<le> 247"
    "4 \<le> cfg_receive_buffer_capacity c" "cfg_receive_buffer_capacity c \<le> 256"
    using init by (auto simp: mbrtu_init_def split: if_splits)
  ultimately have bounds: "1 \<le> cfg_slave_address c" "cfg_slave_address c \<le> 247"
    "4 \<le> cfg_receive_buffer_capacity c" "cfg_receive_buffer_capacity c \<le> 256" .
  note init' = init [unfolded mbrtu_init_def option.case t, symmetric]
  from init' show ?thesis
    using bounds arrays calculate_timing_ordered [OF t]
    by (simp add: ctx_wf_def ctx_wf0_def split: if_splits)
qed

lemma complete_wf: "ctx_wf0 ctx \<Longrightarrow> frame_active ctx \<Longrightarrow> ctx_wf (complete_active_frame_isr ctx)"
  by (auto simp: ctx_wf_def ctx_wf0_def complete_active_frame_isr_def reset_active_frame_def Let_def)

lemma tick_wf:
  assumes "ctx_wf ctx"
  shows "ctx_wf (mbrtu_on_50us_tick_isr ctx)"
proof (cases "frame_active ctx")
  case True
  let ?c = "ctx\<lparr>gap_ticks := gap_ticks ctx + 1\<rparr>"
  have lt: "gap_ticks ctx < byte_complete_t3_5_ticks (timing ctx)" "initialized ctx"
    using assms True by (simp_all add: ctx_wf_def ctx_wf0_def)
  have wf0: "ctx_wf0 ?c" using assms by (simp add: ctx_wf_def ctx_wf0_def)
  show ?thesis
  proof (cases "gap_ticks ?c \<ge> byte_complete_t3_5_ticks (timing ctx)")
    case close: True
    then show ?thesis
      using complete_wf [OF wf0] True lt by (simp add: mbrtu_on_50us_tick_isr_def Let_def)
  next
    case False
    then show ?thesis
      using wf0 True lt by (simp add: mbrtu_on_50us_tick_isr_def Let_def ctx_wf_def leD)
  qed
next
  case False
  then show ?thesis using assms by (simp add: mbrtu_on_50us_tick_isr_def)
qed

text \<open>With the invariant, a received byte never finds the deadline already reached.\<close>

definition rx_gap_checked :: "mbrtu_context \<Rightarrow> mbrtu_context" where
  "rx_gap_checked ctx =
     (if frame_active ctx \<and> gap_ticks ctx > byte_complete_t1_5_ticks (timing ctx) \<and> \<not> active_invalid_gap ctx
      then ctx\<lparr>active_invalid_gap := True, stats := (stats ctx)\<lparr>
             received_bytes := received_bytes (stats ctx) + 1,
             invalid_gap_events := invalid_gap_events (stats ctx) + 1\<rparr>, gap_ticks := 0, frame_active := True\<rparr>
      else ctx\<lparr>stats := (stats ctx)\<lparr>received_bytes := received_bytes (stats ctx) + 1\<rparr>,
             gap_ticks := 0, frame_active := True\<rparr>)"

lemma rx_unfold:
  assumes "ctx_wf ctx"
  shows "mbrtu_on_rx_byte_isr b ctx =
    (let ctx = rx_gap_checked ctx in
     if active_invalid_gap ctx \<or> active_overflow ctx then ctx
     else if active_length ctx \<ge> receive_buffer_capacity ctx
     then ctx\<lparr>active_overflow := True,
              stats := (stats ctx)\<lparr>overflow_events := overflow_events (stats ctx) + 1\<rparr>\<rparr>
     else
       let i = unat (active_buffer_index ctx) in
       ctx\<lparr>receive_buffers := (receive_buffers ctx)
             [i := (receive_buffers ctx ! i)[active_length ctx := b]],
           active_length := active_length ctx + 1\<rparr>)"
proof (cases "frame_active ctx")
  case True
  then have *: "initialized ctx" "\<not> byte_complete_t3_5_ticks (timing ctx) \<le> gap_ticks ctx"
    using assms by (auto simp: ctx_wf_def ctx_wf0_def dest: leD)
  show ?thesis
    by (cases "byte_complete_t1_5_ticks (timing ctx) < gap_ticks ctx"; cases "active_invalid_gap ctx")
      (simp_all add: mbrtu_on_rx_byte_isr_def rx_gap_checked_def True * Let_def cong: if_cong split del: if_split)
next
  case False
  then have "initialized ctx" using assms by (simp add: ctx_wf_def ctx_wf0_def)
  with False show ?thesis
    by (simp add: mbrtu_on_rx_byte_isr_def rx_gap_checked_def Let_def cong: if_cong split del: if_split)
qed

lemma rx_gap_checked_fields [simp]:
  "receive_buffers (rx_gap_checked ctx) = receive_buffers ctx"
  "receive_buffer_capacity (rx_gap_checked ctx) = receive_buffer_capacity ctx"
  "active_buffer_index (rx_gap_checked ctx) = active_buffer_index ctx"
  "pending_buffer_index (rx_gap_checked ctx) = pending_buffer_index ctx"
  "pending_ready (rx_gap_checked ctx) = pending_ready ctx"
  "pending_length (rx_gap_checked ctx) = pending_length ctx"
  "pending_invalid_gap (rx_gap_checked ctx) = pending_invalid_gap ctx"
  "pending_overflow (rx_gap_checked ctx) = pending_overflow ctx"
  "active_length (rx_gap_checked ctx) = active_length ctx"
  "active_overflow (rx_gap_checked ctx) = active_overflow ctx"
  "timing (rx_gap_checked ctx) = timing ctx"
  "frame_active (rx_gap_checked ctx)" "gap_ticks (rx_gap_checked ctx) = 0"
  "initialized (rx_gap_checked ctx) = initialized ctx"
  "slave_address (rx_gap_checked ctx) = slave_address ctx"
  "response_buffer_capacity (rx_gap_checked ctx) = response_buffer_capacity ctx"
  "policy (rx_gap_checked ctx) = policy ctx" "tx_log (rx_gap_checked ctx) = tx_log ctx"
  by (simp_all add: rx_gap_checked_def)

lemma rx_wf:
  assumes "ctx_wf ctx"
  shows "ctx_wf (mbrtu_on_rx_byte_isr b ctx)"
proof -
  let ?c = "rx_gap_checked ctx" let ?i = "unat (active_buffer_index ctx)"
  let ?bufs = "(receive_buffers ctx)[?i := (receive_buffers ctx ! ?i)[active_length ctx := b]]"
  have wf: "length (receive_buffers ctx) = 2" "?i < 2"
    "\<forall>b \<in> set (receive_buffers ctx). receive_buffer_capacity ctx \<le> length b"
    "0 < byte_complete_t3_5_ticks (timing ctx)"
    using assms by (auto simp: ctx_wf_def ctx_wf0_def)
  have bufs: "\<forall>b \<in> set ?bufs. receive_buffer_capacity ctx \<le> length b"
    using wf(1-3) set_update_subset_insert [of "receive_buffers ctx" ?i "(receive_buffers ctx ! ?i)[active_length ctx := b]"]
    by auto
  show ?thesis
    unfolding rx_unfold [OF assms]
    using assms wf(4) bufs by (auto simp: Let_def ctx_wf_def ctx_wf0_def)
qed

section \<open>The interrupt handlers do not disturb the published frame\<close>

datatype rtu_event = Rx u8 | Tick

fun isr_event :: "rtu_event \<Rightarrow> mbrtu_context \<Rightarrow> mbrtu_context" where
  "isr_event (Rx b) ctx = mbrtu_on_rx_byte_isr b ctx"
| "isr_event Tick ctx = mbrtu_on_50us_tick_isr ctx"

lemma isr_event_wf: "ctx_wf ctx \<Longrightarrow> ctx_wf (isr_event e ctx)"
  by (cases e) (simp_all add: rx_wf tick_wf)

definition same_pending :: "mbrtu_context \<Rightarrow> mbrtu_context \<Rightarrow> bool" where
  "same_pending ctx ctx' \<longleftrightarrow> pending_ready ctx' = pending_ready ctx \<and>
     pending_frame ctx' = pending_frame ctx \<and> pending_length ctx' = pending_length ctx \<and>
     pending_invalid_gap ctx' = pending_invalid_gap ctx \<and> pending_overflow ctx' = pending_overflow ctx \<and>
     slave_address ctx' = slave_address ctx \<and> policy ctx' = policy ctx \<and> tx_log ctx' = tx_log ctx \<and>
     response_buffer_capacity ctx' = response_buffer_capacity ctx \<and> initialized ctx' = initialized ctx"

lemma isr_same_pending:
  assumes "ctx_wf ctx" "pending_ready ctx"
  shows "same_pending ctx (isr_event e ctx)"
proof (cases e)
  case (Rx b)
  let ?i = "unat (active_buffer_index ctx)"
  have "unat (pending_buffer_index ctx) \<noteq> ?i"
    using assms by (auto simp: ctx_wf_def ctx_wf0_def)
  then have "((receive_buffers ctx)[?i := x]) ! unat (pending_buffer_index ctx) =
      receive_buffers ctx ! unat (pending_buffer_index ctx)" for x by simp
  then show ?thesis
    unfolding Rx isr_event.simps rx_unfold [OF assms(1)]
    by (auto simp: Let_def same_pending_def pending_frame_def)
next
  case Tick
  show ?thesis
    using assms(2) unfolding Tick isr_event.simps mbrtu_on_50us_tick_isr_def complete_active_frame_isr_def reset_active_frame_def
    by (auto simp: Let_def same_pending_def pending_frame_def)
qed

text \<open>Whole sequences of interrupts.\<close>

definition run_isrs :: "rtu_event list \<Rightarrow> mbrtu_context \<Rightarrow> mbrtu_context" where
  "run_isrs evs ctx = fold isr_event evs ctx"

lemma run_isrs_simps [simp]:
  "run_isrs [] ctx = ctx" "run_isrs (e # evs) ctx = run_isrs evs (isr_event e ctx)"
  "run_isrs (evs @ evs') ctx = run_isrs evs' (run_isrs evs ctx)"
  by (simp_all add: run_isrs_def)

lemma run_isrs_wf: "ctx_wf ctx \<Longrightarrow> ctx_wf (run_isrs evs ctx)"
  by (induction evs arbitrary: ctx) (simp_all add: isr_event_wf)

lemma run_isrs_same_pending:
  assumes "ctx_wf ctx" "pending_ready ctx"
  shows "same_pending ctx (run_isrs evs ctx)"
  using assms
proof (induction evs arbitrary: ctx)
  case (Cons e evs)
  let ?c = "isr_event e ctx"
  have one: "same_pending ctx ?c" using Cons.prems by (rule isr_same_pending)
  then have "same_pending ?c (run_isrs evs ?c)"
    using Cons by (simp add: isr_event_wf same_pending_def)
  with one show ?case by (simp add: same_pending_def)
qed (simp add: same_pending_def)

text \<open>A configured server at 115200 baud, eight data bits, no parity, one stop bit.\<close>

definition demo_config :: mbrtu_config where
  "demo_config = \<lparr>cfg_slave_address = 17, cfg_baud_rate = 115200, cfg_data_bits = 8,
     cfg_parity_bits = 0, cfg_stop_bits = 1, cfg_receive_buffer_a = Some 0,
     cfg_receive_buffer_b = Some 1, cfg_receive_buffer_capacity = 8,
     cfg_response_buffer = Some 2, cfg_response_buffer_capacity = 256, cfg_transmit_set = True\<rparr>"

definition demo_arrays :: "nat \<Rightarrow> bytes" where
  "demo_arrays a = replicate 8 0"

definition demo_link :: mbrtu_context where
  "demo_link = (case mbrtu_init demo_arrays (Some demo_config) of Inr ctx \<Rightarrow> ctx)"

lemma demo_init: "mbrtu_init demo_arrays (Some demo_config) = Inr demo_link"
proof -
  have "\<exists>ctx. mbrtu_init demo_arrays (Some demo_config) = Inr ctx"
    by (simp add: mbrtu_init_def demo_config_def mbrtu_calculate_timing_def timing_of_def
        ceil_div_u64_def)
  then show ?thesis by (auto simp: demo_link_def)
qed

lemma demo_link_fields [simp]:
  "frame_active demo_link = False" "pending_ready demo_link = False"
  "receive_buffer_capacity demo_link = 8" "response_buffer_capacity demo_link = 256"
  "slave_address demo_link = 17" "tx_log demo_link = []"
  "byte_complete_t1_5_ticks (timing demo_link) = 17"
  "byte_complete_t3_5_ticks (timing demo_link) = 37"
  by (simp_all add: demo_link_def mbrtu_init_def demo_config_def mbrtu_calculate_timing_def
      timing_of_def ceil_div_u64_def)

lemma demo_link_wf: "ctx_wf demo_link"
  using demo_init by (rule mbrtu_init_wf) (simp add: demo_arrays_def demo_config_def)

section \<open>Reception of one frame\<close>

text \<open>
  A frame on the line: every byte with the number of ticks that pass before the next byte,
  or, for the last one, before the line is looked at again.
\<close>

type_synonym line_frame = "(u8 \<times> nat) list"

fun line_events :: "line_frame \<Rightarrow> rtu_event list" where
  "line_events [] = []"
| "line_events ((b, k) # fr) = Rx b # replicate k Tick @ line_events fr"

text \<open>
  The abstract receiver: the bytes kept, whether a gap was too long, whether the buffer
  overflowed. \<open>g\<close> is the gap before the next byte.
\<close>

fun frame_spec :: "nat \<Rightarrow> nat \<Rightarrow> bytes \<times> bool \<times> bool \<Rightarrow> nat \<Rightarrow> line_frame \<Rightarrow> bytes \<times> bool \<times> bool" where
  "frame_spec cap t1_5 r g [] = r"
| "frame_spec cap t1_5 (bs, bad, ovf) g ((b, k) # fr) =
     (let bad = (bad \<or> t1_5 < g) in
      frame_spec cap t1_5
        (if bad \<or> ovf then (bs, bad, ovf)
         else if cap \<le> length bs then (bs, bad, True)
         else (bs @ [b], bad, ovf)) k fr)"

text \<open>The context while a frame arrives, read as a state of the abstract receiver.\<close>

definition receiving :: "mbrtu_context \<Rightarrow> bytes \<times> bool \<times> bool \<Rightarrow> nat \<Rightarrow> bool" where
  "receiving ctx r g \<longleftrightarrow> ctx_wf ctx \<and> frame_active ctx \<and> unat (gap_ticks ctx) = g \<and>
     r = (take (active_length ctx) (receive_buffers ctx ! unat (active_buffer_index ctx)),
          active_invalid_gap ctx, active_overflow ctx)"

text \<open>The parts of a context that reception of a frame does not change.\<close>

definition same_setup :: "mbrtu_context \<Rightarrow> mbrtu_context \<Rightarrow> bool" where
  "same_setup ctx ctx' \<longleftrightarrow> timing ctx' = timing ctx \<and>
     receive_buffer_capacity ctx' = receive_buffer_capacity ctx \<and>
     response_buffer_capacity ctx' = response_buffer_capacity ctx \<and>
     slave_address ctx' = slave_address ctx \<and> policy ctx' = policy ctx \<and> tx_log ctx' = tx_log ctx"

lemma same_setup_refl [simp]: "same_setup ctx ctx"
  by (simp add: same_setup_def)

lemma same_setup_trans: "same_setup a b \<Longrightarrow> same_setup b c \<Longrightarrow> same_setup a c"
  by (simp add: same_setup_def)

lemma ctx_wf_buffers:
  assumes "ctx_wf ctx"
  shows "unat (active_buffer_index ctx) < length (receive_buffers ctx)"
    "receive_buffer_capacity ctx \<le> length (receive_buffers ctx ! unat (active_buffer_index ctx))"
    "active_length ctx \<le> receive_buffer_capacity ctx"
proof -
  show i: "unat (active_buffer_index ctx) < length (receive_buffers ctx)"
    using assms by (auto simp: ctx_wf_def ctx_wf0_def)
  show "receive_buffer_capacity ctx \<le> length (receive_buffers ctx ! unat (active_buffer_index ctx))"
    using assms nth_mem [OF i] by (simp add: ctx_wf_def ctx_wf0_def)
  show "active_length ctx \<le> receive_buffer_capacity ctx"
    using assms by (simp add: ctx_wf_def ctx_wf0_def)
qed

lemma receiving_rx:
  assumes wf: "ctx_wf ctx"
    and r: "r = (take (active_length ctx) (receive_buffers ctx ! unat (active_buffer_index ctx)),
                 active_invalid_gap ctx, active_overflow ctx)"
    and g: "frame_active ctx \<Longrightarrow> unat (gap_ticks ctx) = g"
           "\<not> frame_active ctx \<Longrightarrow> g \<le> unat (byte_complete_t1_5_ticks (timing ctx))"
  shows "receiving (mbrtu_on_rx_byte_isr b ctx)
      (frame_spec (receive_buffer_capacity ctx) (unat (byte_complete_t1_5_ticks (timing ctx))) r g [(b, k)]) 0"
    "same_setup ctx (mbrtu_on_rx_byte_isr b ctx)"
    "pending_ready (mbrtu_on_rx_byte_isr b ctx) = pending_ready ctx"
proof -
  have gap: "active_invalid_gap (rx_gap_checked ctx) \<longleftrightarrow>
      active_invalid_gap ctx \<or> unat (byte_complete_t1_5_ticks (timing ctx)) < g"
    using g by (cases "frame_active ctx") (auto simp: rx_gap_checked_def word_less_nat_alt)
  note bufs = ctx_wf_buffers [OF wf]
  have len: "length (take (active_length ctx) (receive_buffers ctx ! unat (active_buffer_index ctx))) = active_length ctx"
    using bufs by simp
  have fields: "gap_ticks (mbrtu_on_rx_byte_isr b ctx) = 0" "frame_active (mbrtu_on_rx_byte_isr b ctx)"
    "same_setup ctx (mbrtu_on_rx_byte_isr b ctx)"
    "pending_ready (mbrtu_on_rx_byte_isr b ctx) = pending_ready ctx"
    by (simp_all add: rx_unfold [OF wf] Let_def same_setup_def)
  show "same_setup ctx (mbrtu_on_rx_byte_isr b ctx)"
    "pending_ready (mbrtu_on_rx_byte_isr b ctx) = pending_ready ctx" by (rule fields)+
  show "receiving (mbrtu_on_rx_byte_isr b ctx)
      (frame_spec (receive_buffer_capacity ctx) (unat (byte_complete_t1_5_ticks (timing ctx))) r g [(b, k)]) 0"
    unfolding receiving_def r
    using rx_wf [OF wf] fields(1,2) bufs len
    by (auto simp: rx_unfold [OF wf] Let_def gap take_Suc_conv_app_nth)
qed

lemma tick_setup: "same_setup ctx (mbrtu_on_50us_tick_isr ctx)"
  by (simp add: mbrtu_on_50us_tick_isr_def complete_active_frame_isr_def reset_active_frame_def
      same_setup_def Let_def)

lemma run_ticks_setup: "same_setup ctx (run_isrs (replicate k Tick) ctx)"
  by (induction k arbitrary: ctx) (auto intro: same_setup_trans tick_setup)

text \<open>A tick counts up, or closes the frame at the deadline.\<close>

lemma receiving_tick:
  assumes "receiving ctx r g" "Suc g < unat (byte_complete_t3_5_ticks (timing ctx))"
  shows "receiving (mbrtu_on_50us_tick_isr ctx) r (Suc g)"
    "pending_ready (mbrtu_on_50us_tick_isr ctx) = pending_ready ctx"
proof -
  have g: "unat (gap_ticks ctx + 1) = Suc g"
    using assms unat_u32_less [of "byte_complete_t3_5_ticks (timing ctx)"]
    by (simp add: receiving_def unat_word_ariths)
  then have "mbrtu_on_50us_tick_isr ctx = ctx\<lparr>gap_ticks := gap_ticks ctx + 1\<rparr>"
    using assms by (simp add: mbrtu_on_50us_tick_isr_def Let_def receiving_def ctx_wf_def ctx_wf0_def
        word_le_nat_alt word_less_nat_alt)
  with assms g tick_wf [of ctx]
  show "receiving (mbrtu_on_50us_tick_isr ctx) r (Suc g)"
    "pending_ready (mbrtu_on_50us_tick_isr ctx) = pending_ready ctx"
    by (simp_all add: receiving_def)
qed

lemma receiving_ticks:
  assumes "receiving ctx r g" "g + k < unat (byte_complete_t3_5_ticks (timing ctx))"
  shows "receiving (run_isrs (replicate k Tick) ctx) r (g + k) \<and>
    pending_ready (run_isrs (replicate k Tick) ctx) = pending_ready ctx"
  using assms
proof (induction k arbitrary: ctx g)
  case (Suc k)
  have "timing (mbrtu_on_50us_tick_isr ctx) = timing ctx"
    using tick_setup [of ctx] by (simp add: same_setup_def)
  with Suc.prems receiving_tick [of ctx r g] Suc.IH [of "mbrtu_on_50us_tick_isr ctx" "Suc g"]
  show ?case by simp
qed simp

text \<open>What a published frame is, and that the deadline publishes it.\<close>

definition published :: "mbrtu_context \<Rightarrow> bytes \<times> bool \<times> bool \<Rightarrow> bool" where
  "published ctx r \<longleftrightarrow> ctx_wf ctx \<and> \<not> frame_active ctx \<and> pending_ready ctx \<and>
     r = (pending_frame ctx, pending_invalid_gap ctx, pending_overflow ctx)"

lemma idle_ticks: "\<not> frame_active ctx \<Longrightarrow> run_isrs (replicate k Tick) ctx = ctx"
  by (induction k) (simp_all add: mbrtu_on_50us_tick_isr_def)

lemma receiving_close:
  assumes "receiving ctx r g" "Suc g = unat (byte_complete_t3_5_ticks (timing ctx))" "\<not> pending_ready ctx"
  shows "published (mbrtu_on_50us_tick_isr ctx) r"
proof -
  have g: "unat (gap_ticks ctx + 1) = Suc g"
    using assms unat_u32_less [of "byte_complete_t3_5_ticks (timing ctx)"]
    by (simp add: receiving_def unat_word_ariths)
  then have eq: "mbrtu_on_50us_tick_isr ctx =
      complete_active_frame_isr (ctx\<lparr>gap_ticks := gap_ticks ctx + 1\<rparr>)"
    using assms by (simp add: mbrtu_on_50us_tick_isr_def Let_def receiving_def ctx_wf_def ctx_wf0_def
        word_le_nat_alt word_less_nat_alt)
  show ?thesis
    using assms tick_wf [of ctx] unfolding published_def receiving_def eq
    by (simp add: complete_active_frame_isr_def reset_active_frame_def pending_frame_def Let_def)
qed

lemma receiving_timeout:
  assumes "receiving ctx r 0" "unat (byte_complete_t3_5_ticks (timing ctx)) \<le> k" "\<not> pending_ready ctx"
  shows "published (run_isrs (replicate k Tick) ctx) r"
proof -
  define n where "n = unat (byte_complete_t3_5_ticks (timing ctx)) - 1"
  let ?c = "run_isrs (replicate n Tick) ctx"
  have pos: "0 < unat (byte_complete_t3_5_ticks (timing ctx))"
    using assms(1) by (auto simp: receiving_def ctx_wf_def ctx_wf0_def word_less_nat_alt)
  then have k: "replicate k Tick = replicate n Tick @ [Tick] @ replicate (k - Suc n) Tick"
    using assms(2) by (simp add: n_def replicate_add [symmetric] flip: replicate_Suc)
  have r: "receiving ?c r n" "pending_ready ?c = pending_ready ctx"
    using receiving_ticks [OF assms(1), of n] pos by (simp_all add: n_def)
  moreover have "timing ?c = timing ctx"
    using run_ticks_setup [of ctx n] by (simp add: same_setup_def)
  ultimately have pub: "published (mbrtu_on_50us_tick_isr ?c) r"
    using receiving_close [of ?c r n] assms(3) pos by (simp add: n_def)
  then show ?thesis
    unfolding k by (simp add: idle_ticks published_def)
qed

text \<open>The inner gaps of a frame, and the silence after it.\<close>

definition inner_gaps :: "line_frame \<Rightarrow> nat list" where
  "inner_gaps fr = map snd (butlast fr)"

lemma frame_spec_Cons:
  "frame_spec cap t r g ((b, k) # fr) = frame_spec cap t (frame_spec cap t r g [(b, k)]) k fr"
  by (cases r) (simp add: Let_def)

lemma receive_rest:
  assumes "fr \<noteq> []" "ctx_wf ctx" "\<not> pending_ready ctx"
    "r = (take (active_length ctx) (receive_buffers ctx ! unat (active_buffer_index ctx)),
          active_invalid_gap ctx, active_overflow ctx)"
    "frame_active ctx \<Longrightarrow> unat (gap_ticks ctx) = g"
    "\<not> frame_active ctx \<Longrightarrow> g \<le> unat (byte_complete_t1_5_ticks (timing ctx))"
    "\<forall>k \<in> set (inner_gaps fr). k < unat (byte_complete_t3_5_ticks (timing ctx))"
    "unat (byte_complete_t3_5_ticks (timing ctx)) \<le> snd (last fr)"
  shows "published (run_isrs (line_events fr) ctx)
      (frame_spec (receive_buffer_capacity ctx) (unat (byte_complete_t1_5_ticks (timing ctx))) r g fr) \<and>
    same_setup ctx (run_isrs (line_events fr) ctx)"
  using assms
proof (induction fr arbitrary: ctx r g)
  case (Cons x fr)
  obtain b k where x: "x = (b, k)" by (cases x)
  let ?c = "mbrtu_on_rx_byte_isr b ctx" let ?d = "run_isrs (replicate k Tick) ?c"
  define r' where "r' = frame_spec (receive_buffer_capacity ctx)
    (unat (byte_complete_t1_5_ticks (timing ctx))) r g [(b, k)]"
  note rx = receiving_rx(1) [OF Cons.prems(2,4,5,6), of b k, folded r'_def] receiving_rx(2,3) [OF Cons.prems(2,4,5,6), of b]
  have unchanged: "same_setup ctx ?d"
    using same_setup_trans [OF rx(2) run_ticks_setup] .
  then have same: "timing ?d = timing ctx" "receive_buffer_capacity ?d = receive_buffer_capacity ctx"
    by (simp_all add: same_setup_def)
  have T: "timing ?c = timing ctx" using rx(2) by (simp add: same_setup_def)
  show ?case
  proof (cases "fr = []")
    case True
    have "published ?d r'"
      using receiving_timeout [OF rx(1), of k] rx(3) Cons.prems(3,8) T x True by simp
    then show ?thesis using unchanged by (simp add: x True r'_def del: frame_spec.simps)
  next
    case False
    have "k < unat (byte_complete_t3_5_ticks (timing ctx))"
      using Cons.prems(7) False by (simp add: inner_gaps_def x)
    then have d: "receiving ?d r' k" "\<not> pending_ready ?d"
      using receiving_ticks [OF rx(1), of k] T rx(3) Cons.prems(3) by simp_all
    have "published (run_isrs (line_events fr) ?d)
        (frame_spec (receive_buffer_capacity ?d) (unat (byte_complete_t1_5_ticks (timing ?d))) r' k fr) \<and>
      same_setup ?d (run_isrs (line_events fr) ?d)"
    proof (rule Cons.IH [OF False _ d(2)])
      show "ctx_wf ?d" "r' = (take (active_length ?d) (receive_buffers ?d ! unat (active_buffer_index ?d)),
          active_invalid_gap ?d, active_overflow ?d)"
        using d(1) by (simp_all add: receiving_def)
      show "frame_active ?d \<Longrightarrow> unat (gap_ticks ?d) = k"
        "\<not> frame_active ?d \<Longrightarrow> k \<le> unat (byte_complete_t1_5_ticks (timing ?d))"
        using d(1) by (simp_all add: receiving_def)
      show "\<forall>k \<in> set (inner_gaps fr). k < unat (byte_complete_t3_5_ticks (timing ?d))"
        "unat (byte_complete_t3_5_ticks (timing ?d)) \<le> snd (last fr)"
        using Cons.prems(7,8) False same by (simp_all add: inner_gaps_def)
    qed
    moreover have "run_isrs (line_events (x # fr)) ctx = run_isrs (line_events fr) ?d" by (simp add: x)
    moreover have "frame_spec cap t r' k fr = frame_spec cap t r g (x # fr)"
      if "cap = receive_buffer_capacity ctx" "t = unat (byte_complete_t1_5_ticks (timing ctx))" for cap t
      using frame_spec_Cons [of cap t r g b k fr] that by (simp only: x r'_def)
    ultimately show ?thesis
      using same same_setup_trans [OF unchanged] by simp
  qed
qed simp

text \<open>
  C20. The two interrupt handlers implement the abstract receiver. On an idle line with no
  frame waiting, a frame whose inner gaps stay below the end-of-frame deadline and that is
  followed by at least that much silence is published exactly once, with the bytes, the gap
  flag and the overflow flag the abstract receiver computes, and the receiver is idle again.
\<close>

theorem reception_refines_frame_spec:
  assumes "ctx_wf ctx" "\<not> frame_active ctx" "\<not> pending_ready ctx" "fr \<noteq> []"
    "\<forall>k \<in> set (inner_gaps fr). k < unat (byte_complete_t3_5_ticks (timing ctx))"
    "unat (byte_complete_t3_5_ticks (timing ctx)) \<le> snd (last fr)"
  shows "published (run_isrs (line_events fr) ctx)
    (frame_spec (receive_buffer_capacity ctx) (unat (byte_complete_t1_5_ticks (timing ctx)))
       ([], False, False) 0 fr)"
  using receive_rest [OF assms(4,1,3), where r = "([], False, False)" and g = 0] assms
  by (simp add: ctx_wf_def ctx_wf0_def)

theorem reception_refines_frame_spec_witness:
  "published (run_isrs (line_events [(17, 3), (3, 18), (0, 37)]) demo_link) ([17, 3], True, False)"
  using reception_refines_frame_spec [OF demo_link_wf, of "[(17, 3), (3, 18), (0, 37)]"]
  by (simp add: inner_gaps_def)

text \<open>A frame with legal gaps that fits the buffer arrives as it was sent.\<close>

lemma frame_spec_good:
  assumes "length bs + length fr \<le> cap" "g \<le> t" "\<forall>k \<in> set (inner_gaps fr). k \<le> t"
  shows "frame_spec cap t (bs, False, False) g fr = (bs @ map fst fr, False, False)"
  using assms
proof (induction fr arbitrary: bs g)
  case (Cons x fr)
  obtain b k where x: "x = (b, k)" by (cases x)
  show ?case
  proof (cases "fr = []")
    case True
    then show ?thesis using Cons.prems by (simp add: x Let_def not_less)
  next
    case False
    then have "k \<le> t" "\<forall>k \<in> set (inner_gaps fr). k \<le> t"
      using Cons.prems(3) by (simp_all add: inner_gaps_def x)
    then show ?thesis
      using Cons.IH [of "bs @ [b]" k] Cons.prems by (simp add: x Let_def not_less)
  qed
qed simp

definition well_timed :: "mbrtu_timing \<Rightarrow> line_frame \<Rightarrow> bool" where
  "well_timed t fr \<longleftrightarrow> fr \<noteq> [] \<and>
     (\<forall>k \<in> set (inner_gaps fr). k \<le> unat (byte_complete_t1_5_ticks t)) \<and>
     unat (byte_complete_t3_5_ticks t) \<le> snd (last fr)"

lemma receive_good_frame:
  assumes "ctx_wf ctx" "\<not> frame_active ctx" "\<not> pending_ready ctx" "well_timed (timing ctx) fr"
    "length fr \<le> receive_buffer_capacity ctx"
  shows "published (run_isrs (line_events fr) ctx) (map fst fr, False, False) \<and>
    same_setup ctx (run_isrs (line_events fr) ctx)"
proof -
  have "unat (byte_complete_t1_5_ticks (timing ctx)) < unat (byte_complete_t3_5_ticks (timing ctx))"
    using assms(1) by (simp add: ctx_wf_def ctx_wf0_def word_less_nat_alt)
  then have "\<forall>k \<in> set (inner_gaps fr). k < unat (byte_complete_t3_5_ticks (timing ctx))"
    using assms(4) by (auto simp: well_timed_def)
  then show ?thesis
    using receive_rest [OF _ assms(1,3), where r = "([], False, False)" and g = 0 and fr = fr] assms
      frame_spec_good [of "[]" fr "receive_buffer_capacity ctx" 0 "unat (byte_complete_t1_5_ticks (timing ctx))"]
    by (simp add: ctx_wf_def ctx_wf0_def well_timed_def)
qed

lemma poll_wf:
  assumes "ctx_wf ctx"
  shows "ctx_wf (fst (snd (mbrtu_poll call transmit ctx s)))"
  using assms by (auto simp: mbrtu_poll_def ctx_wf_def ctx_wf0_def Let_def bump_def
      split: prod.splits mbrtu_result.splits)

text \<open>
  C13. A request on the line is answered. When a unicast request arrives on an idle line
  with legal gaps and is followed by the end-of-frame silence, then, whatever the interrupt
  handlers receive before the main loop gets to poll, the poll hands the transmitter exactly
  one frame: the answer the PDU server computes for the request, framed with the slave
  address and its CRC; and the server state is the one that answer leaves.
\<close>

theorem request_on_line_answered:
  assumes ctx: "ctx_wf ctx" "\<not> frame_active ctx" "\<not> pending_ready ctx"
    and fr: "well_timed (timing ctx) fr" "map fst fr = rtu_frame (slave_address ctx) pdu"
    and pdu: "pdu \<noteq> []" "length pdu + 3 \<le> receive_buffer_capacity ctx" "256 \<le> response_buffer_capacity ctx"
    and s: "rtu_wf s" "rtu_diag s = None \<or> (\<not> mbrtu_diagnostics_is_listen_only (rtu_diag s) \<and>
       pdu ! 0 \<notin> set [0x07, 0x08, 0x0B, 0x0C])" "pdu ! 0 \<noteq> 0x11"
  shows "\<exists>rsp ctx' s'. mbrtu_poll call transmit (run_isrs (line_events fr @ evs) ctx) s =
      (if transmit (tx_log ctx) (rtu_frame (slave_address ctx) rsp) then POLL_RESPONSE_SENT
       else POLL_ERROR_TRANSMIT, ctx', s') \<and>
    tx_log ctx' = tx_log ctx @ [rtu_frame (slave_address ctx) rsp] \<and> ctx_wf ctx' \<and> \<not> pending_ready ctx' \<and>
    mb_process_pdu call (rtu_mb s) (Some pdu) (Some (response_buffer_capacity ctx - 3)) = (Inr rsp, rtu_mb s') \<and>
    rtu_wf s'"
proof -
  let ?c = "run_isrs (line_events fr) ctx" let ?d = "run_isrs evs ?c" let ?a = "slave_address ctx"
  have len: "length fr = length pdu + 3" using arg_cong [OF fr(2), of length] by simp
  have bounds: "1 \<le> ?a" "?a \<le> 247" "length pdu \<le> 253"
    using ctx(1) pdu(2) by (simp_all add: ctx_wf_def ctx_wf0_def)
  from receive_good_frame [OF ctx fr(1)] len pdu(2) have pub: "published ?c (map fst fr, False, False)"
    and same: "same_setup ctx ?c" by simp_all
  have wf: "ctx_wf ?d" using pub by (simp add: published_def run_isrs_wf)
  have "same_pending ?c ?d" using pub by (intro run_isrs_same_pending) (simp_all add: published_def)
  then have d: "pending_frame ?d = rtu_frame ?a pdu" "pending_ready ?d" "\<not> pending_invalid_gap ?d"
    "\<not> pending_overflow ?d" "initialized ?d" "slave_address ?d = ?a" "tx_log ?d = tx_log ctx"
    "response_buffer_capacity ?d = response_buffer_capacity ctx"
    using pub same wf by (auto simp: same_pending_def published_def same_setup_def fr(2) ctx_wf_def ctx_wf0_def)
  obtain rsp s' where "mbrtu_process_adu_with_diagnostics call (policy ?d) ?a (Some (rtu_frame ?a pdu))
      (Some (response_buffer_capacity ctx)) s = (MBRTU_RESPONSE_READY (rtu_frame ?a rsp), s')"
    "mb_process_pdu call (rtu_mb s) (Some pdu) (Some (response_buffer_capacity ctx - 3)) = (Inr rsp, rtu_mb s')"
    "rtu_wf s'"
    using unicast_answer [OF s(1) bounds(1,2) pdu(3,1) bounds(3) s(2,3)] by blast
  then show ?thesis
    using d poll_wf [OF wf, of call transmit s] by (auto simp: mbrtu_poll_def Let_def bump_def)
qed

theorem request_on_line_answered_witness:
  "\<exists>rsp ctx' s'. mbrtu_poll demo_call (\<lambda>lg f. True)
      (run_isrs (line_events (zip (rtu_frame 17 [3, 0, 0, 0, 1]) [0, 1, 2, 3, 17, 0, 0, 40]) @ [Rx 5, Tick]) demo_link)
      demo_rtu = (POLL_RESPONSE_SENT, ctx', s') \<and> tx_log ctx' = [rtu_frame 17 rsp] \<and>
    mb_process_pdu demo_call (rtu_mb demo_rtu) (Some [3, 0, 0, 0, 1]) (Some 253) = (Inr rsp, rtu_mb s')"
proof -
  let ?fr = "zip (rtu_frame 17 [3, 0, 0, 0, 1]) [0, 1, 2, 3, 17, 0, 0, 40]"
  have "well_timed (timing demo_link) ?fr"
    by (simp add: well_timed_def inner_gaps_def rtu_frame_def write_crc_le_def)
  moreover have "map fst ?fr = rtu_frame (slave_address demo_link) [3, 0, 0, 0, 1]" by simp
  moreover have "\<not> mbrtu_diagnostics_is_listen_only (rtu_diag demo_rtu)"
    by (simp add: demo_rtu_def mbrtu_diagnostics_is_listen_only_def mbrtu_diagnostics_init_def)
  ultimately show ?thesis
    using request_on_line_answered [OF demo_link_wf, of ?fr "[3, 0, 0, 0, 1]" demo_rtu demo_call
        "\<lambda>lg f. True" "[Rx 5, Tick]"] demo_rtu_wf
    by (auto simp del: run_isrs_simps)
qed

text \<open>Damaged frames.\<close>

lemma frame_spec_bad: "fst (snd r) \<Longrightarrow> fst (snd (frame_spec cap t r g fr))"
  by (induction cap t r g fr rule: frame_spec.induct) (auto simp: Let_def)

lemma frame_spec_bad_gap:
  "\<exists>k \<in> set (inner_gaps fr). t < k \<Longrightarrow> fst (snd (frame_spec cap t r g fr))"
proof (induction cap t r g fr rule: frame_spec.induct)
  case (2 cap t bs bad ovf g b k fr)
  show ?case
  proof (cases "\<exists>k \<in> set (inner_gaps fr). t < k")
    case True
    then show ?thesis using "2.IH" by (simp add: Let_def)
  next
    case False
    then have "fr \<noteq> []" "t < k" using "2.prems" by (auto simp: inner_gaps_def split: if_splits)
    then obtain b' k' fr' where "fr = (b', k') # fr'" by (cases fr) auto
    then show ?thesis using \<open>t < k\<close> by (auto simp: Let_def intro!: frame_spec_bad)
  qed
qed (simp add: inner_gaps_def)

lemma frame_spec_ovf: "snd (snd r) \<Longrightarrow> snd (snd (frame_spec cap t r g fr))"
  by (induction cap t r g fr rule: frame_spec.induct) (auto simp: Let_def)

lemma frame_spec_overflow:
  assumes "cap < length bs + length fr" "length bs \<le> cap" "g \<le> t" "\<forall>k \<in> set (inner_gaps fr). k \<le> t"
  shows "snd (snd (frame_spec cap t (bs, False, False) g fr))"
  using assms
proof (induction fr arbitrary: bs g)
  case (Cons x fr)
  obtain b k where x: "x = (b, k)" by (cases x)
  show ?case
  proof (cases "cap \<le> length bs")
    case True
    then show ?thesis using Cons.prems by (auto simp: x Let_def not_less intro!: frame_spec_ovf)
  next
    case False
    then have "fr \<noteq> []" using Cons.prems(1) by auto
    then have "k \<le> t" "\<forall>k \<in> set (inner_gaps fr). k \<le> t"
      using Cons.prems(4) by (simp_all add: inner_gaps_def x)
    then show ?thesis
      using Cons.IH [of "bs @ [b]" k] Cons.prems False by (simp add: x Let_def not_less)
  qed
qed simp

text \<open>
  C28. Damaged frames are dropped. A frame with a gap between two characters above the limit
  (but below the end-of-frame deadline), or longer than the receive buffer, is dropped by the
  poll: nothing is transmitted and the register and file data do not change; the context is
  ready for the next frame.
\<close>

theorem damaged_frame_dropped:
  assumes ctx: "ctx_wf ctx" "\<not> frame_active ctx" "\<not> pending_ready ctx" and fr: "fr \<noteq> []"
    "\<forall>k \<in> set (inner_gaps fr). k < unat (byte_complete_t3_5_ticks (timing ctx))"
    "unat (byte_complete_t3_5_ticks (timing ctx)) \<le> snd (last fr)"
    and bad: "(\<exists>k \<in> set (inner_gaps fr). unat (byte_complete_t1_5_ticks (timing ctx)) < k) \<or>
      receive_buffer_capacity ctx < length fr"
    and poll: "mbrtu_poll call transmit (run_isrs (line_events fr) ctx) s = (r, ctx', s')"
  shows "r = POLL_FRAME_DROPPED \<and> tx_log ctx' = tx_log ctx \<and> rtu_mb s' = rtu_mb s \<and>
    ctx_wf ctx' \<and> \<not> pending_ready ctx' \<and> \<not> frame_active ctx'"
proof -
  let ?c = "run_isrs (line_events fr) ctx" let ?t = "unat (byte_complete_t1_5_ticks (timing ctx))"
  let ?r = "frame_spec (receive_buffer_capacity ctx) ?t ([], False, False) 0 fr"
  have "published ?c ?r \<and> same_setup ctx ?c"
    using receive_rest [OF fr(1) ctx(1,3), where r = "([], False, False)" and g = 0] ctx fr
    by (simp add: ctx_wf_def ctx_wf0_def)
  moreover have "fst (snd ?r) \<or> snd (snd ?r)"
  proof (cases "\<exists>k \<in> set (inner_gaps fr). ?t < k")
    case True
    then show ?thesis by (intro disjI1 frame_spec_bad_gap)
  next
    case False
    then show ?thesis using bad by (intro disjI2 frame_spec_overflow) (auto simp: not_less)
  qed
  ultimately have c: "pending_ready ?c" "pending_invalid_gap ?c \<or> pending_overflow ?c" "ctx_wf ?c"
    "initialized ?c" "\<not> frame_active ?c" "tx_log ?c = tx_log ctx"
    by (auto simp: published_def same_setup_def ctx_wf_def ctx_wf0_def)
  then show ?thesis
    using poll poll_wf [OF c(3), of call transmit s] unfolding mbrtu_poll_def by (auto simp: Let_def)
qed

theorem damaged_frame_dropped_witness:
  "fst (mbrtu_poll demo_call (\<lambda>lg f. True) (run_isrs (line_events [(17, 3), (6, 20), (0, 37)]) demo_link) demo_rtu)
     = POLL_FRAME_DROPPED"
proof -
  obtain r ctx' s' where poll: "mbrtu_poll demo_call (\<lambda>lg f. True)
      (run_isrs (line_events [(17, 3), (6, 20), (0, 37)]) demo_link) demo_rtu = (r, ctx', s')"
    by (cases "mbrtu_poll demo_call (\<lambda>lg f. True)
      (run_isrs (line_events [(17, 3), (6, 20), (0, 37)]) demo_link) demo_rtu") auto
  have "r = POLL_FRAME_DROPPED"
    by (rule damaged_frame_dropped [OF demo_link_wf _ _ _ _ _ _ poll, THEN conjunct1])
      (simp_all add: inner_gaps_def)
  with poll show ?thesis by simp
qed

section \<open>Interleaving of the interrupts with the main loop\<close>

text \<open>
  \<open>mbrtu_poll\<close> runs in the main loop and interrupts arrive while it works on the published
  frame. The step relation makes that explicit: the poll begins by reading the frame,
  interrupts come in any number and order, and the poll ends by releasing the buffer
  (\<open>pending_ready = 0\<close>).
\<close>

datatype main_phase = Main_Idle | Main_Busy bytes

inductive link_step :: "mbrtu_context \<times> main_phase \<Rightarrow> mbrtu_context \<times> main_phase \<Rightarrow> bool" where
  interrupt: "link_step (ctx, ph) (isr_event e ctx, ph)"
| poll_begin: "initialized ctx \<Longrightarrow> pending_ready ctx \<Longrightarrow>
    link_step (ctx, Main_Idle) (ctx, Main_Busy (pending_frame ctx))"
| poll_end: "link_step (ctx, Main_Busy f) (ctx\<lparr>pending_ready := False\<rparr>, Main_Idle)"

inductive_cases link_stepE: "link_step (ctx, ph) st"

definition link_inv :: "mbrtu_context \<times> main_phase \<Rightarrow> bool" where
  "link_inv st \<longleftrightarrow> ctx_wf (fst st) \<and>
     (case snd st of Main_Idle \<Rightarrow> True
      | Main_Busy f \<Rightarrow> pending_ready (fst st) \<and> pending_frame (fst st) = f)"

lemma link_step_inv:
  assumes "link_step st st'" "link_inv st"
  shows "link_inv st'"
  using assms
proof (induction rule: link_step.induct)
  case (interrupt ctx ph e)
  then show ?case
    using isr_event_wf [of ctx e] isr_same_pending [of ctx e]
    by (auto simp: link_inv_def same_pending_def split: main_phase.splits)
qed (auto simp: link_inv_def ctx_wf_def ctx_wf0_def)

text \<open>
  C23. The buffer the main loop works on is never written. In every state reachable from an
  initialised context by interrupts and polls in any interleaving, the invariant of the
  double buffer holds, and a poll in progress still finds in the published buffer exactly the
  bytes it found when it began.
\<close>

theorem frame_stable_while_processed:
  assumes "mbrtu_init arrays (Some c) = Inr ctx" "\<And>a. cfg_receive_buffer_capacity c \<le> length (arrays a)"
    "link_step\<^sup>*\<^sup>* (ctx, Main_Idle) (ctx', ph)"
  shows "ctx_wf ctx' \<and> (ph = Main_Idle \<or> pending_ready ctx' \<and> ph = Main_Busy (pending_frame ctx'))"
proof -
  have "link_inv (ctx, Main_Idle)" using mbrtu_init_wf [OF assms(1,2)] by (simp add: link_inv_def)
  with assms(3) have "link_inv (ctx', ph)"
    by (induction "(ctx', ph)" arbitrary: ctx' ph rule: rtranclp_induct)
      (force dest: link_step_inv)+
  then show ?thesis by (auto simp: link_inv_def split: main_phase.splits)
qed

theorem frame_stable_while_processed_witness:
  "pending_frame (isr_event (Rx 9) (run_isrs (line_events [(17, 37)]) demo_link)) = [17]"
proof -
  let ?c = "run_isrs (line_events [(17, 37)]) demo_link"
  have pub: "published ?c ([17], False, False)"
    using receive_good_frame [OF demo_link_wf, of "[(17, 37)]"] by (simp add: well_timed_def inner_gaps_def)
  have "link_step\<^sup>*\<^sup>* (c, ph) (run_isrs evs c, ph)" for evs c ph
    by (induction evs arbitrary: c) (auto intro: converse_rtranclp_into_rtranclp link_step.interrupt)
  moreover have "link_step (?c, Main_Idle) (?c, Main_Busy [17])"
    using poll_begin [of ?c] pub by (simp add: published_def ctx_wf_def ctx_wf0_def)
  moreover have "link_step (?c, Main_Busy [17]) (isr_event (Rx 9) ?c, Main_Busy [17])"
    by (rule link_step.interrupt)
  ultimately have "link_step\<^sup>*\<^sup>* (demo_link, Main_Idle) (isr_event (Rx 9) ?c, Main_Busy [17])"
    by (meson rtranclp.rtrancl_into_rtrancl)
  from frame_stable_while_processed [OF demo_init _ this] show ?thesis
    by (simp add: demo_arrays_def demo_config_def)
qed

end
