(* ===== verification/Board_Rx.thy ===== *)
theory Board_Rx
  imports Rtu_Link
begin

text \<open>
  The frame detector of the STM32F767 master application, app/app.c: the USART3 byte interrupt
  and the 50 us tick interrupt with their two receive buffers. The record
  \<open>modbus_master_rx\<close> is the struct of that name, \<open>board_link\<close> adds the file's globals the
  interrupts touch. The 0/1 flags are \<open>bool\<close>, lengths and counters keep their width. The
  detector was written after the one of modbus_rtu.c, with the deadlines of the timing record
  read differently: a simulation says exactly what it computes.
\<close>

record modbus_master_rx =
  m_buffers :: "bytes list"
  m_timing :: mbrtu_timing
  m_gap_ticks :: u32
  m_active_length :: u16
  m_pending_length :: u16
  m_active_buffer_index :: u8
  m_pending_buffer_index :: u8
  m_frame_active :: bool
  m_active_invalid_gap :: bool
  m_active_overflow :: bool
  m_pending_ready :: bool
  m_pending_invalid_gap :: bool
  m_pending_overflow :: bool

record board_link = modbus_master_rx +
  l_initialized :: bool
  l_receive_window_open :: bool
  l_received_bytes :: u32
  l_detected_frames :: u32
  l_invalid_gap_frames :: u32
  l_overflow_frames :: u32
  l_overrun_frames :: u32
  l_unexpected_bytes :: u32

abbreviation (input) MODBUS_MASTER_RX_BUFFER_CAPACITY :: u16 where
  "MODBUS_MASTER_RX_BUFFER_CAPACITY \<equiv> 256"

definition modbus_master_rx_reset_active_isr :: "board_link \<Rightarrow> board_link" where
  "modbus_master_rx_reset_active_isr l = l\<lparr>m_gap_ticks := 0, m_active_length := 0, m_frame_active := False,
     m_active_invalid_gap := False, m_active_overflow := False\<rparr>"

definition modbus_master_rx_reset_all :: "board_link \<Rightarrow> board_link" where
  "modbus_master_rx_reset_all l = modbus_master_rx_reset_active_isr
     (l\<lparr>m_active_buffer_index := 0, m_pending_buffer_index := 0, m_pending_length := 0,
        m_pending_ready := False, m_pending_invalid_gap := False, m_pending_overflow := False\<rparr>)"

definition modbus_master_rx_complete_frame_isr :: "board_link \<Rightarrow> board_link" where
  "modbus_master_rx_complete_frame_isr l =
     (if \<not> m_frame_active l then l
      else
        let l = l\<lparr>l_detected_frames := l_detected_frames l + 1\<rparr> in
        modbus_master_rx_reset_active_isr
          (if \<not> m_pending_ready l then
             l\<lparr>m_pending_buffer_index := m_active_buffer_index l,
               m_pending_length := m_active_length l,
               m_pending_invalid_gap := m_active_invalid_gap l,
               m_pending_overflow := m_active_overflow l,
               m_active_buffer_index := m_active_buffer_index l XOR 1,
               m_pending_ready := True\<rparr>
           else l\<lparr>l_overrun_frames := l_overrun_frames l + 1\<rparr>))"

definition modbus_master_on_rx_byte_isr :: "u8 \<Rightarrow> board_link \<Rightarrow> board_link" where
  "modbus_master_on_rx_byte_isr b l =
     (if \<not> l_initialized l \<or> \<not> l_receive_window_open l
      then l\<lparr>l_unexpected_bytes := l_unexpected_bytes l + 1\<rparr>
      else
        let l = l\<lparr>l_received_bytes := l_received_bytes l + 1\<rparr>;
            l = (if m_frame_active l then
                   if m_gap_ticks l \<ge> byte_complete_t3_5_ticks (m_timing l)
                   then modbus_master_rx_complete_frame_isr l
                   else if m_gap_ticks l > byte_complete_t1_5_ticks (m_timing l) \<and> \<not> m_active_invalid_gap l
                   then l\<lparr>m_active_invalid_gap := True, l_invalid_gap_frames := l_invalid_gap_frames l + 1\<rparr>
                   else l
                 else l);
            l = l\<lparr>m_gap_ticks := 0, m_frame_active := True\<rparr> in
        if m_active_invalid_gap l \<or> m_active_overflow l then l
        else if m_active_length l \<ge> MODBUS_MASTER_RX_BUFFER_CAPACITY
        then l\<lparr>m_active_overflow := True, l_overflow_frames := l_overflow_frames l + 1\<rparr>
        else
          let i = unat (m_active_buffer_index l) in
          l\<lparr>m_buffers := (m_buffers l)[i := (m_buffers l ! i)[unat (m_active_length l) := b]],
            m_active_length := m_active_length l + 1\<rparr>)"

definition modbus_master_on_50us_tick_isr :: "board_link \<Rightarrow> board_link" where
  "modbus_master_on_50us_tick_isr l =
     (if \<not> l_initialized l \<or> \<not> l_receive_window_open l \<or> \<not> m_frame_active l then l
      else
        let l = (if m_gap_ticks l < t3_5_ticks (m_timing l)
                 then l\<lparr>m_gap_ticks := m_gap_ticks l + 1\<rparr> else l) in
        if m_gap_ticks l \<ge> t3_5_ticks (m_timing l)
        then modbus_master_rx_complete_frame_isr l else l)"

fun board_isr :: "rtu_event \<Rightarrow> board_link \<Rightarrow> board_link" where
  "board_isr (Rx b) l = modbus_master_on_rx_byte_isr b l"
| "board_isr Tick l = modbus_master_on_50us_tick_isr l"

definition board_isrs :: "rtu_event list \<Rightarrow> board_link \<Rightarrow> board_link" where
  "board_isrs evs l = fold board_isr evs l"

lemma board_isrs_simps [simp]:
  "board_isrs [] l = l" "board_isrs (e # evs) l = board_isrs evs (board_isr e l)"
  "board_isrs (evs @ evs') l = board_isrs evs' (board_isrs evs l)"
  by (simp_all add: board_isrs_def)

section \<open>The detector as the detector of modbus_rtu.c\<close>

text \<open>
  The board's receiver read as a context of modbus_rtu.c: a full-size buffer and, in place of
  the end-of-frame deadline for complete bytes, the shorter silent interval \<open>t3_5_ticks\<close>. The
  board does not count queued frames; they are the detected frames that did not overrun.
\<close>

definition portable_view :: "board_link \<Rightarrow> mbrtu_context" where
  "portable_view l =
     \<lparr>slave_address = 1, receive_buffers = m_buffers l, receive_buffer_capacity = 256,
      response_buffer_capacity = 256,
      timing = (m_timing l)\<lparr>byte_complete_t3_5_ticks := t3_5_ticks (m_timing l)\<rparr>,
      gap_ticks = m_gap_ticks l, active_length = unat (m_active_length l),
      pending_length = unat (m_pending_length l), active_buffer_index = m_active_buffer_index l,
      pending_buffer_index = m_pending_buffer_index l, frame_active = m_frame_active l,
      active_invalid_gap = m_active_invalid_gap l, active_overflow = m_active_overflow l,
      pending_ready = m_pending_ready l, pending_invalid_gap = m_pending_invalid_gap l,
      pending_overflow = m_pending_overflow l, initialized = True,
      stats = zero_stats\<lparr>received_bytes := l_received_bytes l,
        detected_frame_boundaries := l_detected_frames l,
        queued_frames := l_detected_frames l - l_overrun_frames l,
        invalid_gap_events := l_invalid_gap_frames l, overflow_events := l_overflow_frames l,
        overrun_frames := l_overrun_frames l\<rparr>,
      policy = None, tx_log = []\<rparr>"

definition link_wf :: "board_link \<Rightarrow> bool" where
  "link_wf l \<longleftrightarrow> ctx_wf (portable_view l) \<and> t3_5_ticks (m_timing l) \<le> byte_complete_t3_5_ticks (m_timing l)"

lemma portable_view_sel [simp]:
  "receive_buffers (portable_view l) = m_buffers l" "receive_buffer_capacity (portable_view l) = 256"
  "timing (portable_view l) = (m_timing l)\<lparr>byte_complete_t3_5_ticks := t3_5_ticks (m_timing l)\<rparr>"
  "gap_ticks (portable_view l) = m_gap_ticks l" "active_length (portable_view l) = unat (m_active_length l)"
  "frame_active (portable_view l) = m_frame_active l" "pending_ready (portable_view l) = m_pending_ready l"
  "active_invalid_gap (portable_view l) = m_active_invalid_gap l"
  "active_overflow (portable_view l) = m_active_overflow l" "initialized (portable_view l)"
  "pending_invalid_gap (portable_view l) = m_pending_invalid_gap l"
  "pending_overflow (portable_view l) = m_pending_overflow l"
  "pending_length (portable_view l) = unat (m_pending_length l)"
  "active_buffer_index (portable_view l) = m_active_buffer_index l"
  "pending_buffer_index (portable_view l) = m_pending_buffer_index l"
  by (simp_all add: portable_view_def)

text \<open>The deadline for complete bytes is never seen reached: the tick closes the frame first.\<close>

lemma gap_below_deadline:
  assumes "link_wf l" "m_frame_active l"
  shows "m_gap_ticks l < t3_5_ticks (m_timing l)" "\<not> byte_complete_t3_5_ticks (m_timing l) \<le> m_gap_ticks l"
  using assms by (auto simp: link_wf_def ctx_wf_def)

lemma complete_view:
  "portable_view (modbus_master_rx_complete_frame_isr l) = complete_active_frame_isr (portable_view l)"
  by (simp add: modbus_master_rx_complete_frame_isr_def modbus_master_rx_reset_active_isr_def
      complete_active_frame_isr_def reset_active_frame_def portable_view_def Let_def)

lemma tick_view:
  assumes "l_initialized l" "l_receive_window_open l"
  shows "portable_view (modbus_master_on_50us_tick_isr l) = mbrtu_on_50us_tick_isr (portable_view l)"
proof -
  have gap: "portable_view (l\<lparr>m_gap_ticks := g\<rparr>) = (portable_view l)\<lparr>gap_ticks := g\<rparr>" for g
    by (simp add: portable_view_def)
  show ?thesis
    using assms by (simp add: modbus_master_on_50us_tick_isr_def mbrtu_on_50us_tick_isr_def Let_def complete_view gap)
qed

text \<open>The two halves of the byte interrupt: the check of the gap, then the byte.\<close>

definition board_gap_checked :: "board_link \<Rightarrow> board_link" where
  "board_gap_checked l =
     (if m_frame_active l \<and> m_gap_ticks l > byte_complete_t1_5_ticks (m_timing l) \<and> \<not> m_active_invalid_gap l
      then l\<lparr>l_received_bytes := l_received_bytes l + 1, m_active_invalid_gap := True,
             l_invalid_gap_frames := l_invalid_gap_frames l + 1, m_gap_ticks := 0, m_frame_active := True\<rparr>
      else l\<lparr>l_received_bytes := l_received_bytes l + 1, m_gap_ticks := 0, m_frame_active := True\<rparr>)"

definition board_byte_stored :: "u8 \<Rightarrow> board_link \<Rightarrow> board_link" where
  "board_byte_stored b l =
     (if m_active_invalid_gap l \<or> m_active_overflow l then l
      else if m_active_length l \<ge> MODBUS_MASTER_RX_BUFFER_CAPACITY
      then l\<lparr>m_active_overflow := True, l_overflow_frames := l_overflow_frames l + 1\<rparr>
      else
        let i = unat (m_active_buffer_index l) in
        l\<lparr>m_buffers := (m_buffers l)[i := (m_buffers l ! i)[unat (m_active_length l) := b]],
          m_active_length := m_active_length l + 1\<rparr>)"

lemma board_rx_unfold:
  assumes wf: "link_wf l" and open_: "l_initialized l" "l_receive_window_open l"
  shows "modbus_master_on_rx_byte_isr b l = board_byte_stored b (board_gap_checked l)"
proof (cases "m_frame_active l")
  case True
  then show ?thesis
    using open_ gap_below_deadline(2) [OF wf True]
    by (cases "byte_complete_t1_5_ticks (m_timing l) < m_gap_ticks l"; cases "m_active_invalid_gap l")
      (simp_all add: modbus_master_on_rx_byte_isr_def board_gap_checked_def board_byte_stored_def Let_def
        cong: if_cong split del: if_split)
next
  case False
  then show ?thesis
    using open_ by (simp add: modbus_master_on_rx_byte_isr_def board_gap_checked_def board_byte_stored_def Let_def
        cong: if_cong split del: if_split)
qed

lemma gap_checked_view: "portable_view (board_gap_checked l) = rx_gap_checked (portable_view l)"
  by (simp add: board_gap_checked_def rx_gap_checked_def portable_view_def)

lemma stored_byte_view:
  "portable_view (board_byte_stored b l) =
    (let ctx = portable_view l in
     if active_invalid_gap ctx \<or> active_overflow ctx then ctx
     else if active_length ctx \<ge> receive_buffer_capacity ctx
     then ctx\<lparr>active_overflow := True,
              stats := (stats ctx)\<lparr>overflow_events := overflow_events (stats ctx) + 1\<rparr>\<rparr>
     else
       let i = unat (active_buffer_index ctx) in
       ctx\<lparr>receive_buffers := (receive_buffers ctx)
             [i := (receive_buffers ctx ! i)[active_length ctx := b]],
           active_length := active_length ctx + 1\<rparr>)"
proof (cases "256 \<le> m_active_length l")
  case True
  then have "256 \<le> unat (m_active_length l)" by (simp add: word_le_nat_alt)
  with True show ?thesis by (simp add: board_byte_stored_def portable_view_def)
next
  case False
  then have "\<not> 256 \<le> unat (m_active_length l)" "unat (m_active_length l + 1) = Suc (unat (m_active_length l))"
    by (simp_all add: word_le_nat_alt unat_word_ariths)
  with False show ?thesis by (simp add: board_byte_stored_def portable_view_def Let_def)
qed

lemma rx_view:
  assumes "link_wf l" "l_initialized l" "l_receive_window_open l"
  shows "portable_view (modbus_master_on_rx_byte_isr b l) = mbrtu_on_rx_byte_isr b (portable_view l)"
proof -
  have "ctx_wf (portable_view l)" using assms(1) by (simp add: link_wf_def)
  then show ?thesis
    unfolding board_rx_unfold [OF assms] stored_byte_view gap_checked_view by (simp only: rx_unfold)
qed

text \<open>What the interrupts leave alone.\<close>

lemma board_isr_keeps [simp]:
  "l_initialized (board_isr e l) = l_initialized l"
  "l_receive_window_open (board_isr e l) = l_receive_window_open l" "m_timing (board_isr e l) = m_timing l"
  by (cases e; simp add: modbus_master_on_rx_byte_isr_def modbus_master_on_50us_tick_isr_def Let_def
      modbus_master_rx_complete_frame_isr_def modbus_master_rx_reset_active_isr_def)+

lemma board_isr_closed:
  "\<not> (l_initialized l \<and> l_receive_window_open l) \<Longrightarrow> portable_view (board_isr e l) = portable_view l"
  by (cases e) (auto simp: modbus_master_on_rx_byte_isr_def modbus_master_on_50us_tick_isr_def portable_view_def)

lemma board_isr_view:
  assumes "link_wf l" "l_initialized l" "l_receive_window_open l"
  shows "portable_view (board_isr e l) = isr_event e (portable_view l)"
  using assms by (cases e) (simp_all add: rx_view tick_view)

lemma board_isr_wf: "link_wf l \<Longrightarrow> link_wf (board_isr e l)"
  by (cases "l_initialized l \<and> l_receive_window_open l")
    (simp_all add: link_wf_def board_isr_closed board_isr_view isr_event_wf)

lemma board_isrs_keep [simp]:
  "l_initialized (board_isrs evs l) = l_initialized l"
  "l_receive_window_open (board_isrs evs l) = l_receive_window_open l" "m_timing (board_isrs evs l) = m_timing l"
  by (induction evs arbitrary: l) simp_all

lemma board_isrs_view:
  assumes "link_wf l" "l_initialized l" "l_receive_window_open l"
  shows "portable_view (board_isrs evs l) = run_isrs evs (portable_view l)"
  using assms by (induction evs arbitrary: l) (simp_all add: board_isr_wf board_isr_view)

lemma reset_view_wf: "link_wf l \<Longrightarrow> link_wf (modbus_master_rx_reset_all l)"
  by (simp add: link_wf_def ctx_wf_def ctx_wf0_def portable_view_def modbus_master_rx_reset_all_def
      modbus_master_rx_reset_active_isr_def)

lemma link_wf_flags [simp]:
  "link_wf (l\<lparr>l_receive_window_open := w\<rparr>) = link_wf l" "link_wf (l\<lparr>l_initialized := w\<rparr>) = link_wf l"
  "link_wf (l\<lparr>l_unexpected_bytes := u\<rparr>) = link_wf l"
  by (simp_all add: link_wf_def portable_view_def)

text \<open>The board at 115200 baud, eight data bits, no parity, one stop bit.\<close>

definition board_timing :: mbrtu_timing where
  "board_timing = timing_of 115200 10"

lemma board_timing_values [simp]:
  "t3_5_ticks board_timing = 35" "byte_complete_t1_5_ticks board_timing = 17"
  "byte_complete_t3_5_ticks board_timing = 37"
  by (simp_all add: board_timing_def timing_of_def ceil_div_u64_def)

lemma board_timing_calculated: "mbrtu_calculate_timing 115200 8 0 1 = Some board_timing"
  by (simp add: mbrtu_calculate_timing_def board_timing_def timing_of_def ceil_div_u64_def)

definition listening_link :: board_link where
  "listening_link = \<lparr>m_buffers = replicate 2 (replicate 256 0), m_timing = board_timing, m_gap_ticks = 0,
     m_active_length = 0, m_pending_length = 0, m_active_buffer_index = 0, m_pending_buffer_index = 0,
     m_frame_active = False, m_active_invalid_gap = False, m_active_overflow = False, m_pending_ready = False,
     m_pending_invalid_gap = False, m_pending_overflow = False, l_initialized = True,
     l_receive_window_open = True, l_received_bytes = 0, l_detected_frames = 0, l_invalid_gap_frames = 0,
     l_overflow_frames = 0, l_overrun_frames = 0, l_unexpected_bytes = 0\<rparr>"

lemma listening_link_wf: "link_wf listening_link"
  by (simp add: link_wf_def ctx_wf_def ctx_wf0_def portable_view_def listening_link_def)

lemma listening_link_sel [simp]:
  "l_initialized listening_link" "l_receive_window_open listening_link" "m_timing listening_link = board_timing"
  "m_frame_active listening_link = False" "m_pending_ready listening_link = False"
  by (simp_all add: listening_link_def)

text \<open>
  C21. The board's frame detector is the detector of modbus_rtu.c with another deadline. While the
  receive window is open, every sequence of byte and tick interrupts takes the board's receiver
  through exactly the states of the portable receiver, buffers, flags and counters included,
  run with a full-size buffer and with the silent interval \<open>t3_5_ticks\<close> in place of
  \<open>byte_complete_t3_5_ticks\<close>; in particular the invariant of the double buffer holds throughout.
\<close>

theorem board_detector_refines_portable:
  assumes "link_wf l" "l_initialized l" "l_receive_window_open l"
  shows "portable_view (board_isrs evs l) = run_isrs evs (portable_view l) \<and> link_wf (board_isrs evs l)"
proof -
  have "link_wf (board_isrs evs l)" using assms(1) by (induction evs arbitrary: l) (simp_all add: board_isr_wf)
  with board_isrs_view [OF assms] show ?thesis by simp
qed

theorem board_detector_refines_portable_witness:
  "portable_view (board_isrs [Rx 1, Tick, Rx 3] listening_link) = run_isrs [Rx 1, Tick, Rx 3] (portable_view listening_link)"
  using board_detector_refines_portable [OF listening_link_wf, of "[Rx 1, Tick, Rx 3]"] by simp

text \<open>A well-timed frame that fits the buffer is handed over as it was sent.\<close>

definition board_frame :: "board_link \<Rightarrow> bytes" where
  "board_frame l = take (unat (m_pending_length l)) (m_buffers l ! unat (m_pending_buffer_index l))"

definition board_well_timed :: "mbrtu_timing \<Rightarrow> line_frame \<Rightarrow> bool" where
  "board_well_timed t fr \<longleftrightarrow> fr \<noteq> [] \<and> (\<forall>k \<in> set (inner_gaps fr). k \<le> unat (byte_complete_t1_5_ticks t)) \<and>
     unat (t3_5_ticks t) \<le> snd (last fr)"

lemma board_receives_frame:
  assumes "link_wf l" "l_initialized l" "l_receive_window_open l" "\<not> m_frame_active l" "\<not> m_pending_ready l"
    "board_well_timed (m_timing l) fr" "length fr \<le> 256"
  shows "link_wf (board_isrs (line_events fr) l) \<and> m_pending_ready (board_isrs (line_events fr) l) \<and>
    board_frame (board_isrs (line_events fr) l) = map fst fr \<and>
    \<not> m_pending_invalid_gap (board_isrs (line_events fr) l) \<and> \<not> m_pending_overflow (board_isrs (line_events fr) l)"
proof -
  let ?l = "board_isrs (line_events fr) l"
  have "published (run_isrs (line_events fr) (portable_view l)) (map fst fr, False, False)"
    using receive_good_frame [of "portable_view l" fr] assms
    by (simp add: link_wf_def well_timed_def board_well_timed_def)
  then have "published (portable_view ?l) (map fst fr, False, False)"
    by (simp add: board_isrs_view [OF assms(1-3)])
  moreover have "t3_5_ticks (m_timing ?l) \<le> byte_complete_t3_5_ticks (m_timing ?l)"
    using assms(1) by (simp add: link_wf_def)
  ultimately show ?thesis by (simp add: published_def link_wf_def pending_frame_def board_frame_def)
qed

text \<open>
  C22. The shorter deadline shows on the line. When a byte is followed by a silence that the
  portable receiver at the same baud rate still takes for a gap inside the frame (from
  \<open>t3_5_ticks\<close> up to one tick below \<open>byte_complete_t3_5_ticks\<close>), the board has already closed
  the frame and handed it over, while the portable receiver is still receiving it.
\<close>

theorem board_splits_frame_early:
  assumes "link_wf l" "l_initialized l" "l_receive_window_open l" "\<not> m_frame_active l" "\<not> m_pending_ready l"
    "ctx_wf ctx" "\<not> frame_active ctx" "\<not> pending_ready ctx" "timing ctx = m_timing l"
    "unat (t3_5_ticks (m_timing l)) \<le> k" "k < unat (byte_complete_t3_5_ticks (m_timing l))"
  shows "m_pending_ready (board_isrs (line_events [(b, k)]) l) \<and>
    board_frame (board_isrs (line_events [(b, k)]) l) = [b] \<and>
    \<not> pending_ready (run_isrs (line_events [(b, k)]) ctx) \<and> frame_active (run_isrs (line_events [(b, k)]) ctx)"
proof -
  have "board_well_timed (m_timing l) [(b, k)]" using assms(10) by (simp add: board_well_timed_def inner_gaps_def)
  note board = board_receives_frame [OF assms(1-5) this]
  let ?c = "mbrtu_on_rx_byte_isr b ctx"
  have c: "receiving ?c (frame_spec (receive_buffer_capacity ctx) (unat (byte_complete_t1_5_ticks (timing ctx)))
      ([], False, False) 0 [(b, k)]) 0" "timing ?c = timing ctx" "pending_ready ?c = pending_ready ctx"
    using receiving_rx(1) [OF assms(6) refl, where g = 0 and b = b and k = k]
      receiving_rx(2,3) [OF assms(6) refl, where g = 0 and b = b] assms(6,7)
    by (simp_all add: ctx_wf_def ctx_wf0_def same_setup_def)
  have "receiving (run_isrs (replicate k Tick) ?c) (frame_spec (receive_buffer_capacity ctx)
      (unat (byte_complete_t1_5_ticks (timing ctx))) ([], False, False) 0 [(b, k)]) k \<and>
    pending_ready (run_isrs (replicate k Tick) ?c) = pending_ready ?c"
    using receiving_ticks [OF c(1), of k] c(2) assms(9,11) by simp
  with board c(3) assms(8) show ?thesis by (simp add: receiving_def)
qed

theorem board_splits_frame_early_witness:
  "board_frame (board_isrs (line_events [(5, 36)]) listening_link) = [5] \<and>
   \<not> pending_ready (run_isrs (line_events [(5, 36)]) demo_link)"
proof -
  have "timing demo_link = m_timing listening_link"
    by (simp add: demo_link_def mbrtu_init_def demo_config_def board_timing_calculated)
  then show ?thesis
    using board_splits_frame_early [OF listening_link_wf _ _ _ _ demo_link_wf, of 36 5] by simp
qed

end
