(* ===== verification/Master_Request.thy ===== *)
theory Master_Request
  imports Rtu
begin

text \<open>
  The request side of the RTU master, modbus_rtu_master.c: the descriptor of a request, the
  builders of every function code, and the check of a descriptor before a response is
  validated. A builder returns the error, in which case the descriptor it leaves is zero and
  the frame length is zero, or the descriptor with the bytes of the frame. The output
  pointers are one capacity: \<open>None\<close> stands for a NULL output. An input array is \<open>None\<close> when
  its pointer is NULL.
\<close>

abbreviation (input) MBRTUM_FIXED_REQUEST_ADU_SIZE :: nat where "MBRTUM_FIXED_REQUEST_ADU_SIZE \<equiv> 8"
abbreviation (input) MBRTUM_MASK_WRITE_ADU_SIZE :: nat where "MBRTUM_MASK_WRITE_ADU_SIZE \<equiv> 10"
abbreviation (input) MBRTUM_FIFO_REQUEST_ADU_SIZE :: nat where "MBRTUM_FIFO_REQUEST_ADU_SIZE \<equiv> 6"
abbreviation (input) MODBUS_RTU_CRC_SIZE :: nat where "MODBUS_RTU_CRC_SIZE \<equiv> 2"
abbreviation (input) MB_FILE_RECORD_MAX_SUBREQUESTS :: nat where "MB_FILE_RECORD_MAX_SUBREQUESTS \<equiv> 35"

datatype mbrtum_error =
  MBRTUM_ERROR_ARGUMENT | MBRTUM_ERROR_SLAVE_ADDRESS | MBRTUM_ERROR_FUNCTION | MBRTUM_ERROR_QUANTITY
| MBRTUM_ERROR_VALUE | MBRTUM_ERROR_CAPACITY | MBRTUM_ERROR_RESPONSE_LENGTH | MBRTUM_ERROR_CRC
| MBRTUM_ERROR_ADDRESS_MISMATCH | MBRTUM_ERROR_FUNCTION_MISMATCH | MBRTUM_ERROR_MALFORMED_RESPONSE
| MBRTUM_ERROR_ACKNOWLEDGEMENT_MISMATCH | MBRTUM_ERROR_RESPONSE_NOT_EXPECTED | MBRTUM_ERROR_INDEX
| MBRTUM_ERROR_REQUEST_DATA_REQUIRED

record mbrtum_request =
  rq_slave_address :: u8
  rq_function :: u8
  rq_start_address :: u16
  rq_quantity :: u16
  rq_value :: u16
  rq_expects_response :: u8
  rq_write_start_address :: u16
  rq_write_quantity :: u16

record mbrtum_file_record_request =
  fr_file_number :: u16
  fr_record_number :: u16
  fr_record_length :: u16

record mbrtum_write_file_record_request =
  wf_file_number :: u16
  wf_record_number :: u16
  wf_record_length :: u16
  wf_record_data :: "u16 list option"

type_synonym build_result = "mbrtum_error + mbrtum_request \<times> bytes"

section \<open>Checks\<close>

definition unicast_address_is_valid :: "u8 \<Rightarrow> bool" where
  "unicast_address_is_valid a \<longleftrightarrow> a \<ge> MODBUS_RTU_ADDRESS_MIN \<and> a \<le> MODBUS_RTU_ADDRESS_MAX"

definition write_address_is_valid :: "u8 \<Rightarrow> bool" where
  "write_address_is_valid a \<longleftrightarrow> a = 0 \<or> unicast_address_is_valid a"

definition address_range_is_valid :: "u16 \<Rightarrow> u16 \<Rightarrow> bool" where
  "address_range_is_valid start_address quantity \<longleftrightarrow>
     quantity > 0 \<and> (ucast start_address :: u32) + ucast quantity \<le> 65536"

definition file_record_range_is_valid :: "u16 \<Rightarrow> u16 \<Rightarrow> bool" where
  "file_record_range_is_valid record_number record_length \<longleftrightarrow>
     record_length > 0 \<and> record_number < 10000 \<and>
     (ucast record_number :: u32) + ucast record_length \<le> 10000"

definition device_id_code_is_valid :: "u16 \<Rightarrow> bool" where
  "device_id_code_is_valid code \<longleftrightarrow> 1 \<le> code \<and> code \<le> 4"

definition mei_type_is_generic :: "u16 \<Rightarrow> bool" where
  "mei_type_is_generic ty \<longleftrightarrow> ty \<le> 255 \<and> ty \<noteq> 0x0D \<and> ty \<noteq> 0x0E"

definition diagnostic_subfunction_is_state_changing :: "u16 \<Rightarrow> bool" where
  "diagnostic_subfunction_is_state_changing sub \<longleftrightarrow>
     sub = 0x0001 \<or> sub = 0x0004 \<or> sub = 0x000A \<or> sub = 0x0014"

definition diagnostic_subfunction_is_supported :: "u16 \<Rightarrow> bool" where
  "diagnostic_subfunction_is_supported sub \<longleftrightarrow>
     sub \<in> set [0x0000, 0x0001, 0x0002, 0x0004, 0x000A, 0x000B, 0x000C, 0x000D, 0x000E, 0x000F,
                0x0010, 0x0011, 0x0012, 0x0014]"

section \<open>Assembling a request\<close>

definition finish_request :: "u8 \<Rightarrow> u8 \<Rightarrow> u16 \<Rightarrow> u16 \<Rightarrow> u16 \<Rightarrow> mbrtum_request" where
  "finish_request slave_address function start_address quantity val =
     \<lparr>rq_slave_address = slave_address, rq_function = function, rq_start_address = start_address,
      rq_quantity = quantity, rq_value = val,
      rq_expects_response = (if slave_address = 0 then 0 else 1),
      rq_write_start_address = 0, rq_write_quantity = 0\<rparr>"

definition append_crc :: "bytes \<Rightarrow> bytes" where
  "append_crc adu = adu @ write_crc_le (mb_crc16 adu)"

definition build_fixed_request ::
  "u8 \<Rightarrow> u8 \<Rightarrow> u16 \<Rightarrow> u16 \<Rightarrow> u16 \<Rightarrow> u16 \<Rightarrow> nat option \<Rightarrow> build_result" where
  "build_fixed_request slave_address function first second request_quantity request_value cap =
     (case cap of None \<Rightarrow> Inl MBRTUM_ERROR_ARGUMENT
      | Some capacity \<Rightarrow>
          if capacity < MBRTUM_FIXED_REQUEST_ADU_SIZE then Inl MBRTUM_ERROR_CAPACITY
          else Inr (finish_request slave_address function first request_quantity request_value,
                    append_crc ([slave_address, function] @ write_be16 first @ write_be16 second)))"

definition mbrtum_build_read_bits_request :: "u8 \<Rightarrow> u8 \<Rightarrow> u16 \<Rightarrow> u16 \<Rightarrow> nat option \<Rightarrow> build_result" where
  "mbrtum_build_read_bits_request slave_address function start_address quantity cap =
     (if cap = None then Inl MBRTUM_ERROR_ARGUMENT
      else if \<not> unicast_address_is_valid slave_address then Inl MBRTUM_ERROR_SLAVE_ADDRESS
      else if function \<noteq> 0x01 \<and> function \<noteq> 0x02 then Inl MBRTUM_ERROR_FUNCTION
      else if quantity = 0 \<or> quantity > 2000 \<or> \<not> address_range_is_valid start_address quantity
      then Inl MBRTUM_ERROR_QUANTITY
      else build_fixed_request slave_address function start_address quantity quantity 0 cap)"

definition mbrtum_build_read_registers_request ::
  "u8 \<Rightarrow> u8 \<Rightarrow> u16 \<Rightarrow> u16 \<Rightarrow> nat option \<Rightarrow> build_result" where
  "mbrtum_build_read_registers_request slave_address function start_address quantity cap =
     (if cap = None then Inl MBRTUM_ERROR_ARGUMENT
      else if \<not> unicast_address_is_valid slave_address then Inl MBRTUM_ERROR_SLAVE_ADDRESS
      else if function \<noteq> 0x03 \<and> function \<noteq> 0x04 then Inl MBRTUM_ERROR_FUNCTION
      else if quantity = 0 \<or> quantity > 125 \<or> \<not> address_range_is_valid start_address quantity
      then Inl MBRTUM_ERROR_QUANTITY
      else build_fixed_request slave_address function start_address quantity quantity 0 cap)"

definition mbrtum_build_write_single_coil_request :: "u8 \<Rightarrow> u16 \<Rightarrow> u8 \<Rightarrow> nat option \<Rightarrow> build_result" where
  "mbrtum_build_write_single_coil_request slave_address address val cap =
     (if cap = None then Inl MBRTUM_ERROR_ARGUMENT
      else if \<not> write_address_is_valid slave_address then Inl MBRTUM_ERROR_SLAVE_ADDRESS
      else if val > 1 then Inl MBRTUM_ERROR_VALUE
      else
        let encoded_value = (if val = 0 then 0x0000 else 0xFF00) in
        build_fixed_request slave_address 0x05 address encoded_value 1 encoded_value cap)"

definition mbrtum_build_write_single_register_request ::
  "u8 \<Rightarrow> u16 \<Rightarrow> u16 \<Rightarrow> nat option \<Rightarrow> build_result" where
  "mbrtum_build_write_single_register_request slave_address address val cap =
     (if cap = None then Inl MBRTUM_ERROR_ARGUMENT
      else if \<not> write_address_is_valid slave_address then Inl MBRTUM_ERROR_SLAVE_ADDRESS
      else build_fixed_request slave_address 0x06 address val 1 val cap)"

definition mbrtum_build_mask_write_register_request ::
  "u8 \<Rightarrow> u16 \<Rightarrow> u16 \<Rightarrow> u16 \<Rightarrow> nat option \<Rightarrow> build_result" where
  "mbrtum_build_mask_write_register_request slave_address address and_mask or_mask cap =
     (case cap of None \<Rightarrow> Inl MBRTUM_ERROR_ARGUMENT
      | Some capacity \<Rightarrow>
          if \<not> write_address_is_valid slave_address then Inl MBRTUM_ERROR_SLAVE_ADDRESS
          else if capacity < MBRTUM_MASK_WRITE_ADU_SIZE then Inl MBRTUM_ERROR_CAPACITY
          else Inr (finish_request slave_address 0x16 address and_mask or_mask,
                    append_crc ([slave_address, 0x16] @ write_be16 address @ write_be16 and_mask @
                                write_be16 or_mask)))"

definition mbrtum_build_write_multiple_coils_request ::
  "u8 \<Rightarrow> u16 \<Rightarrow> u16 \<Rightarrow> bytes option \<Rightarrow> nat option \<Rightarrow> build_result" where
  "mbrtum_build_write_multiple_coils_request slave_address start_address quantity packed_values cap =
     (case (packed_values, cap) of
        (Some packed, Some capacity) \<Rightarrow>
          if \<not> write_address_is_valid slave_address then Inl MBRTUM_ERROR_SLAVE_ADDRESS
          else if quantity = 0 \<or> quantity > 1968 \<or> \<not> address_range_is_valid start_address quantity
          then Inl MBRTUM_ERROR_QUANTITY
          else
            let byte_count = (unat quantity + 7) div 8; length_without_crc = 7 + byte_count in
            if capacity < length_without_crc + MODBUS_RTU_CRC_SIZE then Inl MBRTUM_ERROR_CAPACITY
            else
              let payload = take byte_count packed;
                  remainder = unat quantity mod 8;
                  payload = (if remainder \<noteq> 0
                             then payload[byte_count - 1 := payload ! (byte_count - 1) AND
                                            (push_bit remainder 1 - 1)]
                             else payload) in
              Inr (finish_request slave_address 0x0F start_address quantity 0,
                   append_crc ([slave_address, 0x0F] @ write_be16 start_address @ write_be16 quantity @
                               [of_nat byte_count] @ payload))
      | _ \<Rightarrow> Inl MBRTUM_ERROR_ARGUMENT)"

definition mbrtum_build_write_multiple_registers_request ::
  "u8 \<Rightarrow> u16 \<Rightarrow> u16 \<Rightarrow> u16 list option \<Rightarrow> nat option \<Rightarrow> build_result" where
  "mbrtum_build_write_multiple_registers_request slave_address start_address quantity vals cap =
     (case (vals, cap) of
        (Some vs, Some capacity) \<Rightarrow>
          if \<not> write_address_is_valid slave_address then Inl MBRTUM_ERROR_SLAVE_ADDRESS
          else if quantity = 0 \<or> quantity > 123 \<or> \<not> address_range_is_valid start_address quantity
          then Inl MBRTUM_ERROR_QUANTITY
          else
            let byte_count = unat quantity * 2; length_without_crc = 7 + byte_count in
            if capacity < length_without_crc + MODBUS_RTU_CRC_SIZE then Inl MBRTUM_ERROR_CAPACITY
            else
              Inr (finish_request slave_address 0x10 start_address quantity 0,
                   append_crc ([slave_address, 0x10] @ write_be16 start_address @ write_be16 quantity @
                               [of_nat byte_count] @ concat (map write_be16 (take (unat quantity) vs))))
      | _ \<Rightarrow> Inl MBRTUM_ERROR_ARGUMENT)"

definition mbrtum_build_read_write_multiple_registers_request ::
  "u8 \<Rightarrow> u16 \<Rightarrow> u16 \<Rightarrow> u16 \<Rightarrow> u16 \<Rightarrow> u16 list option \<Rightarrow> nat option \<Rightarrow> build_result" where
  "mbrtum_build_read_write_multiple_registers_request slave_address read_start_address read_quantity
       write_start_address write_quantity write_values cap =
     (case (write_values, cap) of
        (Some vs, Some capacity) \<Rightarrow>
          if \<not> unicast_address_is_valid slave_address then Inl MBRTUM_ERROR_SLAVE_ADDRESS
          else if read_quantity = 0 \<or> read_quantity > 125 \<or>
                  \<not> address_range_is_valid read_start_address read_quantity \<or>
                  write_quantity = 0 \<or> write_quantity > 121 \<or>
                  \<not> address_range_is_valid write_start_address write_quantity
          then Inl MBRTUM_ERROR_QUANTITY
          else
            let byte_count = unat write_quantity * 2; length_without_crc = 11 + byte_count in
            if capacity < length_without_crc + MODBUS_RTU_CRC_SIZE then Inl MBRTUM_ERROR_CAPACITY
            else
              Inr ((finish_request slave_address 0x17 read_start_address read_quantity 0)
                     \<lparr>rq_write_start_address := write_start_address, rq_write_quantity := write_quantity\<rparr>,
                   append_crc ([slave_address, 0x17] @ write_be16 read_start_address @
                               write_be16 read_quantity @ write_be16 write_start_address @
                               write_be16 write_quantity @ [of_nat byte_count] @
                               concat (map write_be16 (take (unat write_quantity) vs))))
      | _ \<Rightarrow> Inl MBRTUM_ERROR_ARGUMENT)"

text \<open>
  The loops over the subrequests of FC20 and FC21: the length of the expected response data,
  or of the request data, with the checks in the order of the source.
\<close>

fun file_read_sizes :: "nat \<Rightarrow> mbrtum_file_record_request list \<Rightarrow> mbrtum_error + nat" where
  "file_read_sizes response_data_length [] = Inr response_data_length"
| "file_read_sizes response_data_length (q # qs) =
     (if fr_file_number q = 0 \<or> \<not> file_record_range_is_valid (fr_record_number q) (fr_record_length q)
      then Inl MBRTUM_ERROR_VALUE
      else
        let subresponse_length = 2 + unat (fr_record_length q) * 2 in
        if subresponse_length > MB_FILE_RECORD_RESPONSE_DATA_MAX - response_data_length
        then Inl MBRTUM_ERROR_QUANTITY
        else file_read_sizes (response_data_length + subresponse_length) qs)"

definition file_read_subrequest :: "mbrtum_file_record_request \<Rightarrow> bytes" where
  "file_read_subrequest q = [MB_FILE_RECORD_REFERENCE_TYPE] @ write_be16 (fr_file_number q) @
     write_be16 (fr_record_number q) @ write_be16 (fr_record_length q)"

definition mbrtum_build_read_file_record_request ::
  "u8 \<Rightarrow> mbrtum_file_record_request list option \<Rightarrow> nat option \<Rightarrow> build_result" where
  "mbrtum_build_read_file_record_request slave_address subrequests cap =
     (case (subrequests, cap) of
        (Some qs, Some capacity) \<Rightarrow>
          if \<not> unicast_address_is_valid slave_address then Inl MBRTUM_ERROR_SLAVE_ADDRESS
          else if length qs = 0 \<or> length qs > MB_FILE_RECORD_MAX_SUBREQUESTS then Inl MBRTUM_ERROR_QUANTITY
          else
            let request_data_length = length qs * 7 in
            if request_data_length > MB_FILE_RECORD_REQUEST_DATA_MAX then Inl MBRTUM_ERROR_QUANTITY
            else case file_read_sizes 0 qs of
                Inl e \<Rightarrow> Inl e
              | Inr response_data_length \<Rightarrow>
                  if capacity < 3 + request_data_length + MODBUS_RTU_CRC_SIZE then Inl MBRTUM_ERROR_CAPACITY
                  else Inr (finish_request slave_address 0x14 (of_nat request_data_length)
                              (of_nat response_data_length) (of_nat (length qs)),
                            append_crc ([slave_address, 0x14, of_nat request_data_length] @
                                        concat (map file_read_subrequest qs)))
      | _ \<Rightarrow> Inl MBRTUM_ERROR_ARGUMENT)"

fun file_write_sizes :: "nat \<Rightarrow> mbrtum_write_file_record_request list \<Rightarrow> mbrtum_error + nat" where
  "file_write_sizes request_data_length [] = Inr request_data_length"
| "file_write_sizes request_data_length (q # qs) =
     (if wf_file_number q = 0 \<or> wf_record_data q = None \<or>
         \<not> file_record_range_is_valid (wf_record_number q) (wf_record_length q)
      then Inl MBRTUM_ERROR_VALUE
      else
        let subrequest_length = 7 + unat (wf_record_length q) * 2 in
        if subrequest_length > MB_FILE_RECORD_WRITE_REQUEST_DATA_MAX - request_data_length
        then Inl MBRTUM_ERROR_QUANTITY
        else file_write_sizes (request_data_length + subrequest_length) qs)"

definition file_write_subrequest :: "mbrtum_write_file_record_request \<Rightarrow> bytes" where
  "file_write_subrequest q = [MB_FILE_RECORD_REFERENCE_TYPE] @ write_be16 (wf_file_number q) @
     write_be16 (wf_record_number q) @ write_be16 (wf_record_length q) @
     concat (map write_be16 (take (unat (wf_record_length q)) (the (wf_record_data q))))"

definition mbrtum_build_write_file_record_request ::
  "u8 \<Rightarrow> mbrtum_write_file_record_request list option \<Rightarrow> nat option \<Rightarrow> build_result" where
  "mbrtum_build_write_file_record_request slave_address subrequests cap =
     (case (subrequests, cap) of
        (Some qs, Some capacity) \<Rightarrow>
          if \<not> write_address_is_valid slave_address then Inl MBRTUM_ERROR_SLAVE_ADDRESS
          else if length qs = 0 \<or> length qs > MB_FILE_RECORD_WRITE_MAX_SUBREQUESTS
          then Inl MBRTUM_ERROR_QUANTITY
          else case file_write_sizes 0 qs of
              Inl e \<Rightarrow> Inl e
            | Inr request_data_length \<Rightarrow>
                if capacity < 3 + request_data_length + MODBUS_RTU_CRC_SIZE then Inl MBRTUM_ERROR_CAPACITY
                else Inr (finish_request slave_address 0x15 (of_nat request_data_length)
                            (of_nat (length qs)) 0,
                          append_crc ([slave_address, 0x15, of_nat request_data_length] @
                                      concat (map file_write_subrequest qs)))
      | _ \<Rightarrow> Inl MBRTUM_ERROR_ARGUMENT)"

definition mbrtum_build_read_fifo_queue_request :: "u8 \<Rightarrow> u16 \<Rightarrow> nat option \<Rightarrow> build_result" where
  "mbrtum_build_read_fifo_queue_request slave_address fifo_pointer_address cap =
     (case cap of None \<Rightarrow> Inl MBRTUM_ERROR_ARGUMENT
      | Some capacity \<Rightarrow>
          if \<not> unicast_address_is_valid slave_address then Inl MBRTUM_ERROR_SLAVE_ADDRESS
          else if capacity < MBRTUM_FIFO_REQUEST_ADU_SIZE then Inl MBRTUM_ERROR_CAPACITY
          else Inr (finish_request slave_address 0x18 fifo_pointer_address 0 0,
                    append_crc ([slave_address, 0x18] @ write_be16 fifo_pointer_address)))"

text \<open>
  The MEI builder compares addresses: \<open>adu_begin\<close> and \<open>data_begin\<close> are those of the output
  frame and of the payload.
\<close>

definition mbrtum_build_mei_request ::
  "u8 \<Rightarrow> u8 \<Rightarrow> bytes option \<Rightarrow> nat \<Rightarrow> nat option \<Rightarrow> nat \<Rightarrow> nat \<Rightarrow> build_result" where
  "mbrtum_build_mei_request slave_address ty mei_data mei_data_length cap adu_begin data_begin =
     (case cap of None \<Rightarrow> Inl MBRTUM_ERROR_ARGUMENT
      | Some capacity \<Rightarrow>
          if \<not> unicast_address_is_valid slave_address then Inl MBRTUM_ERROR_SLAVE_ADDRESS
          else if \<not> mei_type_is_generic (ucast ty) then Inl MBRTUM_ERROR_FUNCTION
          else if mei_data_length > MB_MEI_MAX_DATA_LENGTH \<or> (mei_data_length \<noteq> 0 \<and> mei_data = None)
          then Inl MBRTUM_ERROR_VALUE
          else
            let length_without_crc = 3 + mei_data_length in
            if capacity < length_without_crc + MODBUS_RTU_CRC_SIZE then Inl MBRTUM_ERROR_CAPACITY
            else if mei_data_length \<noteq> 0 \<and>
                    data_begin < adu_begin + length_without_crc + MODBUS_RTU_CRC_SIZE \<and>
                    data_begin + mei_data_length > adu_begin
            then Inl MBRTUM_ERROR_ARGUMENT
            else Inr (finish_request slave_address 0x2B (of_nat mei_data_length) 0 (ucast ty),
                      append_crc ([slave_address, 0x2B, ty] @
                        (if mei_data_length \<noteq> 0 then take mei_data_length (the mei_data) else []))))"

definition mbrtum_build_read_device_identification_request ::
  "u8 \<Rightarrow> u8 \<Rightarrow> u8 \<Rightarrow> nat option \<Rightarrow> build_result" where
  "mbrtum_build_read_device_identification_request slave_address code obj cap =
     (case cap of None \<Rightarrow> Inl MBRTUM_ERROR_ARGUMENT
      | Some capacity \<Rightarrow>
          if \<not> unicast_address_is_valid slave_address then Inl MBRTUM_ERROR_SLAVE_ADDRESS
          else if \<not> device_id_code_is_valid (ucast code) then Inl MBRTUM_ERROR_VALUE
          else if capacity < 7 then Inl MBRTUM_ERROR_CAPACITY
          else Inr (finish_request slave_address 0x2B (ucast code) (ucast obj) 0x0E,
                    append_crc [slave_address, 0x2B, 0x0E, code, obj]))"

definition build_function_only_request :: "u8 \<Rightarrow> u8 \<Rightarrow> nat option \<Rightarrow> build_result" where
  "build_function_only_request slave_address function cap =
     (case cap of None \<Rightarrow> Inl MBRTUM_ERROR_ARGUMENT
      | Some capacity \<Rightarrow>
          if \<not> unicast_address_is_valid slave_address then Inl MBRTUM_ERROR_SLAVE_ADDRESS
          else if capacity < MODBUS_RTU_ADU_MIN_SIZE then Inl MBRTUM_ERROR_CAPACITY
          else Inr (finish_request slave_address function 0 0 0, append_crc [slave_address, function]))"

definition mbrtum_build_read_exception_status_request :: "u8 \<Rightarrow> nat option \<Rightarrow> build_result" where
  "mbrtum_build_read_exception_status_request slave_address cap =
     build_function_only_request slave_address 0x07 cap"

definition mbrtum_build_get_comm_event_counter_request :: "u8 \<Rightarrow> nat option \<Rightarrow> build_result" where
  "mbrtum_build_get_comm_event_counter_request slave_address cap =
     build_function_only_request slave_address 0x0B cap"

definition mbrtum_build_get_comm_event_log_request :: "u8 \<Rightarrow> nat option \<Rightarrow> build_result" where
  "mbrtum_build_get_comm_event_log_request slave_address cap =
     build_function_only_request slave_address 0x0C cap"

definition mbrtum_build_report_server_id_request :: "u8 \<Rightarrow> u16 \<Rightarrow> nat option \<Rightarrow> build_result" where
  "mbrtum_build_report_server_id_request slave_address expected_server_id_length cap =
     (if expected_server_id_length = 0 \<or> unat expected_server_id_length > MBRTU_SERVER_ID_MAX_SERVER_ID_LENGTH
      then Inl MBRTUM_ERROR_QUANTITY
      else case build_function_only_request slave_address 0x11 cap of
          Inl e \<Rightarrow> Inl e
        | Inr (request, adu) \<Rightarrow> Inr (request\<lparr>rq_quantity := expected_server_id_length\<rparr>, adu))"

definition mbrtum_build_diagnostics_request ::
  "u8 \<Rightarrow> u16 \<Rightarrow> bytes option \<Rightarrow> nat \<Rightarrow> nat option \<Rightarrow> build_result" where
  "mbrtum_build_diagnostics_request slave_address subfunction diagnostic_data diagnostic_data_length cap =
     (case cap of None \<Rightarrow> Inl MBRTUM_ERROR_ARGUMENT
      | Some capacity \<Rightarrow>
          if \<not> diagnostic_subfunction_is_supported subfunction then Inl MBRTUM_ERROR_FUNCTION
          else if diagnostic_data_length > 250 \<or> diagnostic_data_length mod 2 \<noteq> 0 \<or>
                  (diagnostic_data_length \<noteq> 0 \<and> diagnostic_data = None)
          then Inl MBRTUM_ERROR_VALUE
          else if slave_address = 0 \<and> \<not> diagnostic_subfunction_is_state_changing subfunction
          then Inl MBRTUM_ERROR_SLAVE_ADDRESS
          else if slave_address \<noteq> 0 \<and> \<not> unicast_address_is_valid slave_address
          then Inl MBRTUM_ERROR_SLAVE_ADDRESS
          else if subfunction \<noteq> 0x0000 \<and>
                  (diagnostic_data_length \<noteq> 2 \<or>
                   (let data_word = read_be16 (the diagnostic_data) 0 in
                    if subfunction = 0x0001 then data_word \<noteq> 0x0000 \<and> data_word \<noteq> 0xFF00
                    else data_word \<noteq> 0))
          then Inl MBRTUM_ERROR_VALUE
          else if capacity < 4 + diagnostic_data_length + MODBUS_RTU_CRC_SIZE
          then Inl MBRTUM_ERROR_CAPACITY
          else
            Inr ((finish_request slave_address 0x08 subfunction (of_nat diagnostic_data_length) 0)
                   \<lparr>rq_expects_response := (if slave_address \<noteq> 0 \<and> subfunction \<noteq> 0x0004 then 1 else 0)\<rparr>,
                 append_crc ([slave_address, 0x08] @ write_be16 subfunction @
                   (if diagnostic_data_length \<noteq> 0 then take diagnostic_data_length (the diagnostic_data)
                    else []))))"

section \<open>The check of a descriptor\<close>

text \<open>\<open>None\<close> is \<open>MBRTUM_OK\<close>.\<close>

definition validate_request_function :: "mbrtum_request \<Rightarrow> mbrtum_error option" where
  "validate_request_function r =
     (let f = rq_function r; start = rq_start_address r; q = rq_quantity r; v = rq_value r;
          no_write = (rq_write_start_address r = 0 \<and> rq_write_quantity r = 0) in
      if f = 0x01 \<or> f = 0x02 then
        if q = 0 \<or> q > 2000 \<or> \<not> address_range_is_valid start q then Some MBRTUM_ERROR_QUANTITY else None
      else if f = 0x03 \<or> f = 0x04 then
        if q = 0 \<or> q > 125 \<or> \<not> address_range_is_valid start q then Some MBRTUM_ERROR_QUANTITY else None
      else if f = 0x05 then
        if q \<noteq> 1 \<or> (v \<noteq> 0x0000 \<and> v \<noteq> 0xFF00) then Some MBRTUM_ERROR_VALUE else None
      else if f = 0x06 then
        if q \<noteq> 1 then Some MBRTUM_ERROR_QUANTITY else None
      else if f = 0x0F then
        if q = 0 \<or> q > 1968 \<or> \<not> address_range_is_valid start q then Some MBRTUM_ERROR_QUANTITY else None
      else if f = 0x10 then
        if q = 0 \<or> q > 123 \<or> \<not> address_range_is_valid start q then Some MBRTUM_ERROR_QUANTITY else None
      else if f = 0x16 then
        if \<not> no_write then Some MBRTUM_ERROR_VALUE else None
      else if f = 0x14 then
        if start < 7 \<or> start > 245 \<or> start mod 7 \<noteq> 0 \<or> q < 4 \<or> q > 245 \<or> q mod 2 \<noteq> 0 \<or>
           v = 0 \<or> v > 35 \<or> v \<noteq> start div 7 \<or> \<not> no_write
        then Some MBRTUM_ERROR_VALUE else None
      else if f = 0x15 then
        if start < 9 \<or> start > 251 \<or> q = 0 \<or> q > 27 \<or> v \<noteq> 0 \<or> \<not> no_write
        then Some MBRTUM_ERROR_VALUE else None
      else if f = 0x17 then
        if q = 0 \<or> q > 125 \<or> \<not> address_range_is_valid start q \<or>
           rq_write_quantity r = 0 \<or> rq_write_quantity r > 121 \<or>
           \<not> address_range_is_valid (rq_write_start_address r) (rq_write_quantity r) \<or> v \<noteq> 0
        then Some MBRTUM_ERROR_QUANTITY else None
      else if f = 0x07 \<or> f = 0x0B \<or> f = 0x0C then
        if start \<noteq> 0 \<or> q \<noteq> 0 \<or> v \<noteq> 0 then Some MBRTUM_ERROR_VALUE else None
      else if f = 0x11 then
        if start \<noteq> 0 \<or> q = 0 \<or> unat q > MBRTU_SERVER_ID_MAX_SERVER_ID_LENGTH \<or> v \<noteq> 0 \<or> \<not> no_write
        then Some MBRTUM_ERROR_VALUE else None
      else if f = 0x18 then
        if q \<noteq> 0 \<or> v \<noteq> 0 \<or> \<not> no_write then Some MBRTUM_ERROR_VALUE else None
      else if f = 0x2B then
        if v = 0x0E then
          if \<not> device_id_code_is_valid start \<or> q > 255 \<or> \<not> no_write
          then Some MBRTUM_ERROR_VALUE else None
        else if \<not> mei_type_is_generic v \<or> start > 251 \<or> q \<noteq> 0 \<or> \<not> no_write
        then Some MBRTUM_ERROR_VALUE else None
      else if f = 0x08 then
        if \<not> diagnostic_subfunction_is_supported start \<or> q > 250 \<or> q mod 2 \<noteq> 0 \<or> v \<noteq> 0
        then Some MBRTUM_ERROR_VALUE
        else if start = 0x0000 then None
        else if q \<noteq> 2 then Some MBRTUM_ERROR_VALUE else None
      else Some MBRTUM_ERROR_FUNCTION)"

definition validate_request_descriptor :: "mbrtum_request \<Rightarrow> mbrtum_error option" where
  "validate_request_descriptor r =
     (if rq_expects_response r = 0 then Some MBRTUM_ERROR_RESPONSE_NOT_EXPECTED
      else if rq_expects_response r \<noteq> 1 then Some MBRTUM_ERROR_ARGUMENT
      else if \<not> unicast_address_is_valid (rq_slave_address r) then Some MBRTUM_ERROR_SLAVE_ADDRESS
      else validate_request_function r)"

end
