(* ===== verification/Master_Response.thy ===== *)
theory Master_Response
  imports Master_Request
begin

text \<open>
  The response side of the RTU master, modbus_rtu_master.c: validation of a response frame
  against the request it answers. A response view holds the bytes it points to; \<open>None\<close> is a
  NULL data pointer. Every error leaves the zero view, so that the result carries a view only
  for \<open>MBRTUM_OK\<close> and \<open>MBRTUM_EXCEPTION_RESPONSE\<close>.
\<close>

record mbrtum_response =
  rs_function :: u8
  rs_exception_code :: u8
  rs_data :: "bytes option"

datatype response_result =
  MBRTUM_OK mbrtum_response | MBRTUM_EXCEPTION_RESPONSE mbrtum_response | MBRTUM_ERROR mbrtum_error

definition device_id_conformity_is_valid :: "u8 \<Rightarrow> bool" where
  "device_id_conformity_is_valid c \<longleftrightarrow>
     c = 0x01 \<or> c = 0x02 \<or> c = 0x03 \<or> c = 0x81 \<or> c = 0x82 \<or> c = 0x83"

definition device_id_conformity_category :: "u8 \<Rightarrow> u8" where
  "device_id_conformity_category c = c AND 0x7F"

definition device_id_object_matches_category :: "u8 \<Rightarrow> u8 \<Rightarrow> bool" where
  "device_id_object_matches_category obj category =
     (if category = MB_DEVICE_ID_READ_BASIC then obj \<le> 0x02
      else if category = MB_DEVICE_ID_READ_REGULAR then obj \<le> 0x06
      else category = MB_DEVICE_ID_READ_EXTENDED \<and> (obj \<le> 0x06 \<or> obj \<ge> 0x80))"

definition packed_bit_padding_is_zero :: "bytes \<Rightarrow> u16 \<Rightarrow> bool" where
  "packed_bit_padding_is_zero data quantity =
     (let remainder = unat quantity mod 8 in
      if remainder = 0 then True
      else if data = [] then False
      else
        let valid_mask = push_bit remainder 1 - 1; padding_mask = NOT valid_mask in
        data ! (length data - 1) AND padding_mask = 0)"

section \<open>The original request\<close>

text \<open>
  The subrequests of an FC21 request: \<open>rest\<close> is what is left of the request data and the
  result is the number of subrequests.
\<close>

function write_subrequest_count :: "nat \<Rightarrow> bytes \<Rightarrow> nat option" where
  "write_subrequest_count n rest =
     (if rest = [] then Some n
      else if length rest < 7 \<or> rest ! 0 \<noteq> MB_FILE_RECORD_REFERENCE_TYPE then None
      else
        let file_number = read_be16 rest 1; record_number = read_be16 rest 3;
            record_length = read_be16 rest 5 in
        if file_number = 0 \<or> \<not> file_record_range_is_valid record_number record_length then None
        else
          let subrequest_length = 7 + unat record_length * 2 in
          if subrequest_length > length rest then None
          else write_subrequest_count (n + 1) (drop subrequest_length rest))"
  by pat_completeness auto
termination write_subrequest_count
  by (relation "measure (\<lambda>(n, rest). length rest)") auto

text \<open>
  The subrequests of an FC20 request: the length of the response data they ask for, and
  their number. The caller has checked that the request data is a multiple of seven bytes.
\<close>

function read_subrequest_sizes :: "nat \<Rightarrow> nat \<Rightarrow> bytes \<Rightarrow> (nat \<times> nat) option" where
  "read_subrequest_sizes response_data_length n rest =
     (if rest = [] then Some (response_data_length, n)
      else if rest ! 0 \<noteq> MB_FILE_RECORD_REFERENCE_TYPE then None
      else
        let file_number = read_be16 rest 1; record_number = read_be16 rest 3;
            record_length = read_be16 rest 5 in
        if file_number = 0 \<or> \<not> file_record_range_is_valid record_number record_length then None
        else
          let subresponse_length = 2 + unat record_length * 2 in
          if subresponse_length > MB_FILE_RECORD_RESPONSE_DATA_MAX - response_data_length then None
          else read_subrequest_sizes (response_data_length + subresponse_length) (n + 1) (drop 7 rest))"
  by pat_completeness auto
termination read_subrequest_sizes
  by (relation "measure (\<lambda>(l, n, rest). length rest)") auto

declare write_subrequest_count.simps [simp del] read_subrequest_sizes.simps [simp del]

definition request_data :: "bytes \<Rightarrow> bytes" where
  "request_data adu = take (length adu - 5) (drop 3 adu)"

definition original_request_adu_is_valid :: "mbrtum_request \<Rightarrow> bytes option \<Rightarrow> bool" where
  "original_request_adu_is_valid r request_adu =
     (case request_adu of None \<Rightarrow> False
      | Some adu \<Rightarrow>
          if length adu < MODBUS_RTU_ADU_MIN_SIZE \<or> length adu > MODBUS_RTU_ADU_MAX_SIZE \<or>
             mb_crc16 adu \<noteq> 0 \<or> adu ! 0 \<noteq> rq_slave_address r \<or> adu ! 1 \<noteq> rq_function r
          then False
          else if rq_function r = 0x15 then
            if length adu \<noteq> 5 + unat (rq_start_address r) \<or> adu ! 2 \<noteq> ucast (rq_start_address r)
            then False
            else write_subrequest_count 0 (request_data adu) = Some (unat (rq_quantity r))
          else if rq_function r = 0x14 then
            if length adu \<noteq> 5 + unat (rq_start_address r) \<or> adu ! 2 \<noteq> ucast (rq_start_address r)
            then False
            else (case read_subrequest_sizes 0 0 (request_data adu) of
                None \<Rightarrow> False | Some (l, _) \<Rightarrow> l = unat (rq_quantity r))
          else if rq_function r = 0x2B then
            if rq_value r = 0x0E
            then length adu = 7 \<and> adu ! 2 = 0x0E \<and> adu ! 3 = ucast (rq_start_address r) \<and>
                 adu ! 4 = ucast (rq_quantity r)
            else length adu = 5 + unat (rq_start_address r) \<and> adu ! 2 = ucast (rq_value r)
          else if rq_function r = 0x08 then
            if length adu \<noteq> 6 + unat (rq_quantity r) \<or> read_be16 adu 2 \<noteq> rq_start_address r then False
            else if rq_start_address r = 0x0000 then True
            else if rq_start_address r = 0x0001
            then read_be16 adu 4 = 0x0000 \<or> read_be16 adu 4 = 0xFF00
            else read_be16 adu 4 = 0
          else True)"

section \<open>Normal responses, one definition per group of function codes\<close>

definition ok_response :: "mbrtum_request \<Rightarrow> bytes option \<Rightarrow> response_result" where
  "ok_response r data = MBRTUM_OK \<lparr>rs_function = rq_function r, rs_exception_code = 0, rs_data = data\<rparr>"

definition adu_slice :: "nat \<Rightarrow> nat \<Rightarrow> bytes \<Rightarrow> bytes" where
  "adu_slice off len adu = take len (drop off adu)"

definition check_read_bits :: "mbrtum_request \<Rightarrow> bytes \<Rightarrow> response_result" where
  "check_read_bits r adu =
     (let expected_byte_count = (unat (rq_quantity r) + 7) div 8 in
      if length adu \<noteq> 5 + expected_byte_count then MBRTUM_ERROR MBRTUM_ERROR_RESPONSE_LENGTH
      else if unat (adu ! 2) \<noteq> expected_byte_count then MBRTUM_ERROR MBRTUM_ERROR_MALFORMED_RESPONSE
      else if \<not> packed_bit_padding_is_zero (adu_slice 3 expected_byte_count adu) (rq_quantity r)
      then MBRTUM_ERROR MBRTUM_ERROR_MALFORMED_RESPONSE
      else ok_response r (Some (adu_slice 3 expected_byte_count adu)))"

definition check_read_registers :: "mbrtum_request \<Rightarrow> bytes \<Rightarrow> response_result" where
  "check_read_registers r adu =
     (let expected_byte_count = unat (rq_quantity r) * 2 in
      if length adu \<noteq> 5 + expected_byte_count then MBRTUM_ERROR MBRTUM_ERROR_RESPONSE_LENGTH
      else if unat (adu ! 2) \<noteq> expected_byte_count then MBRTUM_ERROR MBRTUM_ERROR_MALFORMED_RESPONSE
      else ok_response r (Some (adu_slice 3 expected_byte_count adu)))"

text \<open>
  FC20: the subresponses are compared with the subrequests; \<open>ro\<close> and \<open>po\<close> are the offsets
  into the request and into the response.
\<close>

primrec scan_file_subresponses :: "nat \<Rightarrow> bytes \<Rightarrow> nat \<Rightarrow> bytes \<Rightarrow> nat \<Rightarrow> mbrtum_error option" where
  "scan_file_subresponses 0 req ro rsp po =
     (if ro \<noteq> length req - 2 \<or> po \<noteq> length rsp - 2 then Some MBRTUM_ERROR_RESPONSE_LENGTH else None)"
| "scan_file_subresponses (Suc n) req ro rsp po =
     (if ro + 7 > length req - 2 \<or> po + 2 > length rsp - 2 then Some MBRTUM_ERROR_RESPONSE_LENGTH
      else
        let record_length = read_be16 req (ro + 5);
            expected_file_response_length = 1 + unat record_length * 2;
            subresponse_total_length = 1 + expected_file_response_length in
        if unat (rsp ! po) \<noteq> expected_file_response_length \<or>
           rsp ! (po + 1) \<noteq> MB_FILE_RECORD_REFERENCE_TYPE
        then Some MBRTUM_ERROR_MALFORMED_RESPONSE
        else if po + subresponse_total_length > length rsp - 2 then Some MBRTUM_ERROR_RESPONSE_LENGTH
        else scan_file_subresponses n req (ro + 7) rsp (po + subresponse_total_length))"

definition check_read_file_record :: "mbrtum_request \<Rightarrow> bytes \<Rightarrow> bytes \<Rightarrow> response_result" where
  "check_read_file_record r req adu =
     (if length adu \<noteq> 5 + unat (rq_quantity r) then MBRTUM_ERROR MBRTUM_ERROR_RESPONSE_LENGTH
      else if adu ! 2 \<noteq> ucast (rq_quantity r) then MBRTUM_ERROR MBRTUM_ERROR_MALFORMED_RESPONSE
      else case scan_file_subresponses (unat (rq_value r)) req 3 adu 3 of
          Some e \<Rightarrow> MBRTUM_ERROR e
        | None \<Rightarrow> ok_response r (Some (adu_slice 3 (unat (rq_quantity r)) adu)))"

definition check_write_file_record :: "mbrtum_request \<Rightarrow> bytes \<Rightarrow> bytes \<Rightarrow> response_result" where
  "check_write_file_record r req adu =
     (if length adu \<noteq> length req then MBRTUM_ERROR MBRTUM_ERROR_RESPONSE_LENGTH
      else if adu \<noteq> req then MBRTUM_ERROR MBRTUM_ERROR_ACKNOWLEDGEMENT_MISMATCH
      else ok_response r None)"

definition check_write_ack :: "mbrtum_request \<Rightarrow> u16 \<Rightarrow> bytes \<Rightarrow> response_result" where
  "check_write_ack r echoed adu =
     (if length adu \<noteq> 8 then MBRTUM_ERROR MBRTUM_ERROR_RESPONSE_LENGTH
      else if read_be16 adu 2 \<noteq> rq_start_address r \<or> read_be16 adu 4 \<noteq> echoed
      then MBRTUM_ERROR MBRTUM_ERROR_ACKNOWLEDGEMENT_MISMATCH
      else ok_response r None)"

definition check_mask_write :: "mbrtum_request \<Rightarrow> bytes \<Rightarrow> response_result" where
  "check_mask_write r adu =
     (if length adu \<noteq> MBRTUM_MASK_WRITE_ADU_SIZE then MBRTUM_ERROR MBRTUM_ERROR_RESPONSE_LENGTH
      else if read_be16 adu 2 \<noteq> rq_start_address r \<or> read_be16 adu 4 \<noteq> rq_quantity r \<or>
              read_be16 adu 6 \<noteq> rq_value r
      then MBRTUM_ERROR MBRTUM_ERROR_ACKNOWLEDGEMENT_MISMATCH
      else ok_response r None)"

definition diagnostic_subfunction_returns_counter :: "u16 \<Rightarrow> bool" where
  "diagnostic_subfunction_returns_counter sub \<longleftrightarrow>
     sub \<in> set [0x0002, 0x000B, 0x000C, 0x000D, 0x000E, 0x000F, 0x0010, 0x0011, 0x0012]"

definition check_diagnostics :: "mbrtum_request \<Rightarrow> bytes \<Rightarrow> bytes \<Rightarrow> response_result" where
  "check_diagnostics r req adu =
     (if length adu < 6 \<or> (length adu - 6) mod 2 \<noteq> 0 then MBRTUM_ERROR MBRTUM_ERROR_RESPONSE_LENGTH
      else if read_be16 adu 2 \<noteq> rq_start_address r
      then MBRTUM_ERROR MBRTUM_ERROR_ACKNOWLEDGEMENT_MISMATCH
      else if rq_start_address r = 0x0000 \<and> (length adu \<noteq> length req \<or> adu \<noteq> req)
      then MBRTUM_ERROR MBRTUM_ERROR_ACKNOWLEDGEMENT_MISMATCH
      else if rq_start_address r \<noteq> 0x0000 \<and> length adu \<noteq> 8
      then MBRTUM_ERROR MBRTUM_ERROR_RESPONSE_LENGTH
      else if rq_start_address r \<noteq> 0x0000 \<and>
              \<not> diagnostic_subfunction_returns_counter (rq_start_address r) \<and>
              adu_slice 4 2 adu \<noteq> adu_slice 4 2 req
      then MBRTUM_ERROR MBRTUM_ERROR_ACKNOWLEDGEMENT_MISMATCH
      else ok_response r (Some (adu_slice 2 (length adu - 4) adu)))"

definition check_event_log :: "mbrtum_request \<Rightarrow> bytes \<Rightarrow> response_result" where
  "check_event_log r adu =
     (if length adu < 11 then MBRTUM_ERROR MBRTUM_ERROR_RESPONSE_LENGTH
      else
        let byte_count = unat (adu ! 2) in
        if byte_count < 6 \<or> byte_count > 70 then MBRTUM_ERROR MBRTUM_ERROR_MALFORMED_RESPONSE
        else if length adu \<noteq> 5 + byte_count then MBRTUM_ERROR MBRTUM_ERROR_RESPONSE_LENGTH
        else ok_response r (Some (adu_slice 3 byte_count adu)))"

definition check_server_id :: "mbrtum_request \<Rightarrow> bytes \<Rightarrow> response_result" where
  "check_server_id r adu =
     (if length adu < 6 + unat (rq_quantity r) then MBRTUM_ERROR MBRTUM_ERROR_RESPONSE_LENGTH
      else
        let byte_count = unat (adu ! 2) in
        if byte_count < unat (rq_quantity r) + 1 \<or> byte_count > MBRTU_SERVER_ID_MAX_BYTE_COUNT
        then MBRTUM_ERROR MBRTUM_ERROR_MALFORMED_RESPONSE
        else if length adu \<noteq> 5 + byte_count then MBRTUM_ERROR MBRTUM_ERROR_RESPONSE_LENGTH
        else
          let run_status = adu ! (3 + unat (rq_quantity r)) in
          if run_status \<noteq> 0x00 \<and> run_status \<noteq> 0xFF then MBRTUM_ERROR MBRTUM_ERROR_MALFORMED_RESPONSE
          else ok_response r (Some (adu_slice 3 byte_count adu)))"

definition check_fifo :: "mbrtum_request \<Rightarrow> bytes \<Rightarrow> response_result" where
  "check_fifo r adu =
     (if length adu < 8 then MBRTUM_ERROR MBRTUM_ERROR_RESPONSE_LENGTH
      else
        let byte_count = unat (read_be16 adu 2); fifo_count = unat (read_be16 adu 4) in
        if fifo_count > MB_FIFO_MAX_VALUES then MBRTUM_ERROR MBRTUM_ERROR_MALFORMED_RESPONSE
        else if byte_count \<noteq> 2 + fifo_count * 2 \<or> byte_count > 64
        then MBRTUM_ERROR MBRTUM_ERROR_MALFORMED_RESPONSE
        else if length adu \<noteq> 6 + byte_count then MBRTUM_ERROR MBRTUM_ERROR_RESPONSE_LENGTH
        else ok_response r (Some (adu_slice 4 byte_count adu)))"

definition check_mei_generic :: "mbrtum_request \<Rightarrow> bytes \<Rightarrow> response_result" where
  "check_mei_generic r adu =
     (if length adu < 5 then MBRTUM_ERROR MBRTUM_ERROR_RESPONSE_LENGTH
      else if adu ! 2 \<noteq> ucast (rq_value r) then MBRTUM_ERROR MBRTUM_ERROR_ACKNOWLEDGEMENT_MISMATCH
      else if length adu > MODBUS_RTU_ADU_MAX_SIZE then MBRTUM_ERROR MBRTUM_ERROR_RESPONSE_LENGTH
      else ok_response r (Some (adu_slice 2 (length adu - 4) adu)))"

text \<open>
  The objects of an FC43/14 response: \<open>n\<close> objects are left, \<open>first\<close> says that none was read
  yet, \<open>off\<close> is the offset and \<open>prev\<close> the identifier before. The result is the offset behind
  the last object and its identifier.
\<close>

primrec scan_device_objects ::
  "nat \<Rightarrow> bool \<Rightarrow> mbrtum_request \<Rightarrow> u8 \<Rightarrow> u8 \<Rightarrow> bytes \<Rightarrow> nat \<Rightarrow> u8 \<Rightarrow> mbrtum_error + nat \<times> u8" where
  "scan_device_objects 0 first r read_code category adu off prev = Inr (off, prev)"
| "scan_device_objects (Suc n) first r read_code category adu off prev =
     (if off + 2 > length adu - 2 then Inl MBRTUM_ERROR_RESPONSE_LENGTH
      else
        let obj = adu ! off; len = unat (adu ! (off + 1)); off = off + 2 in
        if off + len > length adu - 2 then Inl MBRTUM_ERROR_RESPONSE_LENGTH
        else if \<not> first \<and> obj \<le> prev then Inl MBRTUM_ERROR_MALFORMED_RESPONSE
        else if \<not> device_id_object_matches_category obj category then Inl MBRTUM_ERROR_MALFORMED_RESPONSE
        else if read_code = MB_DEVICE_ID_READ_SPECIFIC \<and> obj \<noteq> ucast (rq_quantity r)
        then Inl MBRTUM_ERROR_ACKNOWLEDGEMENT_MISMATCH
        else if read_code \<noteq> MB_DEVICE_ID_READ_SPECIFIC \<and> first \<and> obj \<noteq> 0 \<and> obj \<noteq> ucast (rq_quantity r)
        then Inl MBRTUM_ERROR_ACKNOWLEDGEMENT_MISMATCH
        else scan_device_objects n False r read_code category adu (off + len) obj)"

definition check_device_id :: "mbrtum_request \<Rightarrow> bytes \<Rightarrow> response_result" where
  "check_device_id r adu =
     (if length adu < 12 then MBRTUM_ERROR MBRTUM_ERROR_RESPONSE_LENGTH
      else if adu ! 2 \<noteq> 0x0E then MBRTUM_ERROR MBRTUM_ERROR_MALFORMED_RESPONSE
      else
        let read_code = adu ! 3; conformity = adu ! 4; more_follows = adu ! 5;
            next_object = adu ! 6; object_count = adu ! 7 in
        if read_code \<noteq> ucast (rq_start_address r) \<or> \<not> device_id_conformity_is_valid conformity \<or>
           (more_follows \<noteq> 0 \<and> more_follows \<noteq> 0xFF) \<or> object_count = 0
        then MBRTUM_ERROR MBRTUM_ERROR_MALFORMED_RESPONSE
        else if (more_follows = 0 \<and> next_object \<noteq> 0) \<or> (more_follows = 0xFF \<and> next_object = 0)
        then MBRTUM_ERROR MBRTUM_ERROR_MALFORMED_RESPONSE
        else
          let category = device_id_conformity_category conformity;
              category = (if read_code \<noteq> MB_DEVICE_ID_READ_SPECIFIC \<and> read_code < category
                          then read_code else category) in
          if read_code = MB_DEVICE_ID_READ_SPECIFIC \<and>
             (conformity AND 0x80 = 0 \<or> more_follows \<noteq> 0 \<or> next_object \<noteq> 0 \<or> object_count \<noteq> 1)
          then MBRTUM_ERROR MBRTUM_ERROR_MALFORMED_RESPONSE
          else case scan_device_objects (unat object_count) True r read_code category adu 8 0 of
              Inl e \<Rightarrow> MBRTUM_ERROR e
            | Inr (off, prev) \<Rightarrow>
                if off \<noteq> length adu - 2 then MBRTUM_ERROR MBRTUM_ERROR_RESPONSE_LENGTH
                else if more_follows = 0xFF \<and>
                        (next_object \<le> prev \<or> \<not> device_id_object_matches_category next_object category)
                then MBRTUM_ERROR MBRTUM_ERROR_MALFORMED_RESPONSE
                else ok_response r (Some (adu_slice 2 (length adu - 4) adu)))"

section \<open>Validation of a response\<close>

definition check_normal_response :: "mbrtum_request \<Rightarrow> bytes \<Rightarrow> bytes \<Rightarrow> response_result" where
  "check_normal_response r req adu =
     (let f = rq_function r in
      if f = 0x01 \<or> f = 0x02 then check_read_bits r adu
      else if f = 0x14 then check_read_file_record r req adu
      else if f = 0x15 then check_write_file_record r req adu
      else if f = 0x03 \<or> f = 0x04 \<or> f = 0x17 then check_read_registers r adu
      else if f = 0x05 \<or> f = 0x06 then check_write_ack r (rq_value r) adu
      else if f = 0x0F \<or> f = 0x10 then check_write_ack r (rq_quantity r) adu
      else if f = 0x16 then check_mask_write r adu
      else if f = 0x07 then
        if length adu \<noteq> 5 then MBRTUM_ERROR MBRTUM_ERROR_RESPONSE_LENGTH
        else ok_response r (Some (adu_slice 2 1 adu))
      else if f = 0x08 then check_diagnostics r req adu
      else if f = 0x0B then
        if length adu \<noteq> 8 then MBRTUM_ERROR MBRTUM_ERROR_RESPONSE_LENGTH
        else ok_response r (Some (adu_slice 2 4 adu))
      else if f = 0x0C then check_event_log r adu
      else if f = 0x11 then check_server_id r adu
      else if f = 0x18 then check_fifo r adu
      else if f = 0x2B then
        if rq_value r \<noteq> 0x0E then check_mei_generic r adu else check_device_id r adu
      else MBRTUM_ERROR MBRTUM_ERROR_FUNCTION)"

definition mbrtum_process_response_with_request_adu ::
  "mbrtum_request option \<Rightarrow> bytes option \<Rightarrow> bytes option \<Rightarrow> response_result" where
  "mbrtum_process_response_with_request_adu request request_adu response_adu =
     (case (request, response_adu) of
        (Some r, Some adu) \<Rightarrow>
          (case validate_request_descriptor r of Some e \<Rightarrow> MBRTUM_ERROR e
           | None \<Rightarrow>
               if (rq_function r = 0x08 \<or> rq_function r = 0x14 \<or> rq_function r = 0x15) \<and>
                  \<not> original_request_adu_is_valid r request_adu
               then MBRTUM_ERROR MBRTUM_ERROR_REQUEST_DATA_REQUIRED
               else if length adu < 5 \<or> length adu > MODBUS_RTU_ADU_MAX_SIZE
               then MBRTUM_ERROR MBRTUM_ERROR_RESPONSE_LENGTH
               else if mb_crc16 adu \<noteq> 0 then MBRTUM_ERROR MBRTUM_ERROR_CRC
               else if adu ! 0 \<noteq> rq_slave_address r then MBRTUM_ERROR MBRTUM_ERROR_ADDRESS_MISMATCH
               else if adu ! 1 = rq_function r OR 0x80 then
                 if length adu \<noteq> 5 then MBRTUM_ERROR MBRTUM_ERROR_RESPONSE_LENGTH
                 else if adu ! 2 = 0 then MBRTUM_ERROR MBRTUM_ERROR_MALFORMED_RESPONSE
                 else MBRTUM_EXCEPTION_RESPONSE
                        \<lparr>rs_function = rq_function r, rs_exception_code = adu ! 2, rs_data = None\<rparr>
               else if adu ! 1 \<noteq> rq_function r then MBRTUM_ERROR MBRTUM_ERROR_FUNCTION_MISMATCH
               else check_normal_response r (case request_adu of None \<Rightarrow> [] | Some q \<Rightarrow> q) adu)
      | _ \<Rightarrow> MBRTUM_ERROR MBRTUM_ERROR_ARGUMENT)"

definition mbrtum_process_response ::
  "mbrtum_request option \<Rightarrow> bytes option \<Rightarrow> response_result" where
  "mbrtum_process_response request response_adu =
     mbrtum_process_response_with_request_adu request None response_adu"

end
