(* ===== verification/Master_Views.thy ===== *)
theory Master_Views
  imports Master_Response
begin

text \<open>
  The accessors of modbus_rtu_master.c that decode a validated response. \<open>None\<close> in place of
  an argument stands for a NULL pointer among the arguments. A view holds the bytes it points
  to; where the source keeps a NULL pointer for an empty part, the part is the empty list.
\<close>

record mbrtum_diagnostics_response =
  dr_subfunction :: u16
  dr_data :: bytes

record mbrtum_comm_event_log =
  el_communication_status :: u16
  el_event_count :: u16
  el_message_count :: u16
  el_events :: bytes

record mbrtum_server_id_response =
  sr_server_id :: bytes
  sr_run_status :: u8
  sr_additional_data :: bytes

record mbrtum_file_record_response =
  fv_subresponse_count :: nat
  fv_subresponses :: bytes

record mbrtum_file_record_subresponse =
  fs_reference_type :: u8
  fs_record_data :: bytes
  fs_record_length :: u16

record mbrtum_fifo_response =
  fv_fifo_count :: u16
  fv_values :: bytes

record mbrtum_mei_response =
  mv_type :: u8
  mv_data :: bytes

record mbrtum_device_id_response =
  dv_read_code :: u8
  dv_conformity_level :: u8
  dv_more_follows :: u8
  dv_next_object_id :: u8
  dv_object_count :: u8
  dv_objects :: bytes

record mbrtum_device_id_object =
  do_object_id :: u8
  do_value :: bytes

definition mbrtum_get_bit ::
  "mbrtum_request option \<Rightarrow> mbrtum_response option \<Rightarrow> u16 \<Rightarrow> mbrtum_error + u8" where
  "mbrtum_get_bit request response index =
     (case (request, response) of
        (Some r, Some p) \<Rightarrow>
          if rq_function r \<noteq> 0x01 \<and> rq_function r \<noteq> 0x02 then Inl MBRTUM_ERROR_FUNCTION
          else (case rs_data p of
              None \<Rightarrow> Inl MBRTUM_ERROR_MALFORMED_RESPONSE
            | Some data \<Rightarrow>
                if rs_exception_code p \<noteq> 0 \<or> rs_function p \<noteq> rq_function r
                then Inl MBRTUM_ERROR_MALFORMED_RESPONSE
                else if index \<ge> rq_quantity r then Inl MBRTUM_ERROR_INDEX
                else
                  let byte_index = unat index div 8 in
                  if byte_index \<ge> length data then Inl MBRTUM_ERROR_MALFORMED_RESPONSE
                  else Inr (drop_bit (unat index mod 8) (data ! byte_index) AND 1))
      | _ \<Rightarrow> Inl MBRTUM_ERROR_ARGUMENT)"

definition mbrtum_get_register ::
  "mbrtum_request option \<Rightarrow> mbrtum_response option \<Rightarrow> u16 \<Rightarrow> mbrtum_error + u16" where
  "mbrtum_get_register request response index =
     (case (request, response) of
        (Some r, Some p) \<Rightarrow>
          if rq_function r \<noteq> 0x03 \<and> rq_function r \<noteq> 0x04 \<and> rq_function r \<noteq> 0x17
          then Inl MBRTUM_ERROR_FUNCTION
          else (case rs_data p of
              None \<Rightarrow> Inl MBRTUM_ERROR_MALFORMED_RESPONSE
            | Some data \<Rightarrow>
                if rs_exception_code p \<noteq> 0 \<or> rs_function p \<noteq> rq_function r
                then Inl MBRTUM_ERROR_MALFORMED_RESPONSE
                else if index \<ge> rq_quantity r then Inl MBRTUM_ERROR_INDEX
                else
                  let byte_index = unat index * 2 in
                  if byte_index + 1 \<ge> length data then Inl MBRTUM_ERROR_MALFORMED_RESPONSE
                  else Inr (read_be16 data byte_index))
      | _ \<Rightarrow> Inl MBRTUM_ERROR_ARGUMENT)"

definition mbrtum_get_exception_status :: "mbrtum_response option \<Rightarrow> mbrtum_error + u8" where
  "mbrtum_get_exception_status response =
     (case response of None \<Rightarrow> Inl MBRTUM_ERROR_ARGUMENT
      | Some p \<Rightarrow>
          (case rs_data p of None \<Rightarrow> Inl MBRTUM_ERROR_FUNCTION
           | Some data \<Rightarrow>
               if rs_function p \<noteq> 0x07 \<or> rs_exception_code p \<noteq> 0 \<or> length data \<noteq> 1
               then Inl MBRTUM_ERROR_FUNCTION
               else Inr (data ! 0)))"

definition mbrtum_get_diagnostics_response ::
  "mbrtum_response option \<Rightarrow> mbrtum_error + mbrtum_diagnostics_response" where
  "mbrtum_get_diagnostics_response response =
     (case response of None \<Rightarrow> Inl MBRTUM_ERROR_ARGUMENT
      | Some p \<Rightarrow>
          (case rs_data p of None \<Rightarrow> Inl MBRTUM_ERROR_FUNCTION
           | Some data \<Rightarrow>
               if rs_function p \<noteq> 0x08 \<or> rs_exception_code p \<noteq> 0 \<or> length data < 2 \<or>
                  length data mod 2 \<noteq> 0
               then Inl MBRTUM_ERROR_FUNCTION
               else Inr \<lparr>dr_subfunction = read_be16 data 0, dr_data = drop 2 data\<rparr>))"

definition mbrtum_get_diagnostics_word :: "mbrtum_response option \<Rightarrow> mbrtum_error + u16 \<times> u16" where
  "mbrtum_get_diagnostics_word response =
     (case mbrtum_get_diagnostics_response response of
        Inl e \<Rightarrow> Inl e
      | Inr d \<Rightarrow>
          if length (dr_data d) < 2 then Inl MBRTUM_ERROR_MALFORMED_RESPONSE
          else Inr (dr_subfunction d, read_be16 (dr_data d) 0))"

definition mbrtum_get_comm_event_counter :: "mbrtum_response option \<Rightarrow> mbrtum_error + u16 \<times> u16" where
  "mbrtum_get_comm_event_counter response =
     (case response of None \<Rightarrow> Inl MBRTUM_ERROR_ARGUMENT
      | Some p \<Rightarrow>
          (case rs_data p of None \<Rightarrow> Inl MBRTUM_ERROR_FUNCTION
           | Some data \<Rightarrow>
               if rs_function p \<noteq> 0x0B \<or> rs_exception_code p \<noteq> 0 \<or> length data \<noteq> 4
               then Inl MBRTUM_ERROR_FUNCTION
               else Inr (read_be16 data 0, read_be16 data 2)))"

definition mbrtum_get_comm_event_log ::
  "mbrtum_response option \<Rightarrow> mbrtum_error + mbrtum_comm_event_log" where
  "mbrtum_get_comm_event_log response =
     (case response of None \<Rightarrow> Inl MBRTUM_ERROR_ARGUMENT
      | Some p \<Rightarrow>
          (case rs_data p of None \<Rightarrow> Inl MBRTUM_ERROR_FUNCTION
           | Some data \<Rightarrow>
               if rs_function p \<noteq> 0x0C \<or> rs_exception_code p \<noteq> 0 \<or> length data < 6 \<or> length data > 70
               then Inl MBRTUM_ERROR_FUNCTION
               else Inr \<lparr>el_communication_status = read_be16 data 0, el_event_count = read_be16 data 2,
                         el_message_count = read_be16 data 4, el_events = drop 6 data\<rparr>))"

definition mbrtum_get_diagnostic_event ::
  "mbrtum_comm_event_log option \<Rightarrow> nat \<Rightarrow> mbrtum_error + u8" where
  "mbrtum_get_diagnostic_event view index =
     (case view of None \<Rightarrow> Inl MBRTUM_ERROR_ARGUMENT
      | Some l \<Rightarrow>
          if index \<ge> length (el_events l) then Inl MBRTUM_ERROR_INDEX else Inr (el_events l ! index))"

definition mbrtum_get_server_id_response ::
  "mbrtum_request option \<Rightarrow> mbrtum_response option \<Rightarrow> mbrtum_error + mbrtum_server_id_response" where
  "mbrtum_get_server_id_response request response =
     (case (request, response) of
        (Some r, Some p) \<Rightarrow>
          (case rs_data p of None \<Rightarrow> Inl MBRTUM_ERROR_FUNCTION
           | Some data \<Rightarrow>
               let n = unat (rq_quantity r) in
               if rq_function r \<noteq> 0x11 \<or> n = 0 \<or> n > MBRTU_SERVER_ID_MAX_SERVER_ID_LENGTH \<or>
                  rs_function p \<noteq> 0x11 \<or> rs_exception_code p \<noteq> 0 \<or> length data < n + 1 \<or>
                  length data > MBRTU_SERVER_ID_MAX_BYTE_COUNT \<or>
                  (data ! n \<noteq> 0x00 \<and> data ! n \<noteq> 0xFF)
               then Inl MBRTUM_ERROR_FUNCTION
               else Inr \<lparr>sr_server_id = take n data, sr_run_status = data ! n,
                         sr_additional_data = drop (n + 1) data\<rparr>)
      | _ \<Rightarrow> Inl MBRTUM_ERROR_ARGUMENT)"

text \<open>The subresponses of an FC20 response; \<open>rest\<close> is what is left of the data.\<close>

function count_file_subresponses :: "nat \<Rightarrow> bytes \<Rightarrow> nat option" where
  "count_file_subresponses n rest =
     (if rest = [] then Some n
      else if length rest < 2 then None
      else
        let file_response_length = unat (rest ! 0) in
        if file_response_length < 3 \<or> file_response_length mod 2 = 0 \<or>
           rest ! 1 \<noteq> MB_FILE_RECORD_REFERENCE_TYPE
        then None
        else if 1 + file_response_length > length rest then None
        else count_file_subresponses (n + 1) (drop (1 + file_response_length) rest))"
  by pat_completeness auto
termination count_file_subresponses
  by (relation "measure (\<lambda>(n, rest). length rest)") auto

declare count_file_subresponses.simps [simp del]

definition mbrtum_get_file_record_response ::
  "mbrtum_response option \<Rightarrow> mbrtum_error + mbrtum_file_record_response" where
  "mbrtum_get_file_record_response response =
     (case response of None \<Rightarrow> Inl MBRTUM_ERROR_ARGUMENT
      | Some p \<Rightarrow>
          (case rs_data p of None \<Rightarrow> Inl MBRTUM_ERROR_MALFORMED_RESPONSE
           | Some data \<Rightarrow>
               if rs_exception_code p \<noteq> 0 \<or> rs_function p \<noteq> 0x14 \<or> length data < 4 \<or>
                  length data > MB_FILE_RECORD_RESPONSE_DATA_MAX
               then Inl MBRTUM_ERROR_MALFORMED_RESPONSE
               else (case count_file_subresponses 0 data of
                   None \<Rightarrow> Inl MBRTUM_ERROR_MALFORMED_RESPONSE
                 | Some n \<Rightarrow> Inr \<lparr>fv_subresponse_count = n, fv_subresponses = data\<rparr>)))"

fun find_file_subresponse :: "nat \<Rightarrow> bytes \<Rightarrow> mbrtum_error + mbrtum_file_record_subresponse" where
  "find_file_subresponse i rest =
     (if length rest < 2 then Inl MBRTUM_ERROR_MALFORMED_RESPONSE
      else
        let file_response_length = unat (rest ! 0) in
        if file_response_length < 3 \<or> file_response_length mod 2 = 0 \<or>
           1 + file_response_length > length rest \<or> rest ! 1 \<noteq> MB_FILE_RECORD_REFERENCE_TYPE
        then Inl MBRTUM_ERROR_MALFORMED_RESPONSE
        else (case i of
            0 \<Rightarrow> Inr \<lparr>fs_reference_type = rest ! 1,
                      fs_record_data = take (file_response_length - 1) (drop 2 rest),
                      fs_record_length = of_nat ((file_response_length - 1) div 2)\<rparr>
          | Suc j \<Rightarrow> find_file_subresponse j (drop (1 + file_response_length) rest)))"

declare find_file_subresponse.simps [simp del]

definition mbrtum_get_file_record_subresponse ::
  "mbrtum_file_record_response option \<Rightarrow> nat \<Rightarrow> mbrtum_error + mbrtum_file_record_subresponse" where
  "mbrtum_get_file_record_subresponse file_record_response index =
     (case file_record_response of None \<Rightarrow> Inl MBRTUM_ERROR_ARGUMENT
      | Some v \<Rightarrow>
          if index \<ge> fv_subresponse_count v then Inl MBRTUM_ERROR_INDEX
          else find_file_subresponse index (fv_subresponses v))"

definition mbrtum_get_file_record_register ::
  "mbrtum_file_record_subresponse option \<Rightarrow> u16 \<Rightarrow> mbrtum_error + u16" where
  "mbrtum_get_file_record_register subresponse index =
     (case subresponse of None \<Rightarrow> Inl MBRTUM_ERROR_ARGUMENT
      | Some f \<Rightarrow>
          if fs_reference_type f \<noteq> MB_FILE_RECORD_REFERENCE_TYPE \<or>
             length (fs_record_data f) \<noteq> unat (fs_record_length f) * 2
          then Inl MBRTUM_ERROR_MALFORMED_RESPONSE
          else if index \<ge> fs_record_length f then Inl MBRTUM_ERROR_INDEX
          else Inr (read_be16 (fs_record_data f) (unat index * 2)))"

definition mbrtum_get_fifo_response :: "mbrtum_response option \<Rightarrow> mbrtum_error + mbrtum_fifo_response" where
  "mbrtum_get_fifo_response response =
     (case response of None \<Rightarrow> Inl MBRTUM_ERROR_ARGUMENT
      | Some p \<Rightarrow>
          (case rs_data p of None \<Rightarrow> Inl MBRTUM_ERROR_MALFORMED_RESPONSE
           | Some data \<Rightarrow>
               if rs_exception_code p \<noteq> 0 \<or> rs_function p \<noteq> 0x18 \<or> length data < 2 \<or> length data > 64
               then Inl MBRTUM_ERROR_MALFORMED_RESPONSE
               else
                 let fifo_count = read_be16 data 0 in
                 if unat fifo_count > MB_FIFO_MAX_VALUES then Inl MBRTUM_ERROR_MALFORMED_RESPONSE
                 else if length data \<noteq> 2 + unat fifo_count * 2 then Inl MBRTUM_ERROR_MALFORMED_RESPONSE
                 else Inr \<lparr>fv_fifo_count = fifo_count, fv_values = drop 2 data\<rparr>))"

definition mbrtum_get_fifo_register :: "mbrtum_fifo_response option \<Rightarrow> u16 \<Rightarrow> mbrtum_error + u16" where
  "mbrtum_get_fifo_register fifo_response index =
     (case fifo_response of None \<Rightarrow> Inl MBRTUM_ERROR_ARGUMENT
      | Some v \<Rightarrow>
          if unat (fv_fifo_count v) > MB_FIFO_MAX_VALUES \<or>
             length (fv_values v) \<noteq> unat (fv_fifo_count v) * 2
          then Inl MBRTUM_ERROR_MALFORMED_RESPONSE
          else if index \<ge> fv_fifo_count v then Inl MBRTUM_ERROR_INDEX
          else Inr (read_be16 (fv_values v) (unat index * 2)))"

definition mbrtum_get_mei_response :: "mbrtum_response option \<Rightarrow> mbrtum_error + mbrtum_mei_response" where
  "mbrtum_get_mei_response response =
     (case response of None \<Rightarrow> Inl MBRTUM_ERROR_ARGUMENT
      | Some p \<Rightarrow>
          (case rs_data p of None \<Rightarrow> Inl MBRTUM_ERROR_FUNCTION
           | Some data \<Rightarrow>
               if rs_exception_code p \<noteq> 0 \<or> rs_function p \<noteq> 0x2B \<or> length data < 1
               then Inl MBRTUM_ERROR_FUNCTION
               else Inr \<lparr>mv_type = data ! 0, mv_data = drop 1 data\<rparr>))"

definition mbrtum_get_device_id_response ::
  "mbrtum_response option \<Rightarrow> mbrtum_error + mbrtum_device_id_response" where
  "mbrtum_get_device_id_response response =
     (case response of None \<Rightarrow> Inl MBRTUM_ERROR_ARGUMENT
      | Some p \<Rightarrow>
          (case rs_data p of None \<Rightarrow> Inl MBRTUM_ERROR_MALFORMED_RESPONSE
           | Some data \<Rightarrow>
               if rs_exception_code p \<noteq> 0 \<or> rs_function p \<noteq> 0x2B \<or> length data < 8 \<or> data ! 0 \<noteq> 0x0E
               then Inl MBRTUM_ERROR_MALFORMED_RESPONSE
               else Inr \<lparr>dv_read_code = data ! 1, dv_conformity_level = data ! 2,
                         dv_more_follows = data ! 3, dv_next_object_id = data ! 4,
                         dv_object_count = data ! 5, dv_objects = drop 6 data\<rparr>))"

fun find_device_object :: "nat \<Rightarrow> bytes \<Rightarrow> mbrtum_error + mbrtum_device_id_object" where
  "find_device_object i rest =
     (if length rest < 2 then Inl MBRTUM_ERROR_MALFORMED_RESPONSE
      else
        let object_length = unat (rest ! 1) in
        if 2 + object_length > length rest then Inl MBRTUM_ERROR_MALFORMED_RESPONSE
        else (case i of
            0 \<Rightarrow> Inr \<lparr>do_object_id = rest ! 0, do_value = take object_length (drop 2 rest)\<rparr>
          | Suc j \<Rightarrow> find_device_object j (drop (2 + object_length) rest)))"

declare find_device_object.simps [simp del]

definition mbrtum_get_device_id_object ::
  "mbrtum_device_id_response option \<Rightarrow> nat \<Rightarrow> mbrtum_error + mbrtum_device_id_object" where
  "mbrtum_get_device_id_object device_id_response index =
     (case device_id_response of None \<Rightarrow> Inl MBRTUM_ERROR_ARGUMENT
      | Some v \<Rightarrow>
          if index \<ge> unat (dv_object_count v) then Inl MBRTUM_ERROR_INDEX
          else find_device_object index (dv_objects v))"

end
