(* ===== verification/Transaction.thy ===== *)
theory Transaction
  imports Master_Response
begin

text \<open>
  The transaction layer of the RTU master, modbus_rtu_master_transaction.c: one request at a
  time, with response timeout, retries and cancellation, driven by the calls of the
  application. Time is the wrapping 32-bit tick counter the caller passes. The transmit
  callback is a parameter that says whether the transport accepts a frame, given the frames
  handed to it before; \<open>sent\<close> records them. The fixed buffers with their lengths are byte
  lists; \<open>protocol_result\<close> keeps the integer codes of the source. Every operation but
  \<open>mbrtum_transaction_is_active\<close> returns \<open>MBRTUM_TXN_ERROR_ARGUMENT\<close> for a NULL transaction,
  without any effect; that case has no state to speak of and is left out.
\<close>

datatype txn_state =
  MBRTUM_TXN_STATE_IDLE | MBRTUM_TXN_STATE_TRANSMITTING | MBRTUM_TXN_STATE_WAITING_RESPONSE
| MBRTUM_TXN_STATE_RETRY_DELAY | MBRTUM_TXN_STATE_COMPLETE | MBRTUM_TXN_STATE_FAILED
| MBRTUM_TXN_STATE_CANCELLED

datatype txn_result =
  MBRTUM_TXN_RESULT_NONE | MBRTUM_TXN_RESULT_SUCCESS | MBRTUM_TXN_RESULT_MODBUS_EXCEPTION
| MBRTUM_TXN_RESULT_TIMEOUT | MBRTUM_TXN_RESULT_TRANSPORT_ERROR | MBRTUM_TXN_RESULT_RESPONSE_ERROR
| MBRTUM_TXN_RESULT_CANCELLED

datatype txn_status =
  MBRTUM_TXN_OK | MBRTUM_TXN_ERROR_ARGUMENT | MBRTUM_TXN_ERROR_BUSY | MBRTUM_TXN_ERROR_STATE
| MBRTUM_TXN_ERROR_CAPACITY | MBRTUM_TXN_ERROR_CONFIG | MBRTUM_TXN_ERROR_NOT_INITIALIZED
| MBRTUM_TXN_ERROR_REQUEST

record txn_config =
  response_timeout_ticks :: u32
  retry_delay_ticks :: u32
  max_retries :: u16
  retry_transport_errors :: u8

record txn_diagnostics =
  transactions_started :: u32
  successful_transactions :: u32
  exception_responses :: u32
  transmission_attempts :: u32
  retries_performed :: u32
  timeouts :: u32
  transport_errors :: u32
  malformed_responses :: u32
  unrelated_responses :: u32
  late_responses :: u32
  cancelled_transactions :: u32

record mbrtum_transaction =
  t_state :: txn_state
  t_result :: txn_result
  t_protocol_result :: int
  t_exception_code :: u8
  t_config :: txn_config
  t_request :: mbrtum_request
  t_request_adu :: bytes
  t_response_adu :: bytes
  t_response :: mbrtum_response
  t_deadline :: u32
  t_cookie :: u32
  t_retries_used :: u16
  t_saw_response_error :: bool
  t_diagnostics :: txn_diagnostics
  t_sent :: "bytes list"

type_synonym transport = "bytes list \<Rightarrow> bytes \<Rightarrow> bool"

abbreviation (input) MBRTUM_TXN_INITIALIZATION_COOKIE :: u32 where
  "MBRTUM_TXN_INITIALIZATION_COOKIE \<equiv> 0x4D425458"

definition inc_sat :: "u32 \<Rightarrow> u32" where
  "inc_sat v = (if v \<noteq> 0xFFFFFFFF then v + 1 else v)"

definition deadline_reached :: "u32 \<Rightarrow> u32 \<Rightarrow> bool" where
  "deadline_reached now deadline \<longleftrightarrow> sint (now - deadline) \<ge> 0"

definition duration_is_valid :: "u32 \<Rightarrow> bool" where
  "duration_is_valid duration \<longleftrightarrow> duration \<le> 0x7FFFFFFF"

definition state_is_active :: "txn_state \<Rightarrow> bool" where
  "state_is_active st \<longleftrightarrow> st = MBRTUM_TXN_STATE_TRANSMITTING \<or> st = MBRTUM_TXN_STATE_WAITING_RESPONSE \<or>
     st = MBRTUM_TXN_STATE_RETRY_DELAY"

definition transaction_is_initialized :: "mbrtum_transaction \<Rightarrow> bool" where
  "transaction_is_initialized t \<longleftrightarrow> t_cookie t = MBRTUM_TXN_INITIALIZATION_COOKIE"

section \<open>The check of a request before it is started\<close>

text \<open>Two bytes of a frame hold a 16-bit field of the descriptor.\<close>

definition field_matches :: "bytes \<Rightarrow> nat \<Rightarrow> u16 \<Rightarrow> bool" where
  "field_matches adu i v \<longleftrightarrow> adu ! i = ucast (drop_bit 8 v) \<and> adu ! (i + 1) = ucast v"

definition request_fields_match :: "mbrtum_request \<Rightarrow> bytes \<Rightarrow> bool" where
  "request_fields_match r adu =
     (let f = rq_function r; start = rq_start_address r; q = rq_quantity r; v = rq_value r;
          broadcast = (rq_slave_address r = 0);
          expected_response = (if broadcast then 0 else 1 :: u8);
          no_write = (rq_write_start_address r = 0 \<and> rq_write_quantity r = 0) in
      if f = 0x15 then
        \<not> (start < 9 \<or> start > 251 \<or> q = 0 \<or> q > 27 \<or> v \<noteq> 0 \<or> \<not> no_write \<or>
           rq_expects_response r \<noteq> expected_response \<or>
           length adu \<noteq> 5 + unat start \<or> adu ! 2 \<noteq> ucast start) \<and>
        write_subrequest_count 0 (request_data adu) = Some (unat q)
      else if f = 0x16 then
        rq_expects_response r = expected_response \<and> no_write \<and> length adu = 10 \<and>
        field_matches adu 2 start \<and> field_matches adu 4 q \<and> field_matches adu 6 v
      else if f = 0x14 then
        \<not> (broadcast \<or> rq_expects_response r \<noteq> 1 \<or> start < 7 \<or> start > 245 \<or> start mod 7 \<noteq> 0 \<or>
           q < 4 \<or> q > 245 \<or> v = 0 \<or> v > 35 \<or> v \<noteq> start div 7 \<or> \<not> no_write \<or>
           length adu \<noteq> 5 + unat start \<or> adu ! 2 \<noteq> ucast start) \<and>
        read_subrequest_sizes 0 0 (request_data adu) = Some (unat q, unat v)
      else if f = 0x17 then
        \<not> (broadcast \<or> rq_expects_response r \<noteq> 1 \<or> v \<noteq> 0 \<or> q = 0 \<or> q > 125 \<or>
           rq_write_quantity r = 0 \<or> rq_write_quantity r > 121 \<or>
           (ucast start :: u32) + ucast q > 65536 \<or>
           (ucast (rq_write_start_address r) :: u32) + ucast (rq_write_quantity r) > 65536) \<and>
        length adu = 13 + unat (rq_write_quantity r) * 2 \<and>
        field_matches adu 2 start \<and> field_matches adu 4 q \<and>
        field_matches adu 6 (rq_write_start_address r) \<and> field_matches adu 8 (rq_write_quantity r) \<and>
        unat (adu ! 10) = unat (rq_write_quantity r) * 2
      else if f = 0x18 then
        \<not> broadcast \<and> rq_expects_response r = 1 \<and> q = 0 \<and> v = 0 \<and> no_write \<and> length adu = 6 \<and>
        field_matches adu 2 start
      else if f = 0x2B then
        \<not> broadcast \<and> rq_expects_response r = 1 \<and> no_write \<and>
        (if v = 0x0E then
           \<not> (start < 1 \<or> start > 4 \<or> q > 255) \<and> length adu = 7 \<and> adu ! 2 = 0x0E \<and>
           adu ! 3 = ucast start \<and> adu ! 4 = ucast q
         else
           \<not> (v > 255 \<or> v = 0x0D \<or> start > 251 \<or> q \<noteq> 0) \<and> length adu = 5 + unat start \<and>
           adu ! 2 = ucast v)
      else if f = 0x08 then
        \<not> (\<not> diagnostic_subfunction_is_supported start \<or> q > 250 \<or> q mod 2 \<noteq> 0 \<or> v \<noteq> 0) \<and>
        length adu = 6 + unat q \<and> field_matches adu 2 start \<and>
        rq_expects_response r = (if \<not> broadcast \<and> start \<noteq> 0x0004 then 1 else 0) \<and>
        \<not> (broadcast \<and> \<not> diagnostic_subfunction_is_state_changing start) \<and>
        (start = 0x0000 \<or>
         (q = 2 \<and> (if start = 0x0001 then read_be16 adu 4 = 0x0000 \<or> read_be16 adu 4 = 0xFF00
                    else read_be16 adu 4 = 0)))
      else if f = 0x07 \<or> f = 0x0B \<or> f = 0x0C then
        \<not> broadcast \<and> rq_expects_response r = 1 \<and> start = 0 \<and> q = 0 \<and> v = 0 \<and> length adu = 4
      else if f = 0x11 then
        \<not> broadcast \<and> rq_expects_response r = 1 \<and> start = 0 \<and> q \<noteq> 0 \<and>
        unat q \<le> MBRTU_SERVER_ID_MAX_SERVER_ID_LENGTH \<and> v = 0 \<and> no_write \<and> length adu = 4
      else True)"

definition request_adu_matches_descriptor :: "mbrtum_request \<Rightarrow> bytes \<Rightarrow> bool" where
  "request_adu_matches_descriptor r adu =
     (if rq_slave_address r > 247 \<or> length adu < 4 then False
      else if adu ! 0 \<noteq> rq_slave_address r \<or> adu ! 1 \<noteq> rq_function r then False
      else if rq_slave_address r = 0 \<and> rq_expects_response r \<noteq> 0 then False
      else if \<not> request_fields_match r adu then False
      else
        let crc = mb_crc16 (take (length adu - 2) adu) in
        adu ! (length adu - 2) = ucast (crc AND 0xFF) \<and> adu ! (length adu - 1) = ucast (drop_bit 8 crc))"

section \<open>Operations\<close>

definition bump_diag :: "(txn_diagnostics \<Rightarrow> txn_diagnostics) \<Rightarrow> mbrtum_transaction \<Rightarrow> mbrtum_transaction" where
  "bump_diag f t = t\<lparr>t_diagnostics := f (t_diagnostics t)\<rparr>"

definition zero_response :: mbrtum_response where
  "zero_response = \<lparr>rs_function = 0, rs_exception_code = 0, rs_data = None\<rparr>"

definition clear_response :: "mbrtum_transaction \<Rightarrow> mbrtum_transaction" where
  "clear_response t = t\<lparr>t_response_adu := [], t_response := zero_response, t_protocol_result := 0,
     t_exception_code := 0\<rparr>"

definition finish :: "txn_state \<Rightarrow> txn_result \<Rightarrow> mbrtum_transaction \<Rightarrow> mbrtum_transaction" where
  "finish st res t = t\<lparr>t_state := st, t_result := res\<rparr>"

definition schedule_retry_or_finish :: "u32 \<Rightarrow> txn_result \<Rightarrow> mbrtum_transaction \<Rightarrow> mbrtum_transaction" where
  "schedule_retry_or_finish now final_result t =
     (if t_retries_used t < max_retries (t_config t)
      then bump_diag (\<lambda>d. d\<lparr>retries_performed := inc_sat (retries_performed d)\<rparr>)
             (t\<lparr>t_retries_used := t_retries_used t + 1,
                t_deadline := now + retry_delay_ticks (t_config t),
                t_state := MBRTUM_TXN_STATE_RETRY_DELAY\<rparr>)
      else finish MBRTUM_TXN_STATE_FAILED final_result t)"

definition handle_response_timeout :: "u32 \<Rightarrow> mbrtum_transaction \<Rightarrow> mbrtum_transaction" where
  "handle_response_timeout now t =
     (let t = bump_diag (\<lambda>d. d\<lparr>timeouts := inc_sat (timeouts d)\<rparr>) t;
          final_result = (if t_saw_response_error t then MBRTUM_TXN_RESULT_RESPONSE_ERROR
                          else MBRTUM_TXN_RESULT_TIMEOUT) in
      schedule_retry_or_finish now final_result t)"

definition handle_transport_error :: "u32 \<Rightarrow> mbrtum_transaction \<Rightarrow> mbrtum_transaction" where
  "handle_transport_error now t =
     (let t = bump_diag (\<lambda>d. d\<lparr>transport_errors := inc_sat (transport_errors d)\<rparr>) t in
      if retry_transport_errors (t_config t) \<noteq> 0
      then schedule_retry_or_finish now MBRTUM_TXN_RESULT_TRANSPORT_ERROR t
      else finish MBRTUM_TXN_STATE_FAILED MBRTUM_TXN_RESULT_TRANSPORT_ERROR t)"

definition begin_transmit :: "transport \<Rightarrow> u32 \<Rightarrow> mbrtum_transaction \<Rightarrow> txn_status \<times> mbrtum_transaction" where
  "begin_transmit transmit now t =
     (let t = (clear_response t)\<lparr>t_saw_response_error := False, t_state := MBRTUM_TXN_STATE_TRANSMITTING\<rparr>;
          t = bump_diag (\<lambda>d. d\<lparr>transmission_attempts := inc_sat (transmission_attempts d)\<rparr>) t;
          accepted = transmit (t_sent t) (t_request_adu t);
          t = t\<lparr>t_sent := t_sent t @ [t_request_adu t]\<rparr> in
      if accepted then (MBRTUM_TXN_OK, t) else (MBRTUM_TXN_OK, handle_transport_error now t))"

definition zero_diagnostics :: txn_diagnostics where
  "zero_diagnostics = \<lparr>transactions_started = 0, successful_transactions = 0, exception_responses = 0,
     transmission_attempts = 0, retries_performed = 0, timeouts = 0, transport_errors = 0,
     malformed_responses = 0, unrelated_responses = 0, late_responses = 0, cancelled_transactions = 0\<rparr>"

definition mbrtum_transaction_init :: "txn_config option \<Rightarrow> bool \<Rightarrow> txn_status + mbrtum_transaction" where
  "mbrtum_transaction_init config transmit_set =
     (case config of None \<Rightarrow> Inl MBRTUM_TXN_ERROR_ARGUMENT
      | Some c \<Rightarrow>
          if \<not> transmit_set then Inl MBRTUM_TXN_ERROR_ARGUMENT
          else if response_timeout_ticks c = 0 \<or> \<not> duration_is_valid (response_timeout_ticks c) \<or>
                  \<not> duration_is_valid (retry_delay_ticks c) \<or> retry_transport_errors c > 1
          then Inl MBRTUM_TXN_ERROR_CONFIG
          else Inr \<lparr>t_state = MBRTUM_TXN_STATE_IDLE, t_result = MBRTUM_TXN_RESULT_NONE,
             t_protocol_result = 0, t_exception_code = 0, t_config = c,
             t_request = \<lparr>rq_slave_address = 0, rq_function = 0, rq_start_address = 0,
               rq_quantity = 0, rq_value = 0, rq_expects_response = 0,
               rq_write_start_address = 0, rq_write_quantity = 0\<rparr>,
             t_request_adu = [], t_response_adu = [], t_response = zero_response, t_deadline = 0,
             t_cookie = MBRTUM_TXN_INITIALIZATION_COOKIE, t_retries_used = 0,
             t_saw_response_error = False, t_diagnostics = zero_diagnostics, t_sent = []\<rparr>)"

definition mbrtum_transaction_start ::
  "transport \<Rightarrow> mbrtum_request option \<Rightarrow> bytes option \<Rightarrow> u32 \<Rightarrow> mbrtum_transaction \<Rightarrow>
   txn_status \<times> mbrtum_transaction" where
  "mbrtum_transaction_start transmit request request_adu now t =
     (case (request, request_adu) of
        (Some r, Some adu) \<Rightarrow>
          if \<not> transaction_is_initialized t then (MBRTUM_TXN_ERROR_NOT_INITIALIZED, t)
          else if state_is_active (t_state t) then (MBRTUM_TXN_ERROR_BUSY, t)
          else if length adu = 0 \<or> length adu > MODBUS_RTU_ADU_MAX_SIZE then (MBRTUM_TXN_ERROR_CAPACITY, t)
          else if \<not> request_adu_matches_descriptor r adu then (MBRTUM_TXN_ERROR_REQUEST, t)
          else
            let t = t\<lparr>t_request := r, t_request_adu := adu, t_retries_used := 0,
                      t_result := MBRTUM_TXN_RESULT_NONE\<rparr>;
                t = bump_diag (\<lambda>d. d\<lparr>transactions_started := inc_sat (transactions_started d)\<rparr>) t in
            begin_transmit transmit now t
      | _ \<Rightarrow> (MBRTUM_TXN_ERROR_ARGUMENT, t))"

definition mbrtum_transaction_poll ::
  "transport \<Rightarrow> u32 \<Rightarrow> mbrtum_transaction \<Rightarrow> txn_status \<times> mbrtum_transaction" where
  "mbrtum_transaction_poll transmit now t =
     (if \<not> transaction_is_initialized t then (MBRTUM_TXN_ERROR_NOT_INITIALIZED, t)
      else if t_state t = MBRTUM_TXN_STATE_RETRY_DELAY then
        if deadline_reached now (t_deadline t) then begin_transmit transmit now t else (MBRTUM_TXN_OK, t)
      else if t_state t \<noteq> MBRTUM_TXN_STATE_WAITING_RESPONSE then (MBRTUM_TXN_OK, t)
      else if \<not> deadline_reached now (t_deadline t) then (MBRTUM_TXN_OK, t)
      else (MBRTUM_TXN_OK, handle_response_timeout now t))"

definition mbrtum_transaction_on_tx_complete ::
  "u32 \<Rightarrow> mbrtum_transaction \<Rightarrow> txn_status \<times> mbrtum_transaction" where
  "mbrtum_transaction_on_tx_complete now t =
     (if \<not> transaction_is_initialized t then (MBRTUM_TXN_ERROR_NOT_INITIALIZED, t)
      else if t_state t \<noteq> MBRTUM_TXN_STATE_TRANSMITTING then (MBRTUM_TXN_ERROR_STATE, t)
      else if rq_expects_response (t_request t) = 0 then
        (MBRTUM_TXN_OK, finish MBRTUM_TXN_STATE_COMPLETE MBRTUM_TXN_RESULT_SUCCESS
           (bump_diag (\<lambda>d. d\<lparr>successful_transactions := inc_sat (successful_transactions d)\<rparr>) t))
      else (MBRTUM_TXN_OK, t\<lparr>t_deadline := now + response_timeout_ticks (t_config t),
                              t_state := MBRTUM_TXN_STATE_WAITING_RESPONSE\<rparr>))"

definition mbrtum_transaction_on_tx_error ::
  "u32 \<Rightarrow> mbrtum_transaction \<Rightarrow> txn_status \<times> mbrtum_transaction" where
  "mbrtum_transaction_on_tx_error now t =
     (if \<not> transaction_is_initialized t then (MBRTUM_TXN_ERROR_NOT_INITIALIZED, t)
      else if t_state t \<noteq> MBRTUM_TXN_STATE_TRANSMITTING then (MBRTUM_TXN_ERROR_STATE, t)
      else (MBRTUM_TXN_OK, handle_transport_error now t))"

text \<open>The integer codes of the results of response validation.\<close>

fun mbrtum_error_code :: "mbrtum_error \<Rightarrow> int" where
  "mbrtum_error_code MBRTUM_ERROR_ARGUMENT = - 1"
| "mbrtum_error_code MBRTUM_ERROR_SLAVE_ADDRESS = - 2"
| "mbrtum_error_code MBRTUM_ERROR_FUNCTION = - 3"
| "mbrtum_error_code MBRTUM_ERROR_QUANTITY = - 4"
| "mbrtum_error_code MBRTUM_ERROR_VALUE = - 5"
| "mbrtum_error_code MBRTUM_ERROR_CAPACITY = - 6"
| "mbrtum_error_code MBRTUM_ERROR_RESPONSE_LENGTH = - 7"
| "mbrtum_error_code MBRTUM_ERROR_CRC = - 8"
| "mbrtum_error_code MBRTUM_ERROR_ADDRESS_MISMATCH = - 9"
| "mbrtum_error_code MBRTUM_ERROR_FUNCTION_MISMATCH = - 10"
| "mbrtum_error_code MBRTUM_ERROR_MALFORMED_RESPONSE = - 11"
| "mbrtum_error_code MBRTUM_ERROR_ACKNOWLEDGEMENT_MISMATCH = - 12"
| "mbrtum_error_code MBRTUM_ERROR_RESPONSE_NOT_EXPECTED = - 13"
| "mbrtum_error_code MBRTUM_ERROR_INDEX = - 14"
| "mbrtum_error_code MBRTUM_ERROR_REQUEST_DATA_REQUIRED = - 15"

definition malformed_response :: "int \<Rightarrow> mbrtum_transaction \<Rightarrow> mbrtum_transaction" where
  "malformed_response code t =
     bump_diag (\<lambda>d. d\<lparr>malformed_responses := inc_sat (malformed_responses d)\<rparr>)
       (t\<lparr>t_saw_response_error := True, t_protocol_result := code\<rparr>)"

definition mbrtum_transaction_on_response ::
  "bytes option \<Rightarrow> u32 \<Rightarrow> mbrtum_transaction \<Rightarrow> txn_status \<times> mbrtum_transaction" where
  "mbrtum_transaction_on_response response_adu now t =
     (case response_adu of None \<Rightarrow> (MBRTUM_TXN_ERROR_ARGUMENT, t)
      | Some adu \<Rightarrow>
          if \<not> transaction_is_initialized t then (MBRTUM_TXN_ERROR_NOT_INITIALIZED, t)
          else if t_state t \<noteq> MBRTUM_TXN_STATE_WAITING_RESPONSE then (MBRTUM_TXN_ERROR_STATE, t)
          else if deadline_reached now (t_deadline t) then
            (MBRTUM_TXN_OK, handle_response_timeout now
               (bump_diag (\<lambda>d. d\<lparr>late_responses := inc_sat (late_responses d)\<rparr>) t))
          else if length adu = 0 \<or> length adu > MODBUS_RTU_ADU_MAX_SIZE then
            (MBRTUM_TXN_OK, malformed_response (mbrtum_error_code MBRTUM_ERROR_RESPONSE_LENGTH) t)
          else
            let t = t\<lparr>t_response_adu := adu, t_response := zero_response\<rparr> in
            case mbrtum_process_response_with_request_adu (Some (t_request t)) (Some (t_request_adu t))
                   (Some adu) of
              MBRTUM_OK response \<Rightarrow>
                (MBRTUM_TXN_OK, finish MBRTUM_TXN_STATE_COMPLETE MBRTUM_TXN_RESULT_SUCCESS
                   (bump_diag (\<lambda>d. d\<lparr>successful_transactions := inc_sat (successful_transactions d)\<rparr>)
                     (t\<lparr>t_response := response, t_protocol_result := 0\<rparr>)))
            | MBRTUM_EXCEPTION_RESPONSE response \<Rightarrow>
                (MBRTUM_TXN_OK, finish MBRTUM_TXN_STATE_COMPLETE MBRTUM_TXN_RESULT_MODBUS_EXCEPTION
                   (bump_diag (\<lambda>d. d\<lparr>exception_responses := inc_sat (exception_responses d)\<rparr>)
                     (t\<lparr>t_response := response, t_protocol_result := 1,
                        t_exception_code := rs_exception_code response\<rparr>)))
            | MBRTUM_ERROR e \<Rightarrow>
                if e = MBRTUM_ERROR_ADDRESS_MISMATCH \<or> e = MBRTUM_ERROR_FUNCTION_MISMATCH
                then (MBRTUM_TXN_OK, bump_diag (\<lambda>d. d\<lparr>unrelated_responses := inc_sat (unrelated_responses d)\<rparr>)
                        (t\<lparr>t_protocol_result := mbrtum_error_code e\<rparr>))
                else (MBRTUM_TXN_OK, malformed_response (mbrtum_error_code e) t))"

definition mbrtum_transaction_cancel :: "mbrtum_transaction \<Rightarrow> txn_status \<times> mbrtum_transaction" where
  "mbrtum_transaction_cancel t =
     (if \<not> transaction_is_initialized t then (MBRTUM_TXN_ERROR_NOT_INITIALIZED, t)
      else if \<not> state_is_active (t_state t) then (MBRTUM_TXN_ERROR_STATE, t)
      else (MBRTUM_TXN_OK, finish MBRTUM_TXN_STATE_CANCELLED MBRTUM_TXN_RESULT_CANCELLED
             (bump_diag (\<lambda>d. d\<lparr>cancelled_transactions := inc_sat (cancelled_transactions d)\<rparr>) t)))"

definition mbrtum_transaction_is_active :: "mbrtum_transaction option \<Rightarrow> bool" where
  "mbrtum_transaction_is_active transaction =
     (case transaction of None \<Rightarrow> False
      | Some t \<Rightarrow> transaction_is_initialized t \<and> state_is_active (t_state t))"

section \<open>Deadlines on a wrapping clock\<close>

lemma sint_nonneg_u32: "0 \<le> sint (w :: u32) \<longleftrightarrow> unat w < 2 ^ 31"
proof -
  have "sint w < 0 \<longleftrightarrow> bit w 31" using bit_last_iff [of w] by simp
  also have "\<dots> \<longleftrightarrow> bit (unat w) 31" by (simp add: bit_unsigned_iff)
  also have "\<dots> \<longleftrightarrow> odd (unat w div 2 ^ 31)" by (simp only: bit_iff_odd)
  also have "\<dots> \<longleftrightarrow> 2 ^ 31 \<le> unat w"
  proof -
    have "unat w div 2 ^ 31 < 2" using unat_u32_less [of w] by (simp add: less_mult_imp_div_less)
    then have "unat w div 2 ^ 31 = 0 \<or> unat w div 2 ^ 31 = 1" by linarith
    then show ?thesis by (auto simp: div_eq_0_iff)
  qed
  finally show ?thesis by linarith
qed

lemma deadline_reached_iff:
  assumes "duration_is_valid d" "e < 2 ^ 31"
  shows "deadline_reached (now + of_nat e) (now + d) \<longleftrightarrow> unat d \<le> e"
proof (cases "unat d \<le> e")
  case True
  have "of_nat e - d = (of_nat (e - unat d) :: u32)"
    using True by (simp add: of_nat_diff)
  then have "unat (of_nat e - d) = e - unat d"
    using assms(2) by (simp add: unat_of_nat)
  then show ?thesis
    using True assms(2) by (simp add: deadline_reached_def sint_nonneg_u32)
next
  case False
  then have lt: "e < unat d" "unat d < 2 ^ 31"
    using assms(1) by (simp_all add: duration_is_valid_def word_le_nat_alt)
  have eq: "of_nat e - d = (of_nat (2 ^ 32 + e - unat d) :: u32)"
    using lt by (simp add: of_nat_diff)
  have "unat (of_nat e - d) = 2 ^ 32 + e - unat d"
    unfolding eq using lt by (simp only: unat_of_nat) simp
  then show ?thesis
    using lt by (simp add: deadline_reached_def sint_nonneg_u32)
qed

section \<open>Reachable states\<close>

datatype txn_event =
  Start "mbrtum_request option" "bytes option" u32 | Poll u32 | Tx_Complete u32 | Tx_Error u32
| Response "bytes option" u32 | Cancel

fun txn_apply :: "transport \<Rightarrow> txn_event \<Rightarrow> mbrtum_transaction \<Rightarrow> mbrtum_transaction" where
  "txn_apply transmit (Start r adu now) t = snd (mbrtum_transaction_start transmit r adu now t)"
| "txn_apply transmit (Poll now) t = snd (mbrtum_transaction_poll transmit now t)"
| "txn_apply transmit (Tx_Complete now) t = snd (mbrtum_transaction_on_tx_complete now t)"
| "txn_apply transmit (Tx_Error now) t = snd (mbrtum_transaction_on_tx_error now t)"
| "txn_apply transmit (Response adu now) t = snd (mbrtum_transaction_on_response adu now t)"
| "txn_apply transmit Cancel t = snd (mbrtum_transaction_cancel t)"

inductive txn_reachable :: "transport \<Rightarrow> mbrtum_transaction \<Rightarrow> bool" for transmit where
  initial: "mbrtum_transaction_init (Some c) True = Inr t \<Longrightarrow> txn_reachable transmit t"
| event: "txn_reachable transmit t \<Longrightarrow> txn_reachable transmit (txn_apply transmit e t)"

text \<open>Which results go with which state.\<close>

fun state_result_ok :: "txn_state \<Rightarrow> txn_result \<Rightarrow> bool" where
  "state_result_ok MBRTUM_TXN_STATE_COMPLETE r \<longleftrightarrow>
     r = MBRTUM_TXN_RESULT_SUCCESS \<or> r = MBRTUM_TXN_RESULT_MODBUS_EXCEPTION"
| "state_result_ok MBRTUM_TXN_STATE_FAILED r \<longleftrightarrow>
     r = MBRTUM_TXN_RESULT_TIMEOUT \<or> r = MBRTUM_TXN_RESULT_TRANSPORT_ERROR \<or>
     r = MBRTUM_TXN_RESULT_RESPONSE_ERROR"
| "state_result_ok MBRTUM_TXN_STATE_CANCELLED r \<longleftrightarrow> r = MBRTUM_TXN_RESULT_CANCELLED"
| "state_result_ok _ r \<longleftrightarrow> r = MBRTUM_TXN_RESULT_NONE"

text \<open>What a finished transaction says about the response it holds.\<close>

definition outcome_ok :: "mbrtum_transaction \<Rightarrow> bool" where
  "outcome_ok t \<longleftrightarrow>
     (t_result t = MBRTUM_TXN_RESULT_SUCCESS \<longrightarrow> rq_expects_response (t_request t) \<noteq> 0 \<longrightarrow>
        mbrtum_process_response_with_request_adu (Some (t_request t)) (Some (t_request_adu t))
          (Some (t_response_adu t)) = MBRTUM_OK (t_response t)) \<and>
     (t_result t = MBRTUM_TXN_RESULT_MODBUS_EXCEPTION \<longrightarrow>
        mbrtum_process_response_with_request_adu (Some (t_request t)) (Some (t_request_adu t))
          (Some (t_response_adu t)) = MBRTUM_EXCEPTION_RESPONSE (t_response t) \<and>
        t_exception_code t = rs_exception_code (t_response t))"

definition txn_wf :: "mbrtum_transaction \<Rightarrow> bool" where
  "txn_wf t \<longleftrightarrow> transaction_is_initialized t \<and>
     duration_is_valid (response_timeout_ticks (t_config t)) \<and> 0 < response_timeout_ticks (t_config t) \<and>
     duration_is_valid (retry_delay_ticks (t_config t)) \<and>
     t_retries_used t \<le> max_retries (t_config t) \<and>
     state_result_ok (t_state t) (t_result t) \<and>
     (state_is_active (t_state t) \<longrightarrow> request_adu_matches_descriptor (t_request t) (t_request_adu t)) \<and>
     length (t_request_adu t) \<le> 256 \<and> length (t_response_adu t) \<le> 256 \<and>
     (t_state t = MBRTUM_TXN_STATE_WAITING_RESPONSE \<longrightarrow> rq_expects_response (t_request t) \<noteq> 0) \<and>
     outcome_ok t"

lemmas txn_op_defs = schedule_retry_or_finish_def handle_response_timeout_def handle_transport_error_def
  begin_transmit_def clear_response_def finish_def bump_diag_def malformed_response_def

lemma inc_retries: "r < (m :: u16) \<Longrightarrow> r + 1 \<le> m"
  by (rule inc_le)

lemma init_wf: "mbrtum_transaction_init (Some c) True = Inr t \<Longrightarrow> txn_wf t"
  by (auto simp: mbrtum_transaction_init_def txn_wf_def transaction_is_initialized_def outcome_ok_def
      state_is_active_def word_neq_0_conv split: if_splits)

lemma schedule_wf:
  assumes "txn_wf t" "state_is_active (t_state t)"
    "res \<in> {MBRTUM_TXN_RESULT_TIMEOUT, MBRTUM_TXN_RESULT_TRANSPORT_ERROR, MBRTUM_TXN_RESULT_RESPONSE_ERROR}"
  shows "txn_wf (schedule_retry_or_finish now res t)"
  using assms by (auto simp: txn_wf_def txn_op_defs outcome_ok_def state_is_active_def inc_retries
      transaction_is_initialized_def)

lemma bump_wf [simp]: "txn_wf (bump_diag f t) = txn_wf t"
  by (simp add: txn_wf_def bump_diag_def outcome_ok_def transaction_is_initialized_def)

lemma bump_state [simp]:
  "t_state (bump_diag f t) = t_state t" "t_config (bump_diag f t) = t_config t"
  "t_sent (bump_diag f t) = t_sent t" "t_request_adu (bump_diag f t) = t_request_adu t"
  "t_retries_used (bump_diag f t) = t_retries_used t" "t_request (bump_diag f t) = t_request t"
  "t_deadline (bump_diag f t) = t_deadline t"
  "transaction_is_initialized (bump_diag f t) = transaction_is_initialized t"
  by (simp_all add: bump_diag_def transaction_is_initialized_def)

lemma timeout_wf:
  "txn_wf t \<Longrightarrow> state_is_active (t_state t) \<Longrightarrow> txn_wf (handle_response_timeout now t)"
  by (simp add: handle_response_timeout_def schedule_wf Let_def)

lemma transport_error_wf:
  assumes "txn_wf t" "state_is_active (t_state t)"
  shows "txn_wf (handle_transport_error now t)"
proof -
  have "txn_wf (finish MBRTUM_TXN_STATE_FAILED MBRTUM_TXN_RESULT_TRANSPORT_ERROR t')"
    if "txn_wf t'" "state_is_active (t_state t')" for t'
    using that by (auto simp: txn_wf_def finish_def outcome_ok_def state_is_active_def transaction_is_initialized_def)
  then show ?thesis using assms by (simp add: handle_transport_error_def schedule_wf Let_def)
qed

text \<open>A transmission keeps the invariant whether the transaction starts or retries.\<close>

definition ready_to_send :: "mbrtum_transaction \<Rightarrow> bool" where
  "ready_to_send t \<longleftrightarrow> transaction_is_initialized t \<and>
     duration_is_valid (response_timeout_ticks (t_config t)) \<and> 0 < response_timeout_ticks (t_config t) \<and>
     duration_is_valid (retry_delay_ticks (t_config t)) \<and> t_retries_used t \<le> max_retries (t_config t) \<and>
     t_result t = MBRTUM_TXN_RESULT_NONE \<and> length (t_request_adu t) \<le> 256 \<and>
     request_adu_matches_descriptor (t_request t) (t_request_adu t)"

lemma begin_transmit_wf:
  assumes "ready_to_send t"
  shows "txn_wf (snd (begin_transmit transmit now t))"
proof -
  let ?t = "bump_diag (\<lambda>d. d\<lparr>transmission_attempts := inc_sat (transmission_attempts d)\<rparr>)
    ((clear_response t)\<lparr>t_saw_response_error := False, t_state := MBRTUM_TXN_STATE_TRANSMITTING\<rparr>)
    \<lparr>t_sent := t_sent t @ [t_request_adu t]\<rparr>"
  have "txn_wf ?t" "t_state ?t = MBRTUM_TXN_STATE_TRANSMITTING"
    using assms by (simp_all add: ready_to_send_def txn_wf_def bump_diag_def clear_response_def
        outcome_ok_def transaction_is_initialized_def)
  then show ?thesis
    using transport_error_wf [of ?t now]
    by (simp add: begin_transmit_def Let_def state_is_active_def bump_diag_def clear_response_def)
qed

lemma start_wf:
  assumes "txn_wf t"
  shows "txn_wf (snd (mbrtum_transaction_start transmit r adu now t))"
proof -
  have "txn_wf (snd (begin_transmit transmit now
      (bump_diag f (t\<lparr>t_request := q, t_request_adu := a, t_retries_used := 0,
         t_result := MBRTUM_TXN_RESULT_NONE\<rparr>))))"
    if "request_adu_matches_descriptor q a" "length a \<le> 256" for f q a
    using assms that by (intro begin_transmit_wf)
      (simp add: ready_to_send_def txn_wf_def bump_diag_def transaction_is_initialized_def)
  then show ?thesis
    using assms by (simp add: mbrtum_transaction_start_def Let_def not_less split: option.splits)
qed

lemma retry_ready: "txn_wf t \<Longrightarrow> t_state t = MBRTUM_TXN_STATE_RETRY_DELAY \<Longrightarrow> ready_to_send t"
  by (simp add: ready_to_send_def txn_wf_def state_is_active_def)

lemma poll_transaction_wf: "txn_wf t \<Longrightarrow> txn_wf (snd (mbrtum_transaction_poll transmit now t))"
  by (simp add: mbrtum_transaction_poll_def begin_transmit_wf retry_ready timeout_wf state_is_active_def)

lemma tx_complete_wf: "txn_wf t \<Longrightarrow> txn_wf (snd (mbrtum_transaction_on_tx_complete now t))"
  by (auto simp: mbrtum_transaction_on_tx_complete_def txn_wf_def finish_def bump_diag_def outcome_ok_def
      state_is_active_def transaction_is_initialized_def)

lemma tx_error_wf: "txn_wf t \<Longrightarrow> txn_wf (snd (mbrtum_transaction_on_tx_error now t))"
  by (simp add: mbrtum_transaction_on_tx_error_def transport_error_wf state_is_active_def)

lemma response_wf:
  assumes "txn_wf t"
  shows "txn_wf (snd (mbrtum_transaction_on_response adu now t))"
proof -
  have late: "txn_wf (handle_response_timeout now (bump_diag f t))"
    if "t_state t = MBRTUM_TXN_STATE_WAITING_RESPONSE" for f
    using assms that by (simp add: timeout_wf state_is_active_def)
  have mal: "txn_wf (malformed_response code t)"
    if "t_state t = MBRTUM_TXN_STATE_WAITING_RESPONSE" for code
    using assms that by (simp add: malformed_response_def txn_wf_def bump_diag_def outcome_ok_def
        transaction_is_initialized_def)
  show ?thesis
  proof (cases "adu = None \<or> t_state t \<noteq> MBRTUM_TXN_STATE_WAITING_RESPONSE \<or> \<not> transaction_is_initialized t")
    case True
    then show ?thesis using assms by (auto simp: mbrtum_transaction_on_response_def split: option.splits)
  next
    case False
    then obtain a where a: "adu = Some a" and w: "t_state t = MBRTUM_TXN_STATE_WAITING_RESPONSE" by auto
    show ?thesis
      using assms late mal w unfolding a
      by (auto simp: mbrtum_transaction_on_response_def Let_def txn_wf_def finish_def bump_diag_def
          malformed_response_def outcome_ok_def transaction_is_initialized_def state_is_active_def not_less
          split: response_result.splits)
  qed
qed

lemma cancel_wf: "txn_wf t \<Longrightarrow> txn_wf (snd (mbrtum_transaction_cancel t))"
  by (auto simp: mbrtum_transaction_cancel_def txn_wf_def finish_def bump_diag_def outcome_ok_def
      state_is_active_def transaction_is_initialized_def)

lemma txn_apply_wf: "txn_wf t \<Longrightarrow> txn_wf (txn_apply transmit e t)"
  by (cases e) (simp_all add: start_wf poll_transaction_wf tx_complete_wf tx_error_wf response_wf cancel_wf)

text \<open>
  C14. What a transaction reports is true. In every state reachable from initialisation by
  any sequence of calls with any arguments, at any times and for any behaviour of the
  transport: the result matches the state; the retries are within the configured maximum; and
  a transaction reported successful holds a response that validation accepts for the request
  that was sent, unless the request expects none, and one reported as an exception holds the
  validated exception frame and its code.
\<close>

theorem transaction_outcome_sound:
  assumes "txn_reachable transmit t"
  shows "state_result_ok (t_state t) (t_result t) \<and> t_retries_used t \<le> max_retries (t_config t) \<and>
    (t_result t = MBRTUM_TXN_RESULT_SUCCESS \<longrightarrow> rq_expects_response (t_request t) \<noteq> 0 \<longrightarrow>
        mbrtum_process_response_with_request_adu (Some (t_request t)) (Some (t_request_adu t))
          (Some (t_response_adu t)) = MBRTUM_OK (t_response t)) \<and>
    (t_result t = MBRTUM_TXN_RESULT_MODBUS_EXCEPTION \<longrightarrow>
        mbrtum_process_response_with_request_adu (Some (t_request t)) (Some (t_request_adu t))
          (Some (t_response_adu t)) = MBRTUM_EXCEPTION_RESPONSE (t_response t) \<and>
        t_exception_code t = rs_exception_code (t_response t))"
proof -
  from assms have "txn_wf t"
    by induction (auto intro: init_wf txn_apply_wf)
  then show ?thesis by (simp add: txn_wf_def outcome_ok_def)
qed

section \<open>Retries are bounded\<close>

definition txn_run :: "transport \<Rightarrow> txn_event list \<Rightarrow> mbrtum_transaction \<Rightarrow> mbrtum_transaction" where
  "txn_run transmit evs t = fold (txn_apply transmit) evs t"

lemma txn_run_simps [simp]:
  "txn_run transmit [] t = t" "txn_run transmit (e # evs) t = txn_run transmit evs (txn_apply transmit e t)"
  by (simp_all add: txn_run_def)

fun is_start :: "txn_event \<Rightarrow> bool" where
  "is_start (Start r adu now) = True"
| "is_start _ = False"

text \<open>
  The frames handed to the transport since the transaction began: \<open>base\<close> is what was sent
  before.
\<close>

definition sends :: "bytes list \<Rightarrow> bytes \<Rightarrow> mbrtum_transaction \<Rightarrow> bool" where
  "sends base adu t \<longleftrightarrow> t_request_adu t = adu \<and>
     (\<exists>k. t_sent t = base @ replicate k adu \<and> 1 \<le> k \<and> k \<le> unat (t_retries_used t) + 1 \<and>
        (t_state t = MBRTUM_TXN_STATE_RETRY_DELAY \<longrightarrow> k = unat (t_retries_used t)))"

lemma unat_inc_retries: "r < (m :: u16) \<Longrightarrow> unat (r + 1) = unat r + 1"
  using unat_u16_less [of m] by (simp add: unat_word_ariths word_less_nat_alt)

lemma sends_bump [simp]: "sends base adu (bump_diag f t) = sends base adu t"
  by (simp add: sends_def)

lemma sends_finish: "sends base adu t \<Longrightarrow> st \<noteq> MBRTUM_TXN_STATE_RETRY_DELAY \<Longrightarrow> sends base adu (finish st res t)"
  by (auto simp: sends_def finish_def)

text \<open>A failed attempt: exactly one frame more than retries used.\<close>

definition sent_once_more :: "bytes list \<Rightarrow> bytes \<Rightarrow> mbrtum_transaction \<Rightarrow> bool" where
  "sent_once_more base adu t \<longleftrightarrow> t_request_adu t = adu \<and>
     t_sent t = base @ replicate (unat (t_retries_used t) + 1) adu"

lemma sends_once:
  assumes "sent_once_more base adu t" "t_state t \<noteq> MBRTUM_TXN_STATE_RETRY_DELAY"
  shows "sends base adu t"
  using assms unfolding sends_def sent_once_more_def
  by (intro conjI exI [of _ "unat (t_retries_used t) + 1"]) simp_all

lemma sent_once_more_bump [simp]: "sent_once_more base adu (bump_diag f t) = sent_once_more base adu t"
  by (simp add: sent_once_more_def)

lemma sends_schedule:
  assumes "sent_once_more base adu t"
  shows "sends base adu (schedule_retry_or_finish now res t)"
proof (cases "t_retries_used t < max_retries (t_config t)")
  case True
  then show ?thesis
    using assms unfolding sends_def sent_once_more_def schedule_retry_or_finish_def
    by (intro conjI exI [of _ "unat (t_retries_used t) + 1"]) (simp_all add: unat_inc_retries)
next
  case False
  then show ?thesis
    using assms by (auto simp: schedule_retry_or_finish_def finish_def sent_once_more_def intro!: sends_once)
qed

lemma sends_timeout: "sent_once_more base adu t \<Longrightarrow> sends base adu (handle_response_timeout now t)"
  by (simp add: handle_response_timeout_def Let_def sends_schedule)

lemma sends_transport_error:
  assumes "sent_once_more base adu t"
  shows "sends base adu (handle_transport_error now t)"
proof -
  have "sends base adu (finish MBRTUM_TXN_STATE_FAILED MBRTUM_TXN_RESULT_TRANSPORT_ERROR (bump_diag f t))" for f
    using assms by (intro sends_once) (simp_all add: finish_def sent_once_more_def)
  then show ?thesis using assms by (simp add: handle_transport_error_def Let_def sends_schedule)
qed

lemma no_wait_after_failure [simp]:
  "t_state (schedule_retry_or_finish now res t) \<noteq> MBRTUM_TXN_STATE_TRANSMITTING"
  "t_state (schedule_retry_or_finish now res t) \<noteq> MBRTUM_TXN_STATE_WAITING_RESPONSE"
  "t_state (handle_response_timeout now t) \<noteq> MBRTUM_TXN_STATE_TRANSMITTING"
  "t_state (handle_response_timeout now t) \<noteq> MBRTUM_TXN_STATE_WAITING_RESPONSE"
  "t_state (handle_transport_error now t) \<noteq> MBRTUM_TXN_STATE_TRANSMITTING"
  "t_state (handle_transport_error now t) \<noteq> MBRTUM_TXN_STATE_WAITING_RESPONSE"
  by (simp_all add: txn_op_defs Let_def)

text \<open>The full count, which also says how many frames a waiting transaction has sent.\<close>

definition counted :: "bytes list \<Rightarrow> bytes \<Rightarrow> mbrtum_transaction \<Rightarrow> bool" where
  "counted base adu t \<longleftrightarrow> sends base adu t \<and>
     (t_state t = MBRTUM_TXN_STATE_TRANSMITTING \<or> t_state t = MBRTUM_TXN_STATE_WAITING_RESPONSE \<longrightarrow>
      sent_once_more base adu t)"

lemma counted_begin:
  assumes "t_request_adu t = adu" "t_sent t = base @ replicate (unat (t_retries_used t)) adu"
  shows "counted base adu (snd (begin_transmit transmit now t))"
proof -
  let ?u = "(bump_diag (\<lambda>d. d\<lparr>transmission_attempts := inc_sat (transmission_attempts d)\<rparr>)
    ((clear_response t)\<lparr>t_saw_response_error := False, t_state := MBRTUM_TXN_STATE_TRANSMITTING\<rparr>))
    \<lparr>t_sent := t_sent t @ [adu]\<rparr>"
  have u: "sent_once_more base adu ?u" "t_state ?u = MBRTUM_TXN_STATE_TRANSMITTING"
    using assms by (simp_all add: sent_once_more_def bump_diag_def clear_response_def replicate_append_same)
  have "snd (begin_transmit transmit now t) = (if transmit (t_sent t) adu then ?u else handle_transport_error now ?u)"
    using assms by (simp add: begin_transmit_def Let_def bump_diag_def clear_response_def)
  then show ?thesis
    using u sends_once [OF u(1)] sends_transport_error [OF u(1), of now] by (simp add: counted_def)
qed

lemma counted_bump [simp]: "counted base adu (bump_diag f t) = counted base adu t"
  by (simp add: counted_def)

lemma counted_done:
  "counted base adu t \<Longrightarrow> \<not> state_is_active st \<Longrightarrow> counted base adu (finish st res t)"
  by (auto simp: counted_def sends_def finish_def state_is_active_def)

lemma counted_apply:
  assumes "counted base adu t" "\<not> is_start e"
  shows "counted base adu (txn_apply transmit e t)"
proof (cases e)
  case (Poll now)
  show ?thesis
  proof (cases "t_state t = MBRTUM_TXN_STATE_RETRY_DELAY")
    case True
    then have "t_request_adu t = adu" "t_sent t = base @ replicate (unat (t_retries_used t)) adu"
      using assms(1) by (auto simp: counted_def sends_def)
    then show ?thesis
      using True assms(1) by (simp add: Poll mbrtum_transaction_poll_def counted_begin)
  next
    case False
    then show ?thesis
      using assms(1) by (simp add: Poll mbrtum_transaction_poll_def counted_def sends_timeout)
  qed
next
  case (Tx_Complete now)
  have "counted base adu (t\<lparr>t_deadline := d, t_state := MBRTUM_TXN_STATE_WAITING_RESPONSE\<rparr>)"
    if "t_state t = MBRTUM_TXN_STATE_TRANSMITTING" for d
  proof -
    have "sent_once_more base adu (t\<lparr>t_deadline := d, t_state := MBRTUM_TXN_STATE_WAITING_RESPONSE\<rparr>)"
      using assms(1) that by (simp add: counted_def sent_once_more_def)
    then show ?thesis using sends_once by (simp add: counted_def)
  qed
  then show ?thesis
    using assms(1)
    by (simp add: Tx_Complete mbrtum_transaction_on_tx_complete_def state_is_active_def counted_done)
next
  case (Tx_Error now)
  then show ?thesis
    using assms(1) by (simp add: mbrtum_transaction_on_tx_error_def counted_def sends_transport_error)
next
  case (Response a now)
  have frozen: "counted base adu (t\<lparr>t_response_adu := x, t_response := y, t_protocol_result := z\<rparr>)"
    "counted base adu (t\<lparr>t_response_adu := x, t_response := y, t_protocol_result := z, t_exception_code := w\<rparr>)"
    "counted base adu (t\<lparr>t_response_adu := x, t_response := y, t_saw_response_error := v, t_protocol_result := z\<rparr>)"
    "counted base adu (t\<lparr>t_saw_response_error := v, t_protocol_result := z\<rparr>)" for x y z w v
    using assms(1) by (simp_all add: counted_def sends_def sent_once_more_def)
  then show ?thesis
    using assms(1)
    by (auto simp: Response mbrtum_transaction_on_response_def Let_def malformed_response_def
        state_is_active_def split: option.splits response_result.splits intro!: counted_done)
      (simp_all add: counted_def sends_timeout)
next
  case Cancel
  then show ?thesis
    using assms(1) by (simp add: mbrtum_transaction_cancel_def counted_done state_is_active_def)
qed (use assms in simp)

lemma counted_run:
  "counted base adu t \<Longrightarrow> \<forall>e \<in> set evs. \<not> is_start e \<Longrightarrow> counted base adu (txn_run transmit evs t)"
  by (induction evs arbitrary: t) (simp_all add: counted_apply)

lemma op_config [simp]:
  "t_config (schedule_retry_or_finish now res t) = t_config t"
  "t_config (handle_response_timeout now t) = t_config t"
  "t_config (handle_transport_error now t) = t_config t"
  "t_config (finish st res t) = t_config t"
  "t_config (malformed_response code t) = t_config t"
  "t_config (snd (begin_transmit transmit now t)) = t_config t"
  by (simp_all add: txn_op_defs Let_def)

lemma txn_apply_config [simp]: "t_config (txn_apply transmit e t) = t_config t"
  by (cases e) (simp_all add: mbrtum_transaction_start_def mbrtum_transaction_poll_def
      mbrtum_transaction_on_tx_complete_def mbrtum_transaction_on_tx_error_def
      mbrtum_transaction_on_response_def mbrtum_transaction_cancel_def Let_def
      split: option.splits response_result.splits)

lemma txn_run_config [simp]: "t_config (txn_run transmit evs t) = t_config t"
  by (induction evs arbitrary: t) simp_all

lemma txn_run_wf: "txn_wf t \<Longrightarrow> txn_wf (txn_run transmit evs t)"
  by (induction evs arbitrary: t) (simp_all add: txn_apply_wf)

lemma reachable_wf: "txn_reachable transmit t \<Longrightarrow> txn_wf t"
  by (induction rule: txn_reachable.induct) (auto intro: init_wf txn_apply_wf)

lemma start_accepted:
  assumes "mbrtum_transaction_start transmit r a now t = (MBRTUM_TXN_OK, t')"
  obtains q adu where "r = Some q" "a = Some adu" "request_adu_matches_descriptor q adu"
    "\<not> state_is_active (t_state t)"
    "t' = snd (begin_transmit transmit now
      (bump_diag (\<lambda>d. d\<lparr>transactions_started := inc_sat (transactions_started d)\<rparr>)
        (t\<lparr>t_request := q, t_request_adu := adu, t_retries_used := 0, t_result := MBRTUM_TXN_RESULT_NONE\<rparr>)))"
  using assms by (auto simp: mbrtum_transaction_start_def Let_def split: option.splits if_splits)

lemma start_counted:
  assumes "mbrtum_transaction_start transmit r a now t = (MBRTUM_TXN_OK, t')"
  shows "counted (t_sent t) (the a) t'"
  by (rule start_accepted [OF assms]) (simp add: counted_begin)

text \<open>
  C18. A transaction sends its request at most \<open>max_retries + 1\<close> times and nothing else.
  Whatever calls follow an accepted start, at whatever times and with whatever answers of the
  transport and of the line, until the next start: the frames handed to the transport since
  then are copies of the request frame, at least one and at most \<open>max_retries + 1\<close>.
\<close>

theorem transaction_retries_bounded:
  assumes "txn_reachable transmit t" "mbrtum_transaction_start transmit r (Some adu) now t = (MBRTUM_TXN_OK, t')"
    "\<forall>e \<in> set evs. \<not> is_start e"
  shows "\<exists>k. 1 \<le> k \<and> k \<le> unat (max_retries (t_config t)) + 1 \<and>
    t_sent (txn_run transmit evs t') = t_sent t @ replicate k adu"
proof -
  let ?u = "txn_run transmit evs t'"
  have "t' = txn_apply transmit (Start r (Some adu) now) t" using assms(2) by simp
  then have cfg: "t_config ?u = t_config t" and wf: "txn_wf ?u"
    using reachable_wf [OF assms(1)] by (simp_all add: txn_run_wf txn_apply_wf del: txn_apply.simps)
  have "sends (t_sent t) adu ?u"
    using counted_run [OF _ assms(3)] start_counted [OF assms(2)] by (simp add: counted_def)
  then obtain k where k: "t_sent ?u = t_sent t @ replicate k adu" "1 \<le> k" "k \<le> unat (t_retries_used ?u) + 1"
    by (auto simp: sends_def)
  have "t_retries_used ?u \<le> max_retries (t_config t)" using wf cfg by (simp add: txn_wf_def)
  then have "unat (t_retries_used ?u) \<le> unat (max_retries (t_config t))" by (simp add: word_le_nat_alt)
  with k show ?thesis by (intro exI [of _ k]) linarith
qed

section \<open>Transactions end\<close>

fun stage :: "txn_state \<Rightarrow> nat" where
  "stage MBRTUM_TXN_STATE_RETRY_DELAY = 3"
| "stage MBRTUM_TXN_STATE_TRANSMITTING = 2"
| "stage MBRTUM_TXN_STATE_WAITING_RESPONSE = 1"
| "stage _ = 0"

definition rank :: "mbrtum_transaction \<Rightarrow> nat" where
  "rank t = (if state_is_active (t_state t)
     then 3 * (unat (max_retries (t_config t)) - unat (t_retries_used t)) + stage (t_state t) else 0)"

text \<open>
  The calls that move an active transaction on: the transport reports the end or the failure
  of a transmission, or the transaction is polled once its deadline is reached.
\<close>

definition makes_progress :: "txn_event \<Rightarrow> mbrtum_transaction \<Rightarrow> bool" where
  "makes_progress e t =
     (case e of
        Tx_Complete now \<Rightarrow> t_state t = MBRTUM_TXN_STATE_TRANSMITTING
      | Tx_Error now \<Rightarrow> t_state t = MBRTUM_TXN_STATE_TRANSMITTING
      | Poll now \<Rightarrow> (t_state t = MBRTUM_TXN_STATE_WAITING_RESPONSE \<or> t_state t = MBRTUM_TXN_STATE_RETRY_DELAY) \<and>
                     deadline_reached now (t_deadline t)
      | _ \<Rightarrow> False)"

fun progress_count :: "transport \<Rightarrow> txn_event list \<Rightarrow> mbrtum_transaction \<Rightarrow> nat" where
  "progress_count transmit [] t = 0"
| "progress_count transmit (e # evs) t =
     (if makes_progress e t then 1 else 0) + progress_count transmit evs (txn_apply transmit e t)"

lemma rank_bump [simp]: "rank (bump_diag f t) = rank t"
  by (simp add: rank_def)

lemma rank_finish [simp]: "\<not> state_is_active st \<Longrightarrow> rank (finish st res t) = 0"
  by (simp add: rank_def finish_def)

lemma rank_schedule:
  assumes "t_retries_used t \<le> max_retries (t_config t)"
  shows "rank (schedule_retry_or_finish now res t) \<le>
    3 * (unat (max_retries (t_config t)) - unat (t_retries_used t))"
proof (cases "t_retries_used t < max_retries (t_config t)")
  case True
  then have "unat (t_retries_used t) < unat (max_retries (t_config t))" by (simp add: word_less_nat_alt)
  then show ?thesis
    using True by (simp add: schedule_retry_or_finish_def rank_def state_is_active_def unat_inc_retries)
next
  case False
  then show ?thesis by (simp add: schedule_retry_or_finish_def state_is_active_def)
qed

lemma rank_timeout:
  "t_retries_used t \<le> max_retries (t_config t) \<Longrightarrow>
   rank (handle_response_timeout now t) \<le> 3 * (unat (max_retries (t_config t)) - unat (t_retries_used t))"
  using rank_schedule [of "bump_diag (\<lambda>d. d\<lparr>timeouts := inc_sat (timeouts d)\<rparr>) t"]
  by (simp add: handle_response_timeout_def Let_def)

lemma rank_transport_error:
  "t_retries_used t \<le> max_retries (t_config t) \<Longrightarrow>
   rank (handle_transport_error now t) \<le> 3 * (unat (max_retries (t_config t)) - unat (t_retries_used t))"
  using rank_schedule [of "bump_diag (\<lambda>d. d\<lparr>transport_errors := inc_sat (transport_errors d)\<rparr>) t"]
  by (simp add: handle_transport_error_def Let_def state_is_active_def)

lemma rank_begin:
  assumes "t_retries_used t \<le> max_retries (t_config t)"
  shows "rank (snd (begin_transmit transmit now t)) \<le>
    3 * (unat (max_retries (t_config t)) - unat (t_retries_used t)) + 2"
proof -
  let ?u = "(bump_diag (\<lambda>d. d\<lparr>transmission_attempts := inc_sat (transmission_attempts d)\<rparr>)
    ((clear_response t)\<lparr>t_saw_response_error := False, t_state := MBRTUM_TXN_STATE_TRANSMITTING\<rparr>))
    \<lparr>t_sent := t_sent t @ [t_request_adu t]\<rparr>"
  have "snd (begin_transmit transmit now t) =
      (if transmit (t_sent t) (t_request_adu t) then ?u else handle_transport_error now ?u)"
    by (simp add: begin_transmit_def Let_def bump_diag_def clear_response_def)
  moreover have "t_retries_used ?u = t_retries_used t" "t_config ?u = t_config t"
    "t_state ?u = MBRTUM_TXN_STATE_TRANSMITTING"
    by (simp_all add: bump_diag_def clear_response_def)
  ultimately show ?thesis
    using rank_transport_error [of ?u now] assms by (auto simp: rank_def state_is_active_def)
qed

lemma rank_decreases:
  assumes "txn_wf t" "makes_progress e t"
  shows "rank (txn_apply transmit e t) < rank t"
proof -
  have le: "t_retries_used t \<le> max_retries (t_config t)" and init: "transaction_is_initialized t"
    using assms(1) by (simp_all add: txn_wf_def)
  note steps = rank_begin [OF le] rank_timeout [OF le] rank_transport_error [OF le]
  show ?thesis
  proof (cases e)
    case (Poll now)
    then show ?thesis
      using assms(2) init steps(1) [of transmit now] steps(2) [of now]
      by (auto simp: makes_progress_def mbrtum_transaction_poll_def rank_def state_is_active_def
          split: if_splits)
  next
    case (Tx_Complete now)
    then show ?thesis
      using assms(2) init
      by (simp add: makes_progress_def mbrtum_transaction_on_tx_complete_def rank_def state_is_active_def finish_def)
  next
    case (Tx_Error now)
    then show ?thesis
      using assms(2) init steps(3) [of now]
      by (auto simp: makes_progress_def mbrtum_transaction_on_tx_error_def rank_def state_is_active_def
          split: if_splits)
  qed (use assms(2) in \<open>simp_all add: makes_progress_def\<close>)
qed

lemma rank_response:
  assumes "txn_wf t"
  shows "rank (snd (mbrtum_transaction_on_response a now t)) \<le> rank t"
proof (cases "t_state t = MBRTUM_TXN_STATE_WAITING_RESPONSE")
  case False
  then show ?thesis by (simp add: mbrtum_transaction_on_response_def split: option.splits)
next
  case True
  have "rank (handle_response_timeout now (bump_diag f t)) \<le> rank t" for f
    using rank_timeout [of "bump_diag f t" now] assms True by (simp add: txn_wf_def rank_def state_is_active_def)
  moreover have "rank (malformed_response c u) = rank u" for c u
    by (simp add: malformed_response_def rank_def)
  moreover have "rank (t\<lparr>t_response_adu := x, t_response := y\<rparr>) = rank t"
    "rank (t\<lparr>t_response_adu := x, t_response := y, t_protocol_result := z\<rparr>) = rank t" for x y z
    by (simp_all add: rank_def)
  ultimately show ?thesis
    by (simp add: mbrtum_transaction_on_response_def Let_def state_is_active_def
        split: option.splits response_result.splits)
qed

lemma rank_not_increases:
  assumes "txn_wf t" "\<not> is_start e"
  shows "rank (txn_apply transmit e t) \<le> rank t"
proof (cases "makes_progress e t")
  case True
  then show ?thesis using rank_decreases [OF assms(1)] by (simp add: less_imp_le)
next
  case False
  then show ?thesis
    using assms rank_response [OF assms(1)]
    by (cases e) (auto simp: makes_progress_def mbrtum_transaction_poll_def mbrtum_transaction_on_tx_complete_def
        mbrtum_transaction_on_tx_error_def mbrtum_transaction_cancel_def state_is_active_def)
qed

lemma progress_rank:
  assumes "txn_wf t" "\<forall>e \<in> set evs. \<not> is_start e"
  shows "progress_count transmit evs t + rank (txn_run transmit evs t) \<le> rank t"
  using assms
proof (induction evs arbitrary: t)
  case (Cons e evs)
  then have "progress_count transmit evs (txn_apply transmit e t) +
      rank (txn_run transmit evs (txn_apply transmit e t)) \<le> rank (txn_apply transmit e t)"
    by (simp add: txn_apply_wf)
  then show ?case
    using rank_decreases [OF Cons.prems(1), of e transmit] rank_not_increases [OF Cons.prems(1), of e transmit]
      Cons.prems(2) by auto
qed simp

text \<open>
  C19. A transaction ends. After an accepted start, at most \<open>3 * max_retries + 2\<close> calls can
  move the transaction on (an end or a failure of a transmission, a poll after the deadline),
  in whatever order these and other calls come, and once that many have, or fewer, it is no
  longer active: no schedule keeps it busy for ever. Nor can it get stuck: while it is active
  there is a call that moves it on.
\<close>

theorem transaction_terminates:
  assumes "txn_reachable transmit t" "mbrtum_transaction_start transmit r a now t = (MBRTUM_TXN_OK, t')"
    "\<forall>e \<in> set evs. \<not> is_start e"
  shows "progress_count transmit evs t' \<le> 3 * unat (max_retries (t_config t)) + 2 \<and>
    (progress_count transmit evs t' = 3 * unat (max_retries (t_config t)) + 2 \<longrightarrow>
     \<not> mbrtum_transaction_is_active (Some (txn_run transmit evs t'))) \<and>
    (mbrtum_transaction_is_active (Some (txn_run transmit evs t')) \<longrightarrow>
     (\<exists>e. \<not> is_start e \<and> makes_progress e (txn_run transmit evs t')))"
proof -
  let ?u = "txn_run transmit evs t'"
  have t': "t' = txn_apply transmit (Start r a now) t" using assms(2) by simp
  have wf: "txn_wf t'" unfolding t' using reachable_wf [OF assms(1)] by (rule txn_apply_wf)
  have "rank t' \<le> 3 * unat (max_retries (t_config t)) + 2"
  proof (rule start_accepted [OF assms(2)])
    fix q adu
    let ?v = "bump_diag (\<lambda>d. d\<lparr>transactions_started := inc_sat (transactions_started d)\<rparr>)
        (t\<lparr>t_request := q, t_request_adu := adu, t_retries_used := 0, t_result := MBRTUM_TXN_RESULT_NONE\<rparr>)"
    assume "t' = snd (begin_transmit transmit now ?v)"
    then show ?thesis using rank_begin [of ?v transmit now] by simp
  qed
  moreover note progress_rank [OF wf assms(3), of transmit]
  moreover have "0 < rank ?u" if "state_is_active (t_state ?u)"
    using that by (auto simp: rank_def state_is_active_def)
  moreover have "\<exists>e. \<not> is_start e \<and> makes_progress e ?u" if "state_is_active (t_state ?u)"
    using that by (intro exI [of _ "if t_state ?u = MBRTUM_TXN_STATE_TRANSMITTING then Tx_Complete 0
        else Poll (t_deadline ?u)"])
      (auto simp: makes_progress_def state_is_active_def deadline_reached_def)
  ultimately show ?thesis
    by (fastforce simp: mbrtum_transaction_is_active_def)
qed

section \<open>The response window\<close>

lemma ok_response_length:
  assumes "mbrtum_process_response_with_request_adu (Some r) q (Some adu) = MBRTUM_OK p"
  shows "5 \<le> length adu" "length adu \<le> 256"
  using assms by (auto simp: mbrtum_process_response_with_request_adu_def split: option.splits if_splits)

text \<open>
  C29. The response window is exact and safe against wrap-around of the tick counter. From
  the end of a transmission at any time \<open>now\<close>, and for up to \<open>2 ^ 31 - 1\<close> ticks after it: a
  poll does nothing before the configured timeout and handles the timeout from then on; a
  response validated before the timeout completes the transaction with that response; one
  that arrives later never does.
\<close>

theorem transaction_response_window:
  assumes "txn_reachable transmit t" "t_state t = MBRTUM_TXN_STATE_TRANSMITTING"
    "rq_expects_response (t_request t) \<noteq> 0" "mbrtum_transaction_on_tx_complete now t = (st, t')"
    "e < 2 ^ 31"
  shows "st = MBRTUM_TXN_OK \<and> t_state t' = MBRTUM_TXN_STATE_WAITING_RESPONSE \<and>
    snd (mbrtum_transaction_poll transmit (now + of_nat e) t') =
      (if e < unat (response_timeout_ticks (t_config t)) then t'
       else handle_response_timeout (now + of_nat e) t') \<and>
    (e < unat (response_timeout_ticks (t_config t)) \<longrightarrow>
       mbrtum_process_response_with_request_adu (Some (t_request t)) (Some (t_request_adu t)) (Some adu) = MBRTUM_OK p \<longrightarrow>
       t_result (snd (mbrtum_transaction_on_response (Some adu) (now + of_nat e) t')) = MBRTUM_TXN_RESULT_SUCCESS \<and>
       t_response (snd (mbrtum_transaction_on_response (Some adu) (now + of_nat e) t')) = p) \<and>
    (unat (response_timeout_ticks (t_config t)) \<le> e \<longrightarrow>
       \<not> state_result_ok MBRTUM_TXN_STATE_COMPLETE
           (t_result (snd (mbrtum_transaction_on_response (Some adu) (now + of_nat e) t'))))"
proof -
  let ?d = "response_timeout_ticks (t_config t)"
  have wf: "txn_wf t" using assms(1) by (rule reachable_wf)
  then have init: "transaction_is_initialized t" and d: "duration_is_valid ?d" and none: "t_result t = MBRTUM_TXN_RESULT_NONE"
    using assms(2) by (simp_all add: txn_wf_def)
  have t': "t' = t\<lparr>t_deadline := now + ?d, t_state := MBRTUM_TXN_STATE_WAITING_RESPONSE\<rparr>" "st = MBRTUM_TXN_OK"
    using assms(2-4) init by (simp_all add: mbrtum_transaction_on_tx_complete_def)
  have reached: "deadline_reached (now + of_nat e) (now + ?d) \<longleftrightarrow> unat ?d \<le> e"
    using d assms(5) by (rule deadline_reached_iff)
  have init': "transaction_is_initialized t'" using init by (simp add: t' transaction_is_initialized_def)
  have late: "\<not> state_result_ok MBRTUM_TXN_STATE_COMPLETE (t_result (handle_response_timeout n (bump_diag f t')))" for n f
    using none by (simp add: t' txn_op_defs Let_def)
  show ?thesis
    using reached init' late ok_response_length [of "t_request t" "Some (t_request_adu t)" adu p]
    by (auto simp: t' mbrtum_transaction_poll_def mbrtum_transaction_on_response_def Let_def not_le
        finish_def bump_diag_def)
qed

section \<open>Examples\<close>

lemma matches_frame:
  assumes "rq_slave_address r \<le> 247" "pdu \<noteq> []" "pdu ! 0 = rq_function r"
    "rq_slave_address r = 0 \<Longrightarrow> rq_expects_response r = 0"
    "request_fields_match r (rtu_frame (rq_slave_address r) pdu)"
  shows "request_adu_matches_descriptor r (rtu_frame (rq_slave_address r) pdu)"
proof -
  let ?a = "rq_slave_address r"
  have len: "length (rtu_frame ?a pdu) = 3 + length pdu" "1 \<le> length pdu" using assms(2) by (cases pdu; simp)+
  have crc: "rtu_frame ?a pdu = ([?a] @ pdu) @ write_crc_le (mb_crc16 ([?a] @ pdu))"
    by (simp add: rtu_frame_def)
  have "take (length pdu + 1) (rtu_frame ?a pdu) = [?a] @ pdu" unfolding crc by simp
  moreover have "rtu_frame ?a pdu ! (length pdu + 1) = ucast (mb_crc16 ([?a] @ pdu))"
    "rtu_frame ?a pdu ! (length pdu + 2) = ucast (drop_bit 8 (mb_crc16 ([?a] @ pdu)))"
    unfolding crc by (simp_all add: nth_append write_crc_le_def)
  moreover have "(ucast (c AND 0xFF) :: u8) = ucast c" for c :: u16
  proof -
    have ff: "(0xFF :: u16) = mask 8" by (simp add: mask_eq_exp_minus_1)
    show ?thesis unfolding ff by (intro bit_word_eqI) (auto simp: bit_simps)
  qed
  ultimately show ?thesis
    using assms len by (simp add: request_adu_matches_descriptor_def Let_def not_less)
qed

definition demo_txn_config :: txn_config where
  "demo_txn_config = \<lparr>response_timeout_ticks = 100, retry_delay_ticks = 10, max_retries = 2,
     retry_transport_errors = 1\<rparr>"

definition demo_txn :: mbrtum_transaction where
  "demo_txn = (case mbrtum_transaction_init (Some demo_txn_config) True of Inr t \<Rightarrow> t)"

lemma demo_txn_reachable: "txn_reachable transmit demo_txn"
proof -
  have "\<exists>t. mbrtum_transaction_init (Some demo_txn_config) True = Inr t"
    by (simp add: mbrtum_transaction_init_def demo_txn_config_def duration_is_valid_def)
  then show ?thesis by (auto simp: demo_txn_def intro: txn_reachable.initial)
qed

lemma demo_txn_fields [simp]:
  "t_state demo_txn = MBRTUM_TXN_STATE_IDLE" "transaction_is_initialized demo_txn" "t_sent demo_txn = []"
  "t_config demo_txn = demo_txn_config"
  by (simp_all add: demo_txn_def mbrtum_transaction_init_def demo_txn_config_def duration_is_valid_def
      transaction_is_initialized_def)

definition demo_request :: mbrtum_request where
  "demo_request = finish_request 17 0x03 0 1 0"

definition demo_adu :: bytes where
  "demo_adu = rtu_frame 17 [0x03, 0, 0, 0, 1]"

lemma demo_adu_size [simp]: "length demo_adu = 8" "demo_adu \<noteq> []"
  by (simp_all add: demo_adu_def) (simp add: rtu_frame_def)

lemma demo_request_matches: "request_adu_matches_descriptor demo_request demo_adu"
  using matches_frame [of demo_request "[0x03, 0, 0, 0, 1]"]
  by (simp add: demo_request_def demo_adu_def finish_request_def request_fields_match_def)

lemma demo_started:
  "fst (mbrtum_transaction_start transmit (Some demo_request) (Some demo_adu) now demo_txn) = MBRTUM_TXN_OK"
  by (simp add: mbrtum_transaction_start_def demo_request_matches state_is_active_def begin_transmit_def Let_def)

definition demo_sending :: mbrtum_transaction where
  "demo_sending = snd (mbrtum_transaction_start (\<lambda>lg f. True) (Some demo_request) (Some demo_adu) 0 demo_txn)"

lemma demo_start: "mbrtum_transaction_start (\<lambda>lg f. True) (Some demo_request) (Some demo_adu) 0 demo_txn =
    (MBRTUM_TXN_OK, demo_sending)"
  using demo_started by (simp add: demo_sending_def prod_eq_iff)

lemma demo_sending_fields [simp]:
  "t_state demo_sending = MBRTUM_TXN_STATE_TRANSMITTING" "t_request demo_sending = demo_request"
  "t_request_adu demo_sending = demo_adu" "t_config demo_sending = demo_txn_config"
  "transaction_is_initialized demo_sending"
proof -
  have cookie: "t_cookie demo_txn = MBRTUM_TXN_INITIALIZATION_COOKIE"
    using demo_txn_fields(2) by (simp only: transaction_is_initialized_def)
  show "t_state demo_sending = MBRTUM_TXN_STATE_TRANSMITTING" "t_request demo_sending = demo_request"
    "t_request_adu demo_sending = demo_adu" "t_config demo_sending = demo_txn_config"
    "transaction_is_initialized demo_sending"
    by (simp_all add: demo_sending_def mbrtum_transaction_start_def demo_request_matches state_is_active_def
        begin_transmit_def Let_def bump_diag_def clear_response_def transaction_is_initialized_def cookie)
qed

lemma demo_sending_reachable: "txn_reachable (\<lambda>lg f. True) demo_sending"
  using txn_reachable.event [OF demo_txn_reachable, of "\<lambda>lg f. True" "Start (Some demo_request) (Some demo_adu) 0"]
  by (simp add: demo_sending_def)

theorem transaction_outcome_sound_witness:
  "state_result_ok MBRTUM_TXN_STATE_TRANSMITTING (t_result demo_sending) \<and>
   t_retries_used demo_sending \<le> max_retries demo_txn_config"
  using transaction_outcome_sound [OF demo_sending_reachable] by simp

theorem transaction_retries_bounded_witness:
  "\<exists>k. 1 \<le> k \<and> k \<le> (3 :: nat) \<and> t_sent (txn_run (\<lambda>lg f. True) [Tx_Complete 5, Poll 200, Poll 300] demo_sending) =
     replicate k demo_adu"
  using transaction_retries_bounded [OF demo_txn_reachable demo_start, of "[Tx_Complete 5, Poll 200, Poll 300]"]
  by (simp add: demo_txn_config_def)

theorem transaction_terminates_witness:
  "progress_count (\<lambda>lg f. True) [Tx_Complete 5, Poll 200, Poll 300] demo_sending \<le> 8"
  using transaction_terminates [OF demo_txn_reachable demo_start, of "[Tx_Complete 5, Poll 200, Poll 300]"]
  by (simp add: demo_txn_config_def)

theorem transaction_response_window_witness:
  "snd (mbrtum_transaction_poll (\<lambda>lg f. True) (0xFFFFFFF0 + of_nat 99)
     (snd (mbrtum_transaction_on_tx_complete 0xFFFFFFF0 demo_sending))) =
   snd (mbrtum_transaction_on_tx_complete 0xFFFFFFF0 demo_sending)"
  using transaction_response_window [OF demo_sending_reachable _ _ surjective_pairing, of 99 "0xFFFFFFF0"]
  by (simp add: demo_txn_config_def demo_request_def finish_request_def)

end
