(* ===== verification/Master_Exchange.thy ===== *)
theory Master_Exchange
  imports Master_Views Transaction
begin

text \<open>
  What the parts of the master promise each other: every request a builder makes is one the
  transaction layer accepts and whose answers can be validated. A \<open>master_call\<close> names a builder with its arguments, so that a property of all
  builders is one statement.
\<close>

datatype master_call =
  Read_Bits u8 u16 u16 | Read_Registers u8 u16 u16 | Write_Single_Coil u16 u8
| Write_Single_Register u16 u16 | Mask_Write_Register u16 u16 u16
| Write_Multiple_Coils u16 u16 bytes | Write_Multiple_Registers u16 u16 "u16 list"
| Read_Write_Registers u16 u16 u16 u16 "u16 list"
| Read_File_Record "mbrtum_file_record_request list"
| Write_File_Record "mbrtum_write_file_record_request list"
| Read_Fifo_Queue u16 | Mei_Request u8 bytes | Read_Device_Identification u8 u8
| Read_Exception_Status | Get_Comm_Event_Counter | Get_Comm_Event_Log | Report_Server_Id u16
| Diagnostics_Request u16 bytes

text \<open>The payload of an MEI request lies behind the output buffer.\<close>

fun build_request :: "u8 \<Rightarrow> master_call \<Rightarrow> nat \<Rightarrow> build_result" where
  "build_request a (Read_Bits f start q) cap = mbrtum_build_read_bits_request a f start q (Some cap)"
| "build_request a (Read_Registers f start q) cap = mbrtum_build_read_registers_request a f start q (Some cap)"
| "build_request a (Write_Single_Coil addr v) cap = mbrtum_build_write_single_coil_request a addr v (Some cap)"
| "build_request a (Write_Single_Register addr v) cap =
     mbrtum_build_write_single_register_request a addr v (Some cap)"
| "build_request a (Mask_Write_Register addr am om) cap =
     mbrtum_build_mask_write_register_request a addr am om (Some cap)"
| "build_request a (Write_Multiple_Coils start q packed) cap =
     mbrtum_build_write_multiple_coils_request a start q (Some packed) (Some cap)"
| "build_request a (Write_Multiple_Registers start q vs) cap =
     mbrtum_build_write_multiple_registers_request a start q (Some vs) (Some cap)"
| "build_request a (Read_Write_Registers rs rq ws wq vs) cap =
     mbrtum_build_read_write_multiple_registers_request a rs rq ws wq (Some vs) (Some cap)"
| "build_request a (Read_File_Record qs) cap = mbrtum_build_read_file_record_request a (Some qs) (Some cap)"
| "build_request a (Write_File_Record qs) cap = mbrtum_build_write_file_record_request a (Some qs) (Some cap)"
| "build_request a (Read_Fifo_Queue p) cap = mbrtum_build_read_fifo_queue_request a p (Some cap)"
| "build_request a (Mei_Request ty d) cap = mbrtum_build_mei_request a ty (Some d) (length d) (Some cap) 0 cap"
| "build_request a (Read_Device_Identification code obj) cap =
     mbrtum_build_read_device_identification_request a code obj (Some cap)"
| "build_request a Read_Exception_Status cap = mbrtum_build_read_exception_status_request a (Some cap)"
| "build_request a Get_Comm_Event_Counter cap = mbrtum_build_get_comm_event_counter_request a (Some cap)"
| "build_request a Get_Comm_Event_Log cap = mbrtum_build_get_comm_event_log_request a (Some cap)"
| "build_request a (Report_Server_Id n) cap = mbrtum_build_report_server_id_request a n (Some cap)"
| "build_request a (Diagnostics_Request sub d) cap =
     mbrtum_build_diagnostics_request a sub (Some d) (length d) (Some cap)"

text \<open>The arrays of the caller hold as many elements as the counts beside them say.\<close>

fun arguments_ok :: "master_call \<Rightarrow> bool" where
  "arguments_ok (Write_Multiple_Coils start q packed) \<longleftrightarrow> (unat q + 7) div 8 \<le> length packed"
| "arguments_ok (Write_Multiple_Registers start q vs) \<longleftrightarrow> unat q \<le> length vs"
| "arguments_ok (Read_Write_Registers rs rq ws wq vs) \<longleftrightarrow> unat wq \<le> length vs"
| "arguments_ok (Write_File_Record qs) \<longleftrightarrow>
     (\<forall>q \<in> set qs. case wf_record_data q of None \<Rightarrow> True | Some d \<Rightarrow> unat (wf_record_length q) \<le> length d)"
| "arguments_ok _ \<longleftrightarrow> True"

text \<open>What a built request is: a frame for the slave that carries a legal PDU, with a
  descriptor that the transaction layer accepts and that allows validation of the answer.\<close>

definition well_built :: "u8 \<Rightarrow> nat \<Rightarrow> mbrtum_request \<Rightarrow> bytes \<Rightarrow> bytes \<Rightarrow> bool" where
  "well_built a cap r pdu adu \<longleftrightarrow> adu = rtu_frame a pdu \<and> pdu \<noteq> [] \<and> length pdu \<le> 253 \<and> length adu \<le> cap \<and>
     rq_slave_address r = a \<and> rq_function r = pdu ! 0 \<and> a \<le> 247 \<and>
     (a = 0 \<longrightarrow> rq_expects_response r = 0) \<and> request_fields_match r adu \<and>
     (rq_expects_response r \<noteq> 0 \<longrightarrow> validate_request_descriptor r = None \<and>
        (pdu ! 0 = 0x08 \<or> pdu ! 0 = 0x14 \<or> pdu ! 0 = 0x15 \<longrightarrow> original_request_adu_is_valid r (Some adu)))"

section \<open>Reading the fields of a frame\<close>

lemma append_crc_frame: "append_crc (a # pdu) = rtu_frame a pdu"
  by (simp add: append_crc_def rtu_frame_def)

lemma frame_nth: "0 < i \<Longrightarrow> i \<le> length pdu \<Longrightarrow> rtu_frame a pdu ! i = pdu ! (i - 1)"
  by (cases i) (simp_all add: rtu_frame_def nth_append)

lemma frame_be16: "0 < i \<Longrightarrow> i < length pdu \<Longrightarrow> read_be16 (rtu_frame a pdu) i = read_be16 pdu (i - 1)"
  by (simp add: read_be16_def frame_nth)

lemma field_matches_iff:
  assumes "i + 1 < length xs"
  shows "field_matches xs i v \<longleftrightarrow> read_be16 xs i = v"
proof -
  have "field_matches xs i v \<longleftrightarrow> write_be16 v = [xs ! i, xs ! (i + 1)]"
    by (auto simp: field_matches_def write_be16_def)
  also have "\<dots> \<longleftrightarrow> write_be16 v = write_be16 (read_be16 xs i)"
    using be.enc_dec [OF assms] by simp
  finally show ?thesis by (auto simp: be.enc_inject)
qed

lemma frame_field_matches:
  "0 < i \<Longrightarrow> i < length pdu \<Longrightarrow> field_matches (rtu_frame a pdu) i v \<longleftrightarrow> read_be16 pdu (i - 1) = v"
  by (simp add: field_matches_iff frame_be16)

lemmas frame_fields = frame_nth frame_be16 frame_field_matches

lemma frame_request_data: "request_data (rtu_frame a (f # n # data)) = data"
  by (simp add: request_data_def rtu_frame_def)

lemma unicast_bounds: "unicast_address_is_valid a \<Longrightarrow> a \<noteq> 0 \<and> a \<le> 247"
  by (auto simp: unicast_address_is_valid_def)

lemma write_address_bounds: "write_address_is_valid a \<Longrightarrow> a \<noteq> 0 \<Longrightarrow> unicast_address_is_valid a"
  "write_address_is_valid a \<Longrightarrow> a \<le> 247"
  by (auto simp: write_address_is_valid_def dest: unicast_bounds)

section \<open>Every builder makes a well-built request\<close>

lemma well_builtI:
  assumes "adu = append_crc (a # pdu)" "pdu \<noteq> []" "length pdu \<le> 253" "length pdu + 3 \<le> cap"
    "rq_slave_address r = a" "rq_function r = pdu ! 0" "a \<le> 247"
    "a = 0 \<Longrightarrow> rq_expects_response r = 0" "request_fields_match r (rtu_frame a pdu)"
    "rq_expects_response r \<noteq> 0 \<Longrightarrow> rq_expects_response r = 1 \<and> unicast_address_is_valid a \<and>
       validate_request_function r = None"
    "rq_expects_response r \<noteq> 0 \<Longrightarrow> pdu ! 0 = 0x08 \<or> pdu ! 0 = 0x14 \<or> pdu ! 0 = 0x15 \<Longrightarrow>
       original_request_adu_is_valid r (Some (rtu_frame a pdu))"
  shows "well_built a cap r pdu adu"
  using assms by (auto simp: well_built_def append_crc_frame validate_request_descriptor_def)

lemma finish_request_fields [simp]:
  "rq_slave_address (finish_request a f s q v) = a" "rq_function (finish_request a f s q v) = f"
  "rq_start_address (finish_request a f s q v) = s" "rq_quantity (finish_request a f s q v) = q"
  "rq_value (finish_request a f s q v) = v"
  "rq_expects_response (finish_request a f s q v) = (if a = 0 then 0 else 1)"
  "rq_write_start_address (finish_request a f s q v) = 0" "rq_write_quantity (finish_request a f s q v) = 0"
  by (simp_all add: finish_request_def)

lemma fixed_built:
  assumes "build_fixed_request a f first second q v (Some cap) = Inr (r, adu)" "write_address_is_valid a"
    "f \<in> {0x01, 0x02, 0x03, 0x04, 0x05, 0x06}"
    "validate_request_function (finish_request a f first q v) = None"
  shows "well_built a cap r ([f] @ write_be16 first @ write_be16 second) adu"
proof -
  have r: "r = finish_request a f first q v" "adu = append_crc ([a, f] @ write_be16 first @ write_be16 second)" "8 \<le> cap"
    using assms(1) by (auto simp: build_fixed_request_def split: if_splits)
  show ?thesis
    using assms r write_address_bounds [OF assms(2)]
    by (intro well_builtI) (auto simp: request_fields_match_def split: if_splits)
qed

lemma read_bits_built:
  assumes "mbrtum_build_read_bits_request a f start q (Some cap) = Inr (r, adu)"
  shows "well_built a cap r ([f] @ write_be16 start @ write_be16 q) adu"
    "r = finish_request a f start q 0" "f = 0x01 \<or> f = 0x02" "q \<noteq> 0" "q \<le> 2000" "unicast_address_is_valid a"
proof -
  show *: "f = 0x01 \<or> f = 0x02" "q \<noteq> 0" "q \<le> 2000" "unicast_address_is_valid a" "r = finish_request a f start q 0"
    using assms by (auto simp: mbrtum_build_read_bits_request_def build_fixed_request_def not_less split: if_splits)
  show "well_built a cap r ([f] @ write_be16 start @ write_be16 q) adu"
    using assms * by (intro fixed_built [where q = q and v = 0])
      (auto simp: mbrtum_build_read_bits_request_def write_address_is_valid_def validate_request_function_def
        split: if_splits)
qed

lemma read_registers_built:
  assumes "mbrtum_build_read_registers_request a f start q (Some cap) = Inr (r, adu)"
  shows "well_built a cap r ([f] @ write_be16 start @ write_be16 q) adu"
    "r = finish_request a f start q 0" "f = 0x03 \<or> f = 0x04" "q \<noteq> 0" "q \<le> 125" "unicast_address_is_valid a"
proof -
  show *: "f = 0x03 \<or> f = 0x04" "q \<noteq> 0" "q \<le> 125" "unicast_address_is_valid a" "r = finish_request a f start q 0"
    using assms by (auto simp: mbrtum_build_read_registers_request_def build_fixed_request_def not_less split: if_splits)
  show "well_built a cap r ([f] @ write_be16 start @ write_be16 q) adu"
    using assms * by (intro fixed_built [where q = q and v = 0])
      (auto simp: mbrtum_build_read_registers_request_def write_address_is_valid_def validate_request_function_def
        split: if_splits)
qed

lemma write_single_coil_built:
  assumes "mbrtum_build_write_single_coil_request a addr v (Some cap) = Inr (r, adu)"
  defines "e \<equiv> if v = 0 then 0x0000 else 0xFF00"
  shows "well_built a cap r ([0x05] @ write_be16 addr @ write_be16 e) adu" "r = finish_request a 0x05 addr 1 e"
    "write_address_is_valid a"
proof -
  show *: "write_address_is_valid a" "r = finish_request a 0x05 addr 1 e"
    using assms(1) by (auto simp: e_def mbrtum_build_write_single_coil_request_def build_fixed_request_def Let_def
        split: if_splits)
  show "well_built a cap r ([0x05] @ write_be16 addr @ write_be16 e) adu"
    using assms(1) * by (intro fixed_built [where q = 1 and v = e])
      (auto simp: e_def mbrtum_build_write_single_coil_request_def validate_request_function_def Let_def
        split: if_splits)
qed

lemma write_single_register_built:
  assumes "mbrtum_build_write_single_register_request a addr v (Some cap) = Inr (r, adu)"
  shows "well_built a cap r ([0x06] @ write_be16 addr @ write_be16 v) adu" "r = finish_request a 0x06 addr 1 v"
    "write_address_is_valid a"
proof -
  show *: "write_address_is_valid a" "r = finish_request a 0x06 addr 1 v"
    using assms(1) by (auto simp: mbrtum_build_write_single_register_request_def build_fixed_request_def split: if_splits)
  show "well_built a cap r ([0x06] @ write_be16 addr @ write_be16 v) adu"
    using assms(1) * by (intro fixed_built [where q = 1 and v = v])
      (auto simp: mbrtum_build_write_single_register_request_def validate_request_function_def split: if_splits)
qed

lemma mask_write_built:
  assumes "mbrtum_build_mask_write_register_request a addr am om (Some cap) = Inr (r, adu)"
  shows "well_built a cap r ([0x16] @ write_be16 addr @ write_be16 am @ write_be16 om) adu"
    "r = finish_request a 0x16 addr am om" "write_address_is_valid a"
proof -
  show *: "write_address_is_valid a" "r = finish_request a 0x16 addr am om"
    using assms(1) by (auto simp: mbrtum_build_mask_write_register_request_def split: if_splits)
  show "well_built a cap r ([0x16] @ write_be16 addr @ write_be16 am @ write_be16 om) adu"
    using assms * write_address_bounds [OF *(1)]
    by (intro well_builtI) (auto simp: mbrtum_build_mask_write_register_request_def request_fields_match_def
        validate_request_function_def frame_fields split: if_splits)
qed

text \<open>The packed bits of FC0F with the padding of the last byte cleared.\<close>

definition cleared_padding :: "u16 \<Rightarrow> bytes \<Rightarrow> bytes" where
  "cleared_padding q packed =
     (let n = (unat q + 7) div 8; payload = take n packed in
      if unat q mod 8 \<noteq> 0 then payload[n - 1 := payload ! (n - 1) AND (push_bit (unat q mod 8) 1 - 1)]
      else payload)"

lemma cleared_padding_length:
  "(unat q + 7) div 8 \<le> length packed \<Longrightarrow> length (cleared_padding q packed) = (unat q + 7) div 8"
  by (simp add: cleared_padding_def Let_def)

lemma write_coils_built:
  assumes "mbrtum_build_write_multiple_coils_request a start q (Some packed) (Some cap) = Inr (r, adu)"
    "(unat q + 7) div 8 \<le> length packed"
  defines "pdu \<equiv> [0x0F] @ write_be16 start @ write_be16 q @ [of_nat ((unat q + 7) div 8)] @ cleared_padding q packed"
  shows "well_built a cap r pdu adu" "r = finish_request a 0x0F start q 0" "write_address_is_valid a"
    "q \<noteq> 0" "q \<le> 1968"
proof -
  show *: "write_address_is_valid a" "r = finish_request a 0x0F start q 0" "q \<noteq> 0" "q \<le> 1968"
    using assms(1) by (auto simp: mbrtum_build_write_multiple_coils_request_def Let_def not_less split: if_splits)
  have n: "unat q \<le> 1968" using *(4) by (simp add: word_le_nat_alt)
  have len: "length pdu = 6 + (unat q + 7) div 8"
    using cleared_padding_length [OF assms(2)] by (simp add: pdu_def)
  have adu: "adu = append_crc (a # pdu)" "9 + (unat q + 7) div 8 \<le> cap" "address_range_is_valid start q"
    using assms(1) by (auto simp: mbrtum_build_write_multiple_coils_request_def Let_def pdu_def cleared_padding_def
        not_less split: if_splits)
  have "length pdu \<le> 253" "length pdu + 3 \<le> cap" using len n adu(2) by linarith+
  then show "well_built a cap r pdu adu"
    using adu(1,3) * write_address_bounds [OF *(1)]
    by (intro well_builtI) (auto simp: pdu_def request_fields_match_def validate_request_function_def)
qed

lemma enc_take_length: "n \<le> length vs \<Longrightarrow> length (concat (map write_be16 (take n vs))) = 2 * n"
  by (simp add: be.length_enc_list)

lemma write_registers_built:
  assumes "mbrtum_build_write_multiple_registers_request a start q (Some vs) (Some cap) = Inr (r, adu)"
    "unat q \<le> length vs"
  defines "pdu \<equiv> [0x10] @ write_be16 start @ write_be16 q @ [of_nat (unat q * 2)] @
     concat (map write_be16 (take (unat q) vs))"
  shows "well_built a cap r pdu adu" "r = finish_request a 0x10 start q 0" "write_address_is_valid a"
    "q \<noteq> 0" "q \<le> 123"
proof -
  show *: "write_address_is_valid a" "r = finish_request a 0x10 start q 0" "q \<noteq> 0" "q \<le> 123"
    using assms(1) by (auto simp: mbrtum_build_write_multiple_registers_request_def Let_def not_less split: if_splits)
  have n: "unat q \<le> 123" using *(4) by (simp add: word_le_nat_alt)
  have adu: "adu = append_crc (a # pdu)" "9 + unat q * 2 \<le> cap" "address_range_is_valid start q"
    using assms(1) by (auto simp: mbrtum_build_write_multiple_registers_request_def Let_def pdu_def not_less
        split: if_splits)
  have "length pdu = 6 + 2 * unat q" using enc_take_length [OF assms(2)] by (simp add: pdu_def)
  then have "length pdu \<le> 253" "length pdu + 3 \<le> cap" using n adu(2) by linarith+
  then show "well_built a cap r pdu adu"
    using adu(1,3) * write_address_bounds [OF *(1)]
    by (intro well_builtI) (auto simp: pdu_def request_fields_match_def validate_request_function_def)
qed

lemma range_u32: "address_range_is_valid s q \<Longrightarrow> \<not> (ucast s :: u32) + ucast q > 65536"
  by (simp add: address_range_is_valid_def not_less)

lemma read_write_built:
  assumes "mbrtum_build_read_write_multiple_registers_request a rs rq ws wq (Some vs) (Some cap) = Inr (r, adu)"
    "unat wq \<le> length vs"
  defines "pdu \<equiv> [0x17] @ write_be16 rs @ write_be16 rq @ write_be16 ws @ write_be16 wq @ [of_nat (unat wq * 2)] @
     concat (map write_be16 (take (unat wq) vs))"
  shows "well_built a cap r pdu adu"
    "r = (finish_request a 0x17 rs rq 0)\<lparr>rq_write_start_address := ws, rq_write_quantity := wq\<rparr>"
    "unicast_address_is_valid a" "rq \<noteq> 0" "rq \<le> 125"
proof -
  show *: "unicast_address_is_valid a"
    "r = (finish_request a 0x17 rs rq 0)\<lparr>rq_write_start_address := ws, rq_write_quantity := wq\<rparr>"
    "rq \<noteq> 0" "rq \<le> 125"
    using assms(1) by (auto simp: mbrtum_build_read_write_multiple_registers_request_def Let_def not_less
        split: if_splits)
  have q: "wq \<noteq> 0" "wq \<le> 121" "adu = append_crc (a # pdu)" "13 + unat wq * 2 \<le> cap"
    "address_range_is_valid rs rq" "address_range_is_valid ws wq"
    using assms(1) by (auto simp: mbrtum_build_read_write_multiple_registers_request_def Let_def pdu_def not_less
        split: if_splits)
  have n: "unat wq \<le> 121" using q(2) by (simp add: word_le_nat_alt)
  have len: "length pdu = 10 + 2 * unat wq" using enc_take_length [OF assms(2)] by (simp add: pdu_def)
  have fields: "pdu ! 0 = 0x17" "read_be16 pdu 1 = rs" "read_be16 pdu 3 = rq" "read_be16 pdu 5 = ws" "read_be16 pdu 7 = wq"
    "unat (pdu ! 9) = unat wq * 2"
    using n unat_of_nat_u8 [of "unat wq * 2"]
    by (simp_all add: pdu_def write_be16_def [of wq] write_be16_def [of ws] write_be16_def [of rq]
        write_be16_def [of rs] del: of_nat_mult) (simp_all add: read_be16_def join_split_u16)
  have "request_fields_match r (rtu_frame a pdu)"
    using * q n len fields unicast_bounds [OF *(1)] range_u32 [OF q(5)] range_u32 [OF q(6)]
    by (simp add: request_fields_match_def frame_fields not_less)
  moreover have "length pdu \<le> 253" "length pdu + 3 \<le> cap" using len n q(4) by linarith+
  ultimately show "well_built a cap r pdu adu"
    using * q fields len unicast_bounds [OF *(1)]
    by (intro well_builtI) (auto simp: validate_request_function_def)
qed

text \<open>File record requests: what the builder sums up is what the checks count again.\<close>

lemma file_read_subrequest_fields:
  "length (file_read_subrequest q) = 7" "(file_read_subrequest q @ rest) ! 0 = 6"
  "read_be16 (file_read_subrequest q @ rest) 1 = fr_file_number q"
  "read_be16 (file_read_subrequest q @ rest) 3 = fr_record_number q"
  "read_be16 (file_read_subrequest q @ rest) 5 = fr_record_length q"
  by (simp_all add: file_read_subrequest_def)

lemma file_read_sizes_count:
  "file_read_sizes l qs = Inr tot \<Longrightarrow>
   read_subrequest_sizes l n (concat (map file_read_subrequest qs)) = Some (tot, n + length qs) \<and>
   l + 4 * length qs \<le> tot \<and> (l \<le> 245 \<longrightarrow> tot \<le> 245) \<and> even (tot + l)"
proof (induction qs arbitrary: l n)
  case Nil
  then show ?case by (simp add: read_subrequest_sizes.simps)
next
  case (Cons q qs)
  let ?k = "2 + unat (fr_record_length q) * 2"
  have q: "fr_file_number q \<noteq> 0" "file_record_range_is_valid (fr_record_number q) (fr_record_length q)"
    "?k \<le> 245 - l" "file_read_sizes (l + ?k) qs = Inr tot"
    using Cons.prems by (auto simp: Let_def not_less split: if_splits)
  have "0 < unat (fr_record_length q)"
    using q(2) by (auto simp: file_record_range_is_valid_def unat_gt_0)
  moreover note Cons.IH [OF q(4), of "n + 1"]
  moreover have "read_subrequest_sizes l n (concat (map file_read_subrequest (q # qs))) =
      read_subrequest_sizes (l + ?k) (n + 1) (concat (map file_read_subrequest qs))"
    using q file_read_subrequest_fields(1) [of q]
      file_read_subrequest_fields(2-5) [of q "concat (map file_read_subrequest qs)"]
    by (subst read_subrequest_sizes.simps) (auto simp: Let_def not_less file_read_subrequest_def)
  ultimately show ?case using q(3) by auto
qed

lemma read_file_built:
  assumes "mbrtum_build_read_file_record_request a (Some qs) (Some cap) = Inr (r, adu)"
  defines "pdu \<equiv> [0x14, of_nat (length qs * 7)] @ concat (map file_read_subrequest qs)"
  shows "well_built a cap r pdu adu"
proof -
  obtain tot where *: "file_read_sizes 0 qs = Inr tot" "0 < length qs" "length qs \<le> 35" "length qs * 7 + 5 \<le> cap"
    "r = finish_request a 0x14 (of_nat (length qs * 7)) (of_nat tot) (of_nat (length qs))"
    "adu = append_crc (a # pdu)" "unicast_address_is_valid a"
    using assms(1) by (auto simp: mbrtum_build_read_file_record_request_def pdu_def Let_def not_less
        split: if_splits sum.splits)
  have tot: "read_subrequest_sizes 0 0 (concat (map file_read_subrequest qs)) = Some (tot, length qs)"
    "4 * length qs \<le> tot" "tot \<le> 245" "even tot"
    using file_read_sizes_count [OF *(1), of 0] by auto
  have "4 \<le> tot" using tot(2) *(2) by linarith
  have len: "length pdu = 2 + length qs * 7"
    using length_concat_map_const [of qs file_read_subrequest 7]
    by (simp add: pdu_def file_read_subrequest_fields(1))
  have small: "length qs * 7 < 256" using *(3) by simp
  have u: "unat (of_nat (length qs * 7) :: u16) = length qs * 7" "unat (of_nat tot :: u16) = tot"
    "unat (of_nat (length qs) :: u16) = length qs"
    using small tot(3) *(3) by (simp_all del: of_nat_mult)
  have cast: "(ucast (of_nat (length qs * 7) :: u16) :: u8) = of_nat (length qs * 7)"
    by (rule ucast_of_nat_u8)
  have word: "\<not> (of_nat (length qs * 7) :: u16) < 7" "\<not> (of_nat (length qs * 7) :: u16) > 245"
    "(of_nat (length qs * 7) :: u16) mod 7 = 0" "\<not> (of_nat tot :: u16) < 4" "\<not> (of_nat tot :: u16) > 245"
    "(of_nat tot :: u16) mod 2 = 0" "(of_nat (length qs) :: u16) \<noteq> 0" "\<not> (of_nat (length qs) :: u16) > 35"
    "(of_nat (length qs) :: u16) = of_nat (length qs * 7) div 7"
    using u tot *(2,3) \<open>4 \<le> tot\<close>
    by (simp_all add: word_less_nat_alt word_unat_eq_iff unat_mod unat_div del: of_nat_mult)
  have data: "request_data (rtu_frame a pdu) = concat (map file_read_subrequest qs)"
    using frame_request_data [of a "0x14" "of_nat (length qs * 7)"] by (simp add: pdu_def)
  have p: "pdu ! 0 = 0x14" "pdu ! 1 = of_nat (length qs * 7)" "pdu \<noteq> []" by (simp_all add: pdu_def)
  have "request_fields_match r (rtu_frame a pdu)"
    using word u len data tot(1) p cast unicast_bounds [OF *(7)] unfolding *(5)
    by (simp add: request_fields_match_def frame_fields del: of_nat_mult)
  moreover have "original_request_adu_is_valid r (Some (rtu_frame a pdu))"
    using len data tot(1) p u cast small *(3) rtu_frame_crc [of a pdu] unfolding *(5)
    by (simp add: original_request_adu_is_valid_def frame_fields del: of_nat_mult)
  moreover have "validate_request_function r = None"
    using word unfolding *(5) by (simp add: validate_request_function_def Let_def del: of_nat_mult)
  ultimately show ?thesis
    using * p len unicast_bounds [OF *(7)] by (intro well_builtI) (simp_all del: of_nat_mult)
qed

lemma file_write_subrequest_fields:
  "(file_write_subrequest q @ rest) ! 0 = 6"
  "read_be16 (file_write_subrequest q @ rest) 1 = wf_file_number q"
  "read_be16 (file_write_subrequest q @ rest) 3 = wf_record_number q"
  "read_be16 (file_write_subrequest q @ rest) 5 = wf_record_length q"
  by (simp_all add: file_write_subrequest_def)

lemma file_write_subrequest_length:
  "wf_record_data q = Some d \<Longrightarrow> unat (wf_record_length q) \<le> length d \<Longrightarrow>
   length (file_write_subrequest q) = 7 + unat (wf_record_length q) * 2"
  by (simp add: file_write_subrequest_def enc_take_length)

lemma file_write_sizes_count:
  assumes "file_write_sizes l qs = Inr tot" "arguments_ok (Write_File_Record qs)"
  shows "write_subrequest_count n (concat (map file_write_subrequest qs)) = Some (n + length qs) \<and>
    length (concat (map file_write_subrequest qs)) = tot - l \<and> l + 9 * length qs \<le> tot \<and> (l \<le> 251 \<longrightarrow> tot \<le> 251)"
  using assms
proof (induction qs arbitrary: l n)
  case Nil
  then show ?case by (simp add: write_subrequest_count.simps)
next
  case (Cons q qs)
  let ?k = "7 + unat (wf_record_length q) * 2"
  obtain d where q: "wf_file_number q \<noteq> 0" "file_record_range_is_valid (wf_record_number q) (wf_record_length q)"
    "?k \<le> 251 - l" "file_write_sizes (l + ?k) qs = Inr tot" "wf_record_data q = Some d"
    using Cons.prems(1) by (auto simp: Let_def not_less split: if_splits)
  have len: "length (file_write_subrequest q) = ?k"
    using Cons.prems(2) q(5) by (intro file_write_subrequest_length [OF q(5)]) simp
  have "0 < unat (wf_record_length q)"
    using q(2) by (auto simp: file_record_range_is_valid_def unat_gt_0)
  moreover have "arguments_ok (Write_File_Record qs)" using Cons.prems(2) by simp
  moreover note Cons.IH [OF q(4) this, of "n + 1"]
  moreover have "write_subrequest_count n (concat (map file_write_subrequest (q # qs))) =
      write_subrequest_count (n + 1) (concat (map file_write_subrequest qs))"
    using q len file_write_subrequest_fields [of q "concat (map file_write_subrequest qs)"]
    by (subst write_subrequest_count.simps) (auto simp: Let_def not_less)
  ultimately show ?case using q(3) len by auto
qed

lemma write_file_built:
  assumes "mbrtum_build_write_file_record_request a (Some qs) (Some cap) = Inr (r, adu)"
    "arguments_ok (Write_File_Record qs)"
  shows "\<exists>pdu. well_built a cap r pdu adu"
proof -
  obtain tot where *: "file_write_sizes 0 qs = Inr tot" "0 < length qs" "length qs \<le> 27" "tot + 5 \<le> cap"
    "r = finish_request a 0x15 (of_nat tot) (of_nat (length qs)) 0"
    "adu = append_crc (a # [0x15, of_nat tot] @ concat (map file_write_subrequest qs))" "write_address_is_valid a"
    using assms(1) by (auto simp: mbrtum_build_write_file_record_request_def Let_def not_less
        split: if_splits sum.splits)
  define pdu where "pdu = [0x15, of_nat tot] @ concat (map file_write_subrequest qs)"
  have tot: "write_subrequest_count 0 (concat (map file_write_subrequest qs)) = Some (length qs)"
    "length (concat (map file_write_subrequest qs)) = tot" "9 * length qs \<le> tot" "tot \<le> 251"
    using file_write_sizes_count [OF *(1) assms(2), of 0] by auto
  have len: "length pdu = 2 + tot" using tot(2) by (simp add: pdu_def)
  have "9 \<le> tot" using tot(3) *(2) by linarith
  have u: "unat (of_nat tot :: u16) = tot" "unat (of_nat (length qs) :: u16) = length qs"
    using tot(4) *(3) by simp_all
  have word: "\<not> (of_nat tot :: u16) < 9" "\<not> (of_nat tot :: u16) > 251"
    "(of_nat (length qs) :: u16) \<noteq> 0" "\<not> (of_nat (length qs) :: u16) > 27"
    using u tot(4) *(2,3) \<open>9 \<le> tot\<close> by (simp_all add: word_less_nat_alt word_unat_eq_iff)
  have data: "request_data (rtu_frame a pdu) = concat (map file_write_subrequest qs)"
    using frame_request_data [of a "0x15" "of_nat tot"] by (simp add: pdu_def)
  have p: "pdu ! 0 = 0x15" "pdu ! 1 = of_nat tot" "pdu \<noteq> []" by (simp_all add: pdu_def)
  have "request_fields_match r (rtu_frame a pdu)"
    using word u len data tot(1) p ucast_of_nat_u8 [of tot] unfolding *(5)
    by (simp add: request_fields_match_def frame_fields)
  moreover have "original_request_adu_is_valid r (Some (rtu_frame a pdu))"
    using len data tot(1,4) p u ucast_of_nat_u8 [of tot] rtu_frame_crc [of a pdu] unfolding *(5)
    by (simp add: original_request_adu_is_valid_def frame_fields)
  moreover have "validate_request_function r = None"
    using word unfolding *(5) by (simp add: validate_request_function_def Let_def)
  ultimately have "well_built a cap r pdu adu"
    using * p len tot(4) write_address_bounds [OF *(7)] by (intro well_builtI) (auto simp: pdu_def)
  then show ?thesis ..
qed

lemma fifo_built:
  assumes "mbrtum_build_read_fifo_queue_request a ptr (Some cap) = Inr (r, adu)"
  shows "well_built a cap r ([0x18] @ write_be16 ptr) adu" "r = finish_request a 0x18 ptr 0 0"
    "unicast_address_is_valid a"
proof -
  show *: "r = finish_request a 0x18 ptr 0 0" "unicast_address_is_valid a"
    using assms by (auto simp: mbrtum_build_read_fifo_queue_request_def split: if_splits)
  show "well_built a cap r ([0x18] @ write_be16 ptr) adu"
    using assms * unicast_bounds [OF *(2)]
    by (intro well_builtI) (auto simp: mbrtum_build_read_fifo_queue_request_def request_fields_match_def
        validate_request_function_def frame_fields split: if_splits)
qed

lemma function_only_accepted:
  assumes "build_function_only_request a f (Some cap) = Inr (r, adu)"
  shows "r = finish_request a f 0 0 0" "adu = append_crc [a, f]" "4 \<le> cap" "unicast_address_is_valid a"
  using assms by (auto simp: build_function_only_request_def split: if_splits)

lemma function_only_built:
  assumes "build_function_only_request a f (Some cap) = Inr (r, adu)" "f = 0x07 \<or> f = 0x0B \<or> f = 0x0C"
  shows "well_built a cap r [f] adu"
proof (rule well_builtI)
  note * = function_only_accepted [OF assms(1)]
  show "request_fields_match r (rtu_frame a [f])" 
    using * assms(2) unicast_bounds [OF *(4)] by (auto simp: request_fields_match_def)
  show "rq_expects_response r = 1 \<and> unicast_address_is_valid a \<and> validate_request_function r = None"
    using * assms(2) unicast_bounds [OF *(4)] by (auto simp: validate_request_function_def)
qed (use function_only_accepted [OF assms(1)] assms(2) unicast_bounds [of a] in auto)

lemma server_id_built:
  assumes "mbrtum_build_report_server_id_request a n (Some cap) = Inr (r, adu)"
  shows "well_built a cap r [0x11] adu"
proof -
  obtain q where q: "build_function_only_request a 0x11 (Some cap) = Inr (q, adu)" "r = q\<lparr>rq_quantity := n\<rparr>"
    "n \<noteq> 0" "unat n \<le> 250"
    using assms by (auto simp: mbrtum_build_report_server_id_request_def not_less split: if_splits sum.splits)
  note * = function_only_accepted [OF q(1)]
  have r: "request_fields_match r (rtu_frame a [0x11])" "validate_request_function r = None"
    using * q(2-4) unicast_bounds [OF *(4)] by (simp_all add: request_fields_match_def validate_request_function_def)
  show ?thesis
    using * q(2) r unicast_bounds [OF *(4)] by (intro well_builtI) auto
qed

lemma ucast_u8_u16: "(ucast (ucast x :: u16) :: u8) = x" for x :: u8
  by (rule bit_word_eqI) (auto simp: bit_simps)

lemma u8_le_255: "(ucast x :: u16) \<le> 255" for x :: u8
proof -
  have "unat (ucast x :: u16) = unat x"
    using unat_u8_less [of x] by (simp add: unsigned_ucast_eq take_bit_nat_eq_self)
  then show ?thesis using unat_u8_less [of x] by (simp add: word_le_nat_alt)
qed

lemma device_id_built:
  assumes "mbrtum_build_read_device_identification_request a code obj (Some cap) = Inr (r, adu)"
  shows "well_built a cap r [0x2B, 0x0E, code, obj] adu" "r = finish_request a 0x2B (ucast code) (ucast obj) 0x0E"
    "unicast_address_is_valid a"
proof -
  show *: "r = finish_request a 0x2B (ucast code) (ucast obj) 0x0E" "unicast_address_is_valid a"
    using assms by (auto simp: mbrtum_build_read_device_identification_request_def split: if_splits)
  have code: "device_id_code_is_valid (ucast code)"
    using assms by (auto simp: mbrtum_build_read_device_identification_request_def split: if_splits)
  note ids = ucast_u8_u16 u8_le_255
  show "well_built a cap r [0x2B, 0x0E, code, obj] adu"
    using assms * unicast_bounds [OF *(2)] code ids
    by (intro well_builtI) (auto simp: mbrtum_build_read_device_identification_request_def request_fields_match_def
        validate_request_function_def frame_fields device_id_code_is_valid_def not_less not_le split: if_splits)
qed

lemma mei_built:
  assumes "mbrtum_build_mei_request a ty (Some d) (length d) (Some cap) 0 cap = Inr (r, adu)"
  shows "well_built a cap r ([0x2B, ty] @ d) adu"
proof -
  have *: "unicast_address_is_valid a" "mei_type_is_generic (ucast ty)" "length d \<le> 251" "length d + 5 \<le> cap"
    "r = finish_request a 0x2B (of_nat (length d)) 0 (ucast ty)" "adu = append_crc (a # [0x2B, ty] @ d)"
    using assms by (auto simp: mbrtum_build_mei_request_def Let_def not_less split: if_splits)
  have ty: "(ucast ty :: u16) \<noteq> 0x0E" "(ucast ty :: u16) \<noteq> 0x0D" using *(2) by (auto simp: mei_type_is_generic_def)
  have start: "\<not> (of_nat (length d) :: u16) > 251" "unat (of_nat (length d) :: u16) = length d"
    using *(3) by (simp_all add: word_less_nat_alt)
  have r: "request_fields_match r (rtu_frame a ([0x2B, ty] @ d))" "validate_request_function r = None"
    using * ty start unicast_bounds [OF *(1)] u8_le_255 [of ty]
    by (simp_all add: request_fields_match_def validate_request_function_def frame_fields ucast_u8_u16 not_less)
  show ?thesis
    using * r unicast_bounds [OF *(1)] by (intro well_builtI) auto
qed

lemma diagnostics_built:
  assumes "mbrtum_build_diagnostics_request a sub (Some d) (length d) (Some cap) = Inr (r, adu)"
  defines "pdu \<equiv> [0x08] @ write_be16 sub @ d"
  shows "well_built a cap r pdu adu"
proof -
  have *: "diagnostic_subfunction_is_supported sub" "length d \<le> 250" "even (length d)" "length d + 6 \<le> cap"
    "a = 0 \<Longrightarrow> diagnostic_subfunction_is_state_changing sub" "a \<noteq> 0 \<Longrightarrow> unicast_address_is_valid a"
    "r = (finish_request a 0x08 sub (of_nat (length d)) 0)
       \<lparr>rq_expects_response := (if a \<noteq> 0 \<and> sub \<noteq> 0x0004 then 1 else 0)\<rparr>"
    "adu = append_crc (a # pdu)"
    "sub \<noteq> 0 \<Longrightarrow> length d = 2"
    "sub \<noteq> 0 \<Longrightarrow> (if sub = 1 then read_be16 d 0 = 0 \<or> read_be16 d 0 = 0xFF00 else read_be16 d 0 = 0)"
    using assms(1) by (auto simp: mbrtum_build_diagnostics_request_def Let_def not_less pdu_def even_iff_mod_2_eq_zero
        split: if_splits)
  have a: "a \<le> 247" "a \<noteq> 0 \<Longrightarrow> unicast_address_is_valid a" using *(6) unicast_bounds [of a] by (cases "a = 0"; simp)+
  have q: "unat (of_nat (length d) :: u16) = length d" "\<not> (of_nat (length d) :: u16) > 250"
    "(of_nat (length d) :: u16) mod 2 = 0" "sub \<noteq> 0 \<Longrightarrow> (of_nat (length d) :: u16) = 2"
    using *(2,3,9) by (auto simp: word_less_nat_alt word_unat_eq_iff unat_mod)
  have p: "pdu ! 0 = 0x08" "read_be16 pdu 1 = sub" "length pdu = 3 + length d" "pdu \<noteq> []"
    "sub \<noteq> 0 \<Longrightarrow> read_be16 pdu 3 = read_be16 d 0"
    using *(9) by (simp_all add: pdu_def)
  have data: "sub \<noteq> 0 \<Longrightarrow> read_be16 (rtu_frame a pdu) 4 = read_be16 d 0"
    using p *(9) by (simp add: frame_be16)
  have fields: "request_fields_match r (rtu_frame a pdu)"
    using * q p data by (auto simp: request_fields_match_def frame_fields)
  have orig: "original_request_adu_is_valid r (Some (rtu_frame a pdu))"
    using * q p data rtu_frame_crc [of a pdu]
    by (auto simp: original_request_adu_is_valid_def frame_fields)
  have "validate_request_function r = None"
    using * q by (simp add: validate_request_function_def Let_def)
  with fields orig show ?thesis
    using * p a by (intro well_builtI) (auto split: if_splits)
qed

lemma builders_well_built:
  assumes "build_request a c cap = Inr (r, adu)" "arguments_ok c"
  shows "\<exists>pdu. well_built a cap r pdu adu"
  using assms by (cases c)
    (auto simp: mbrtum_build_read_exception_status_request_def mbrtum_build_get_comm_event_counter_request_def
      mbrtum_build_get_comm_event_log_request_def
      dest: read_bits_built(1) read_registers_built(1) write_single_coil_built(1) write_single_register_built(1)
      mask_write_built(1) write_coils_built(1) write_registers_built(1) read_write_built(1) read_file_built
      write_file_built fifo_built(1) mei_built device_id_built(1) function_only_built server_id_built
      diagnostics_built)

lemma well_built_matches:
  assumes "well_built a cap r pdu adu"
  shows "request_adu_matches_descriptor r adu"
proof -
  have "request_adu_matches_descriptor r (rtu_frame (rq_slave_address r) pdu)"
    using assms by (intro matches_frame) (auto simp: well_built_def)
  then show ?thesis using assms by (simp add: well_built_def)
qed

text \<open>
  Every builder makes requests the rest of the master accepts. Whatever builder is
  called with whatever arguments, when it succeeds the frame fits the buffer, is at most 256
  bytes long, is addressed to the slave, has a valid CRC and carries a nonempty PDU with the
  function code of the descriptor; the transaction layer accepts frame and descriptor; and
  unless no response is expected, responses can be validated against them.
\<close>

lemma built_requests_accepted:
  assumes "build_request a c cap = Inr (r, adu)" "arguments_ok c"
  shows "\<exists>pdu. adu = rtu_frame a pdu \<and> pdu \<noteq> [] \<and> length adu \<le> min cap 256 \<and> mb_crc16 adu = 0 \<and>
    rq_slave_address r = a \<and> rq_function r = pdu ! 0 \<and> request_adu_matches_descriptor r adu \<and>
    (rq_expects_response r \<noteq> 0 \<longrightarrow> validate_request_descriptor r = None \<and>
       (pdu ! 0 \<in> {0x08, 0x14, 0x15} \<longrightarrow> original_request_adu_is_valid r (Some adu)))"
proof -
  obtain pdu where b: "well_built a cap r pdu adu" using builders_well_built [OF assms] ..
  with well_built_matches [OF b] show ?thesis
    by (auto simp: well_built_def rtu_frame_crc intro!: exI [of _ pdu])
qed

end
