(* ===== verification/Master_Slave.thy ===== *)
theory Master_Slave
  imports Master_Exchange Rtu_Link
begin

text \<open>
  Master and slave of the repository talk to each other: a request built by the master for
  the data functions (FC01 to FC06, FC15, FC16, FC22, FC23), processed by the slave, comes
  back as a frame that the response validation of the master accepts, either as the normal
  answer or as an exception; and what the accessors of the master then return is what the
  slave holds. \<open>Interop\<close> adds the other functions.
\<close>

section \<open>Framed answers\<close>

lemma validated_function:
  assumes "validate_request_function r = None"
  shows "rq_function r OR 0x80 \<noteq> rq_function r"
proof -
  have "rq_function r \<in> set [0x01, 0x02, 0x03, 0x04, 0x05, 0x06, 0x0F, 0x10, 0x16, 0x14, 0x15, 0x17, 0x07,
      0x0B, 0x0C, 0x11, 0x18, 0x2B, 0x08]"
    using assms by (auto simp: validate_request_function_def Let_def split: if_splits)
  then show ?thesis by auto
qed

lemma well_built_validates:
  assumes "well_built a cap r pdu adu" "rq_expects_response r \<noteq> 0"
  shows "validate_request_descriptor r = None" "unicast_address_is_valid a" "rq_function r OR 0x80 \<noteq> rq_function r"
    "rq_function r = pdu ! 0" "rq_slave_address r = a"
    "\<not> ((rq_function r = 0x08 \<or> rq_function r = 0x14 \<or> rq_function r = 0x15) \<and>
        \<not> original_request_adu_is_valid r (Some adu))"
proof -
  show v: "validate_request_descriptor r = None" "rq_function r = pdu ! 0" "rq_slave_address r = a"
    "\<not> ((rq_function r = 0x08 \<or> rq_function r = 0x14 \<or> rq_function r = 0x15) \<and>
        \<not> original_request_adu_is_valid r (Some adu))"
    using assms by (auto simp: well_built_def)
  show "unicast_address_is_valid a"
    using v(1,3) by (simp add: validate_request_descriptor_def split: if_splits)
  show "rq_function r OR 0x80 \<noteq> rq_function r"
    using v(1) by (intro validated_function) (simp add: validate_request_descriptor_def split: if_splits)
qed

lemma framed_exception:
  assumes "well_built a cap r pdu adu" "rq_expects_response r \<noteq> 0" "e \<noteq> 0"
  shows "mbrtum_process_response_with_request_adu (Some r) (Some adu) (Some (rtu_frame a [pdu ! 0 OR 0x80, e])) =
    MBRTUM_EXCEPTION_RESPONSE \<lparr>rs_function = pdu ! 0, rs_exception_code = e, rs_data = None\<rparr>"
  using assms(3) well_built_validates [OF assms(1,2)]
  by (simp add: mbrtum_process_response_with_request_adu_def rtu_frame_crc frame_nth)

lemma framed_answer:
  assumes "well_built a cap r pdu adu" "rq_expects_response r \<noteq> 0" "2 \<le> length rsp" "length rsp \<le> 253"
    "rsp ! 0 = pdu ! 0"
  shows "mbrtum_process_response_with_request_adu (Some r) (Some adu) (Some (rtu_frame a rsp)) =
    check_normal_response r adu (rtu_frame a rsp)"
proof -
  have "rsp \<noteq> []" using assms(3) by auto
  then show ?thesis
    using assms(3-5) well_built_validates [OF assms(1,2)]
    by (auto simp: mbrtum_process_response_with_request_adu_def rtu_frame_crc)
qed

section \<open>The answers of the data functions pass validation\<close>

lemma frame_slice:
  "Suc off + n \<le> Suc (length pdu) \<Longrightarrow> adu_slice (Suc off) n (rtu_frame a pdu) = take n (drop off pdu)"
  by (simp add: adu_slice_def rtu_frame_def)

lemma last_byte_index:
  assumes "(n :: nat) mod 8 \<noteq> 0"
  shows "(n + 7) div 8 = n div 8 + 1"
proof -
  define m k where "m = n div 8" and "k = n mod 8"
  have n: "n = 8 * m + k" "0 < k" "k < 8" using assms by (simp_all add: m_def k_def)
  have "(8 * m + k + 7) div 8 = m + 1" using n(2,3) by (intro div_nat_eqI) auto
  then show ?thesis by (simp only: n(1) [symmetric] m_def [symmetric])
qed

lemma padding_zero:
  assumes "0 < unat q" "unat q mod 8 \<noteq> 0"
  shows "pack_bits f (unat q) ! ((unat q + 7) div 8 - 1) AND NOT (push_bit (unat q mod 8) 1 - 1) = 0"
proof -
  let ?n = "unat q" let ?k = "(?n + 7) div 8 - 1"
  have k: "?k < (?n + 7) div 8" "8 * ?k + ?n mod 8 = ?n" using last_byte_index [OF assms(2)] by simp_all
  have mask: "(push_bit (?n mod 8) 1 - 1 :: u8) = mask (?n mod 8)"
    by (simp add: mask_eq_exp_minus_1 push_bit_eq_mult)
  show ?thesis
    unfolding mask
  proof (rule bit_word_eqI)
    fix j assume "j < LENGTH(8)"
    then have j: "j < 8" by simp
    have "\<not> (bit (pack_bits f ?n ! ?k) j \<and> \<not> j < ?n mod 8)"
      using pack_bits_bit [OF k(1) j, of f] k(2) by auto
    with j show "bit (pack_bits f ?n ! ?k AND NOT (mask (?n mod 8))) j = bit (0 :: u8) j"
      by (auto simp: bit_simps)
  qed
qed

lemma packed_response_ok:
  assumes "q \<noteq> 0" "q \<le> 2000" "rq_quantity r = q"
  shows "check_read_bits r (rtu_frame a ([f, of_nat ((unat q + 7) div 8)] @ pack_bits g (unat q))) =
    ok_response r (Some (pack_bits g (unat q)))"
proof -
  let ?n = "(unat q + 7) div 8" let ?rsp = "[f, of_nat ?n] @ pack_bits g (unat q)"
  have n: "0 < unat q" "unat q \<le> 2000" using assms by (simp_all add: word_le_nat_alt unat_gt_0)
  then have small: "?n < 256" by linarith
  have slice: "adu_slice 3 ?n (rtu_frame a ?rsp) = pack_bits g (unat q)"
    using frame_slice [of 2 ?n ?rsp a] by simp
  have count: "unat (rtu_frame a ?rsp ! 2) = ?n"
    using small unat_of_nat_u8 [of ?n] by (simp add: frame_nth)
  have "0 < length (pack_bits g (unat q))" using n(1) by (simp add: div_greater_zero_iff)
  then have "pack_bits g (unat q) \<noteq> []" by (rule length_greater_0_conv [THEN iffD1])
  then have "packed_bit_padding_is_zero (pack_bits g (unat q)) q"
    using padding_zero [of q g] n by (auto simp: packed_bit_padding_is_zero_def Let_def)
  then show ?thesis
    using assms(3) slice count by (simp add: check_read_bits_def Let_def)
qed

lemma registers_response_ok:
  assumes "q \<le> 125" "rq_quantity r = q" "length ws = unat q"
  shows "check_read_registers r (rtu_frame a ([f, of_nat (unat q * 2)] @ concat (map write_be16 ws))) =
    ok_response r (Some (concat (map write_be16 ws)))"
proof -
  let ?d = "concat (map write_be16 ws)" let ?rsp = "[f, of_nat (unat q * 2)] @ ?d"
  have small: "unat q * 2 < 256" using assms(1) by (simp add: word_le_nat_alt)
  have len: "length ?d = unat q * 2" using assms(3) be.length_enc_list [of ws] by simp
  have "adu_slice 3 (unat q * 2) (rtu_frame a ?rsp) = ?d"
    using frame_slice [of 2 "unat q * 2" ?rsp a] len by simp
  moreover have "unat (rtu_frame a ?rsp ! 2) = unat q * 2"
    using small unat_of_nat_u8 [of "unat q * 2"] by (simp add: frame_nth del: of_nat_mult)
  ultimately show ?thesis
    using assms(2) len by (simp add: check_read_registers_def Let_def)
qed

lemma ack_response_ok:
  "rq_start_address r = addr \<Longrightarrow>
   check_write_ack r v (rtu_frame a ([f] @ write_be16 addr @ write_be16 v)) = ok_response r None"
  by (simp add: check_write_ack_def frame_be16)

lemma mask_response_ok:
  "rq_start_address r = addr \<Longrightarrow> rq_quantity r = am \<Longrightarrow> rq_value r = om \<Longrightarrow>
   check_mask_write r (rtu_frame a ([f] @ write_be16 addr @ write_be16 am @ write_be16 om)) = ok_response r None"
  by (simp add: check_mask_write_def frame_be16)

section \<open>Data requests\<close>

fun data_call :: "master_call \<Rightarrow> bool" where
  "data_call (Read_Bits f start q) = True"
| "data_call (Read_Registers f start q) = True"
| "data_call (Write_Single_Coil addr v) = True"
| "data_call (Write_Single_Register addr v) = True"
| "data_call (Mask_Write_Register addr am om) = True"
| "data_call (Write_Multiple_Coils start q packed) = True"
| "data_call (Write_Multiple_Registers start q vs) = True"
| "data_call (Read_Write_Registers rs rq ws wq vs) = True"
| "data_call _ = False"

text \<open>
  \<open>understood\<close>: the request is well built and every normal answer the PDU server gives to it
  passes the validation of the master.
\<close>

definition understood :: "u8 \<Rightarrow> nat \<Rightarrow> mbrtum_request \<Rightarrow> bytes \<Rightarrow> bytes \<Rightarrow> bool" where
  "understood a cap r pdu adu \<longleftrightarrow> well_built a cap r pdu adu \<and>
     pdu ! 0 \<notin> {0x07, 0x08, 0x0B, 0x0C, 0x11} \<and>
     (\<forall>call m n rsp m'. mb_wf m \<longrightarrow> process_pdu_function call m pdu n = (Inr rsp, m') \<longrightarrow>
        (\<exists>d. check_normal_response r adu (rtu_frame a rsp) = ok_response r d))"

lemma understoodI:
  assumes "well_built a cap r pdu adu" "pdu ! 0 \<notin> {0x07, 0x08, 0x0B, 0x0C, 0x11}"
    "\<And>call m n rsp m'. mb_wf m \<Longrightarrow> process_pdu_function call m pdu n = (Inr rsp, m') \<Longrightarrow>
       check_normal_response r adu (rtu_frame a rsp) = ok_response r (d rsp)"
  shows "understood a cap r pdu adu"
  using assms unfolding understood_def by blast

lemma understood_ackI:
  assumes "well_built a cap r pdu adu" "pdu ! 0 \<notin> {0x07, 0x08, 0x0B, 0x0C, 0x11}"
    "\<And>call m n rsp m'. process_pdu_function call m pdu n = (Inr rsp, m') \<Longrightarrow> rsp = ack"
    "check_normal_response r adu (rtu_frame a ack) = ok_response r None"
  shows "understood a cap r pdu adu"
  using assms(1,2)
proof (rule understoodI)
  fix call n rsp and m m' :: mb_state
  assume "process_pdu_function call m pdu n = (Inr rsp, m')"
  then have "rsp = ack" by (rule assms(3))
  then show "check_normal_response r adu (rtu_frame a rsp) = ok_response r None" using assms(4) by simp
qed

lemma map_enc_get: "concat (map (\<lambda>i. write_be16 (g i)) xs) = concat (map write_be16 (map g xs))"
  by (simp add: comp_def)

lemma read_bits_understood:
  assumes "mbrtum_build_read_bits_request a f start q (Some cap) = Inr (r, adu)"
  shows "understood a cap r ([f] @ write_be16 start @ write_be16 q) adu"
proof -
  let ?pdu = "[f] @ write_be16 start @ write_be16 q"
  note b = read_bits_built [OF assms]
  show ?thesis
  proof (rule understoodI [OF b(1), where d = "\<lambda>rsp. Some (drop 2 rsp)"])
    fix call n rsp and m m' :: mb_state
    let ?g = "\<lambda>i. if f = 0x01 then mb_get_coil (banks m) (start + of_nat i) else mb_get_dinput (banks m) (start + of_nat i)"
    assume "process_pdu_function call m ?pdu n = (Inr rsp, m')"
    then have "process_read_bits (banks m) ?pdu n = Inr rsp"
      using b(3) by (auto simp: process_pdu_function_def)
    then have "rsp = [f, of_nat ((unat q + 7) div 8)] @ pack_bits ?g (unat q)"
      by (simp add: process_read_bits_def Let_def split: if_splits)
    then show "check_normal_response r adu (rtu_frame a rsp) = ok_response r (Some (drop 2 rsp))"
      using packed_response_ok [OF b(4,5), of r a f ?g] b(2,3) by (auto simp: check_normal_response_def)
  qed (use b(3) in auto)
qed

lemma read_registers_understood:
  assumes "mbrtum_build_read_registers_request a f start q (Some cap) = Inr (r, adu)"
  shows "understood a cap r ([f] @ write_be16 start @ write_be16 q) adu"
proof -
  let ?pdu = "[f] @ write_be16 start @ write_be16 q"
  note b = read_registers_built [OF assms]
  show ?thesis
  proof (rule understoodI [OF b(1), where d = "\<lambda>rsp. Some (drop 2 rsp)"])
    fix call n rsp and m m' :: mb_state
    let ?ws = "map (\<lambda>i. if f = 0x03 then mb_get_hreg (banks m) (start + of_nat i)
      else mb_get_ireg (banks m) (start + of_nat i)) [0..<unat q]"
    assume "process_pdu_function call m ?pdu n = (Inr rsp, m')"
    then have "process_read_registers (banks m) ?pdu n = Inr rsp"
      using b(3) by (auto simp: process_pdu_function_def)
    then have "rsp = [f, of_nat (unat q * 2)] @ concat (map write_be16 ?ws)"
      by (simp add: process_read_registers_def Let_def comp_def split: if_splits)
    then show "check_normal_response r adu (rtu_frame a rsp) = ok_response r (Some (drop 2 rsp))"
      using registers_response_ok [OF b(5), of r ?ws a f] b(2,3) by (auto simp: check_normal_response_def)
  qed (use b(3) in auto)
qed

lemma single_write_understood:
  assumes "well_built a cap r pdu adu" "r = finish_request a f addr 1 v" "f = 0x05 \<or> f = 0x06"
    "pdu = [f] @ write_be16 addr @ write_be16 v"
  shows "understood a cap r pdu adu"
proof -
  have "rsp = pdu" if "process_pdu_function call m pdu n = (Inr rsp, m')" for call m n rsp m'
    using that assms(3,4) by (auto simp: process_pdu_function_def with_banks_def process_write_single_coil_def
        process_write_single_register_def Let_def split: if_splits)
  moreover have "check_normal_response r adu (rtu_frame a pdu) = ok_response r None"
    using assms(2-4) ack_response_ok [of r addr v a f] by (auto simp: check_normal_response_def)
  ultimately show ?thesis
    using assms(3,4) by (intro understood_ackI [OF assms(1), where ack = pdu]) auto
qed

lemma mask_write_understood:
  assumes "mbrtum_build_mask_write_register_request a addr am om (Some cap) = Inr (r, adu)"
  shows "understood a cap r ([0x16] @ write_be16 addr @ write_be16 am @ write_be16 om) adu"
proof -
  let ?pdu = "[0x16] @ write_be16 addr @ write_be16 am @ write_be16 om :: bytes"
  note b = mask_write_built [OF assms]
  have "rsp = ?pdu" if "process_pdu_function call m ?pdu n = (Inr rsp, m')" for call m n rsp m'
    using that by (auto simp: process_pdu_function_def with_banks_def process_mask_write_register_def Let_def
        split: if_splits)
  moreover have "check_normal_response r adu (rtu_frame a ?pdu) = ok_response r None"
    using b(2) mask_response_ok [of r addr am om a "0x16"] by (simp add: check_normal_response_def)
  ultimately show ?thesis
    by (intro understood_ackI [OF b(1), where ack = ?pdu]) auto
qed

lemma multiple_write_understood:
  assumes "well_built a cap r pdu adu" "r = finish_request a f start q 0" "f = 0x0F \<or> f = 0x10"
    "pdu = [f] @ write_be16 start @ write_be16 q @ rest"
  shows "understood a cap r pdu adu"
proof -
  have "rsp = [f] @ write_be16 start @ write_be16 q"
    if "process_pdu_function call m pdu n = (Inr rsp, m')" for call m n rsp m'
    using that assms(3,4) by (auto simp: process_pdu_function_def with_banks_def process_write_multiple_coils_def
        process_write_multiple_registers_def Let_def split: if_splits)
  moreover have "check_normal_response r adu (rtu_frame a ([f] @ write_be16 start @ write_be16 q)) = ok_response r None"
    using assms(2,3) ack_response_ok [of r start q a f] by (auto simp: check_normal_response_def)
  ultimately show ?thesis
    using assms(3,4) by (intro understood_ackI [OF assms(1)]) auto
qed

lemma read_write_understood:
  assumes "mbrtum_build_read_write_multiple_registers_request a rs rq ws wq (Some vs) (Some cap) = Inr (r, adu)"
    "unat wq \<le> length vs"
  shows "\<exists>pdu. understood a cap r pdu adu"
proof -
  let ?rest = "write_be16 ws @ write_be16 wq @ [of_nat (unat wq * 2)] @ concat (map write_be16 (take (unat wq) vs))"
  let ?pdu = "[0x17] @ write_be16 rs @ write_be16 rq @ ?rest"
  note b = read_write_built [OF assms]
  have "understood a cap r ?pdu adu"
  proof (rule understoodI [where d = "\<lambda>rsp. Some (drop 2 rsp)"])
    fix call n rsp and m m' :: mb_state
    assume "process_pdu_function call m ?pdu n = (Inr rsp, m')"
    then have "process_read_write_registers (banks m) ?pdu n = (Inr rsp, banks m')"
      by (auto simp: process_pdu_function_def with_banks_def split: prod.splits)
    then obtain t where "rsp = [0x17, of_nat (unat rq * 2)] @
        concat (map write_be16 (map (\<lambda>i. mb_get_hreg t (rs + of_nat i)) [0..<unat rq]))"
      by (auto simp: process_read_write_registers_def Let_def comp_def simp del: of_nat_mult split: if_splits)
    then show "check_normal_response r adu (rtu_frame a rsp) = ok_response r (Some (drop 2 rsp))"
      using registers_response_ok [OF b(5), of r "map (\<lambda>i. mb_get_hreg t (rs + of_nat i)) [0..<unat rq]" a "0x17"] b(2)
      by (auto simp: check_normal_response_def)
  qed (use b(1) in auto)
  then show ?thesis ..
qed

lemma data_requests_understood:
  assumes "build_request a c cap = Inr (r, adu)" "arguments_ok c" "data_call c"
  shows "\<exists>pdu. understood a cap r pdu adu"
proof (cases c)
  case (Read_Bits f start q)
  then show ?thesis using assms read_bits_understood [of a f start q cap r adu] by auto
next
  case (Read_Registers f start q)
  then show ?thesis using assms read_registers_understood [of a f start q cap r adu] by auto
next
  case (Write_Single_Coil addr v)
  then have b: "mbrtum_build_write_single_coil_request a addr v (Some cap) = Inr (r, adu)" using assms by simp
  show ?thesis using single_write_understood [OF write_single_coil_built(1,2) [OF b]] by auto
next
  case (Write_Single_Register addr v)
  then have b: "mbrtum_build_write_single_register_request a addr v (Some cap) = Inr (r, adu)" using assms by simp
  show ?thesis using single_write_understood [OF write_single_register_built(1,2) [OF b]] by auto
next
  case (Mask_Write_Register addr am om)
  then show ?thesis using assms mask_write_understood [of a addr am om cap r adu] by auto
next
  case (Write_Multiple_Coils start q packed)
  then have b: "mbrtum_build_write_multiple_coils_request a start q (Some packed) (Some cap) = Inr (r, adu)"
    "(unat q + 7) div 8 \<le> length packed" using assms by simp_all
  show ?thesis using multiple_write_understood [OF write_coils_built(1,2) [OF b]] by auto
next
  case (Write_Multiple_Registers start q vs)
  then have b: "mbrtum_build_write_multiple_registers_request a start q (Some vs) (Some cap) = Inr (r, adu)"
    "unat q \<le> length vs" using assms by simp_all
  show ?thesis using multiple_write_understood [OF write_registers_built(1,2) [OF b]] by auto
next
  case (Read_Write_Registers rs rq ws wq vs)
  then show ?thesis using assms read_write_understood [of a rs rq ws wq vs cap r adu] by auto
qed (use assms in simp_all)

section \<open>One exchange\<close>

text \<open>The outcome of one exchange with the slave: the frame it sends and what validation says.\<close>

definition exchange ::
  "mei_call \<Rightarrow> diag_policy \<Rightarrow> u8 \<Rightarrow> mbrtum_request \<Rightarrow> bytes \<Rightarrow> nat \<Rightarrow> rtu_state \<Rightarrow> response_result option \<times> rtu_state"
where
  "exchange call pol a r adu rcap s =
     (case mbrtu_process_adu_with_diagnostics call pol a (Some adu) (Some rcap) s of
        (MBRTU_RESPONSE_READY rsp, s') \<Rightarrow>
          (Some (mbrtum_process_response_with_request_adu (Some r) (Some adu) (Some rsp)), s')
      | (_, s') \<Rightarrow> (None, s'))"

lemma exchange_run:
  assumes "understood a cap r pdu adu" "a \<noteq> 0" "rq_expects_response r \<noteq> 0" "rtu_wf s" "256 \<le> rcap"
    "\<not> mbrtu_diagnostics_is_listen_only (rtu_diag s)"
  obtains (normal) rsp s' d where
      "process_pdu_function call (rtu_mb s) pdu (rcap - 3) = (Inr rsp, rtu_mb s')"
      "check_normal_response r adu (rtu_frame a rsp) = ok_response r d"
      "exchange call pol a r adu rcap s = (Some (ok_response r d), s')"
      "rtu_wf s'" "\<not> mbrtu_diagnostics_is_listen_only (rtu_diag s')"
  | (exception) e s' where
      "process_pdu_function call (rtu_mb s) pdu (rcap - 3) = (Inl e, rtu_mb s)" "1 \<le> e" "e \<le> 0x0B"
      "exchange call pol a r adu rcap s =
        (Some (MBRTUM_EXCEPTION_RESPONSE \<lparr>rs_function = rq_function r, rs_exception_code = e, rs_data = None\<rparr>), s')"
      "rtu_wf s'" "\<not> mbrtu_diagnostics_is_listen_only (rtu_diag s')" "rtu_mb s' = rtu_mb s"
proof -
  have b: "well_built a cap r pdu adu" using assms(1) by (simp add: understood_def)
  have pdu: "pdu \<noteq> []" "length pdu \<le> 253" "a \<le> 247" "adu = rtu_frame a pdu" "rq_function r = pdu ! 0"
    using b by (simp_all add: well_built_def)
  have a: "1 \<le> a" using assms(2) by (simp add: word_le_nat_alt Suc_le_eq unat_gt_0)
  have fc: "pdu ! 0 \<notin> set [0x07, 0x08, 0x0B, 0x0C]" "pdu ! 0 \<noteq> 0x11"
    using assms(1) by (auto simp: understood_def)
  obtain rsp s' where run: "mbrtu_process_adu_with_diagnostics call pol a (Some adu) (Some rcap) s =
      (MBRTU_RESPONSE_READY (rtu_frame a rsp), s')"
    "mb_process_pdu call (rtu_mb s) (Some pdu) (Some (rcap - 3)) = (Inr rsp, rtu_mb s')" "rtu_wf s'"
    "\<not> mbrtu_diagnostics_is_listen_only (rtu_diag s')"
    using unicast_answer [OF assms(4) a pdu(3) assms(5) pdu(1,2) disjI2 fc(2), of call pol] assms(6) fc(1)
    unfolding pdu(4) by blast
  have ex: "exchange call pol a r adu rcap s =
      (Some (mbrtum_process_response_with_request_adu (Some r) (Some adu) (Some (rtu_frame a rsp))), s')"
    using run(1) by (simp add: exchange_def)
  have room: "2 \<le> rcap - 3" "mb_wf (rtu_mb s)" using assms(4,5) by (simp_all add: rtu_wf_def)
  show ?thesis
  proof (rule mb_process_pdu_cases [OF room(2) pdu(1,2) room(1), of call])
    fix rsp2 m
    assume n: "mb_process_pdu call (rtu_mb s) (Some pdu) (Some (rcap - 3)) = (Inr rsp2, m)"
      "process_pdu_function call (rtu_mb s) pdu (rcap - 3) = (Inr rsp2, m)" "2 \<le> length rsp2"
      "length rsp2 \<le> min (rcap - 3) 253" "rsp2 ! 0 = pdu ! 0"
    then have eq: "rsp2 = rsp" "m = rtu_mb s'" using run(2) by simp_all
    from assms(1) n(2) obtain d where d: "check_normal_response r adu (rtu_frame a rsp) = ok_response r d"
      using room(2) unfolding understood_def eq by blast
    have "exchange call pol a r adu rcap s = (Some (ok_response r d), s')"
      using ex d framed_answer [OF b assms(3), of rsp] n(3-5) by (simp add: eq)
    with n(2) d run(3,4) show ?thesis by (intro normal [of rsp s' d]) (simp_all add: eq)
  next
    fix e
    assume x: "mb_process_pdu call (rtu_mb s) (Some pdu) (Some (rcap - 3)) = (Inr [pdu ! 0 OR 0x80, e], rtu_mb s)"
      "process_pdu_function call (rtu_mb s) pdu (rcap - 3) = (Inl e, rtu_mb s)" "1 \<le> e" "e \<le> 0x0B"
    then have eq: "rsp = [pdu ! 0 OR 0x80, e]" "rtu_mb s' = rtu_mb s" using run(2) by simp_all
    have "e \<noteq> 0" using x(3) by auto
    with ex framed_exception [OF b assms(3)] pdu(5) have "exchange call pol a r adu rcap s =
        (Some (MBRTUM_EXCEPTION_RESPONSE \<lparr>rs_function = rq_function r, rs_exception_code = e, rs_data = None\<rparr>), s')"
      by (simp add: eq)
    with x run(3,4) eq(2) show ?thesis by (intro exception [of e s']) simp_all
  qed
qed

lemma exchange_answered:
  assumes "exchange call pol a r adu rcap s = (Some x, s')"
  obtains rsp where "mbrtu_process_adu_with_diagnostics call pol a (Some adu) (Some rcap) s =
      (MBRTU_RESPONSE_READY rsp, s')"
    "mbrtum_process_response_with_request_adu (Some r) (Some adu) (Some rsp) = x"
  using assms by (auto simp: exchange_def split: prod.splits mbrtu_result.splits)

section \<open>Writing and reading back through the slave\<close>

lemma read_register_at:
  assumes "i < length vs" "length vs \<le> 125" "rq_function r = 0x03" "rq_quantity r = of_nat (length vs)"
  shows "mbrtum_get_register (Some r)
      (Some \<lparr>rs_function = rq_function r, rs_exception_code = 0, rs_data = Some (concat (map write_be16 vs))\<rparr>)
      (of_nat i) = Inr (vs ! i)"
proof -
  have i: "unat (of_nat i :: u16) = i" "unat (of_nat (length vs) :: u16) = length vs"
    using assms(1,2) by (simp_all add: unat_of_nat_u16)
  have "read_be16 (concat (map write_be16 vs)) (2 * i) = vs ! i"
    using be.dec_enc_list [OF assms(1), of "[]" "[]"] by simp
  moreover have "\<not> of_nat i \<ge> (of_nat (length vs) :: u16)" using assms(1) i by (simp add: word_le_nat_alt)
  ultimately show ?thesis
    using assms i be.length_enc_list [of vs] by (simp add: mbrtum_get_register_def Let_def mult.commute)
qed

lemma write_block_exchange:
  assumes "mbrtum_build_write_multiple_registers_request a addr (of_nat (length vs)) (Some vs) (Some cap) = Inr (w, wadu)"
    "a \<noteq> 0" "length vs \<le> 123" "unat addr + length vs \<le> length (holding_registers (banks (rtu_mb s)))"
    "rtu_wf s" "256 \<le> rcap" "\<not> mbrtu_diagnostics_is_listen_only (rtu_diag s)"
  shows "\<exists>d s'. exchange call pol a w wadu rcap s = (Some (ok_response w d), s') \<and> rtu_wf s' \<and>
    \<not> mbrtu_diagnostics_is_listen_only (rtu_diag s') \<and>
    holding_registers (banks (rtu_mb s')) = memcpy_at (holding_registers (banks (rtu_mb s))) (unat addr) vs"
proof -
  let ?q = "of_nat (length vs) :: u16"
  have q: "unat ?q = length vs" using assms(3) by (simp add: unat_of_nat_u16)
  note b = write_registers_built [OF assms(1), unfolded q, OF order_refl]
  have u: "understood a cap w (write_registers_request addr vs) wadu"
    using multiple_write_understood [OF b(1,2)] by (simp add: write_registers_request_def)
  have e: "vs \<noteq> []" "rq_expects_response w \<noteq> 0" using b(2,4) assms(2) by auto
  have wf: "banks_wf (banks (rtu_mb s))" "5 \<le> rcap - 3" using assms(5,6) by (simp_all add: rtu_wf_def mb_wf_def)
  note run = write_block_run [OF wf(1) e(1) assms(3,4) wf(2), of call]
  show ?thesis
  proof (rule exchange_run [OF u assms(2) e(2) assms(5-7), of call pol])
    fix rsp s' d
    assume x: "process_pdu_function call (rtu_mb s) (write_registers_request addr vs) (rcap - 3) = (Inr rsp, rtu_mb s')"
      "exchange call pol a w wadu rcap s = (Some (ok_response w d), s')" "rtu_wf s'"
      "\<not> mbrtu_diagnostics_is_listen_only (rtu_diag s')"
    from x(1) run have "holding_registers (banks (rtu_mb s')) =
        memcpy_at (holding_registers (banks (rtu_mb s))) (unat addr) vs" by (auto dest: sym)
    with x(2-4) show ?thesis by blast
  qed (use run in simp)
qed

lemma read_block_exchange:
  assumes "mbrtum_build_read_registers_request a 0x03 addr (of_nat n) (Some cap) = Inr (r, radu)"
    "n \<le> 125" "unat addr + n \<le> length (holding_registers (banks (rtu_mb s)))"
    "rtu_wf s" "256 \<le> rcap" "\<not> mbrtu_diagnostics_is_listen_only (rtu_diag s)"
  shows "\<exists>s'. exchange call pol a r radu rcap s = (Some (ok_response r
      (Some (concat (map write_be16 (take n (drop (unat addr) (holding_registers (banks (rtu_mb s))))))))), s') \<and>
    rtu_mb s' = rtu_mb s"
proof -
  let ?vs = "take n (drop (unat addr) (holding_registers (banks (rtu_mb s))))"
  let ?rsp = "[0x03, of_nat (n * 2)] @ concat (map write_be16 ?vs)"
  note b = read_registers_built [OF assms(1)]
  have u: "understood a cap r (read_request 0x03 addr n) radu"
    using read_registers_understood [OF assms(1)] by (simp add: read_request_def)
  have "n \<noteq> 0" using b(4) by (intro notI) simp
  then have a: "a \<noteq> 0" "0 < n" "unat (of_nat n :: u16) = n"
    using unicast_bounds [OF b(6)] assms(2) by (auto simp: unat_of_nat_u16)
  then have e: "rq_expects_response r \<noteq> 0" using b(2) by simp
  have "banks_wf (banks (rtu_mb s))" using assms(4) by (simp add: rtu_wf_def mb_wf_def)
  then have run: "process_pdu_function call (rtu_mb s) (read_request 0x03 addr n) (rcap - 3) = (Inr ?rsp, rtu_mb s)"
    using a(2) assms(2,3,5) by (intro read_block_run) auto
  have "check_normal_response r radu (rtu_frame a ?rsp) = ok_response r (Some (concat (map write_be16 ?vs)))"
    using registers_response_ok [OF b(5), of r ?vs a "0x03"] b(2) a(3) assms(3)
    by (simp add: check_normal_response_def del: of_nat_mult)
  with run show ?thesis
    by - (rule exchange_run [OF u a(1) e assms(4-6), of call pol],
      auto simp: ok_response_def simp del: of_nat_mult)
qed

text \<open>
  C5. What the master writes it reads back. The master builds a Write Multiple Registers
  request for any block of the slave's holding registers, the slave processes it, the master
  accepts the acknowledgement; then the master builds a Read Holding Registers request for
  the same block, the slave answers, the master accepts the answer, and its accessor returns
  exactly the values written, one by one.
\<close>

theorem master_write_then_read:
  assumes "mbrtum_build_write_multiple_registers_request a addr (of_nat (length vs)) (Some vs) (Some cap) = Inr (w, wadu)"
    "mbrtum_build_read_registers_request a 0x03 addr (of_nat (length vs)) (Some cap) = Inr (r, radu)"
    "length vs \<le> 123" "unat addr + length vs \<le> length (holding_registers (banks (rtu_mb s)))"
    "rtu_wf s" "256 \<le> rcap" "\<not> mbrtu_diagnostics_is_listen_only (rtu_diag s)"
  shows "\<exists>s1 s2 p q. exchange call pol a w wadu rcap s = (Some (MBRTUM_OK p), s1) \<and>
    exchange call pol a r radu rcap s1 = (Some (MBRTUM_OK q), s2) \<and>
    map (\<lambda>i. mbrtum_get_register (Some r) (Some q) (of_nat i)) [0..<length vs] = map Inr vs"
proof -
  note b = read_registers_built [OF assms(2)]
  have "a \<noteq> 0" using unicast_bounds [OF b(6)] by simp
  from write_block_exchange [OF assms(1) this assms(3-7)] obtain d s1 where
    s1: "exchange call pol a w wadu rcap s = (Some (ok_response w d), s1)" "rtu_wf s1"
      "\<not> mbrtu_diagnostics_is_listen_only (rtu_diag s1)"
      "holding_registers (banks (rtu_mb s1)) = memcpy_at (holding_registers (banks (rtu_mb s))) (unat addr) vs"
    by blast
  have vs: "take (length vs) (drop (unat addr) (holding_registers (banks (rtu_mb s1)))) = vs"
    "unat addr + length vs \<le> length (holding_registers (banks (rtu_mb s1)))"
    using assms(4) take_drop_memcpy_at(1) [of "unat addr" vs "holding_registers (banks (rtu_mb s))"] s1(4) by simp_all
  then obtain s2 where s2: "exchange call pol a r radu rcap s1 =
      (Some (ok_response r (Some (concat (map write_be16 vs)))), s2)"
    using read_block_exchange [OF assms(2) _ vs(2) s1(2) assms(6) s1(3), of call pol] assms(3) by auto
  have "mbrtum_get_register (Some r) (Some \<lparr>rs_function = rq_function r, rs_exception_code = 0,
      rs_data = Some (concat (map write_be16 vs))\<rparr>) (of_nat i) = Inr (vs ! i)" if "i < length vs" for i
    using that assms(3) b(2) by (intro read_register_at) simp_all
  with s1(1) s2 show ?thesis by (auto simp: ok_response_def intro: nth_equalityI)
qed

theorem master_write_then_read_witness:
  "\<exists>s1 s2 p q w wadu r radu.
    mbrtum_build_write_multiple_registers_request 17 2 2 (Some [7, 9]) (Some 256) = Inr (w, wadu) \<and>
    mbrtum_build_read_registers_request 17 0x03 2 2 (Some 256) = Inr (r, radu) \<and>
    exchange demo_call None 17 w wadu 256 demo_rtu = (Some (MBRTUM_OK p), s1) \<and>
    exchange demo_call None 17 r radu 256 s1 = (Some (MBRTUM_OK q), s2) \<and>
    mbrtum_get_register (Some r) (Some q) 0 = Inr 7 \<and> mbrtum_get_register (Some r) (Some q) 1 = Inr 9"
proof -
  obtain w wadu where w: "mbrtum_build_write_multiple_registers_request 17 2 (of_nat (length [7, 9 :: u16]))
      (Some [7, 9]) (Some 256) = Inr (w, wadu)"
    by (simp add: mbrtum_build_write_multiple_registers_request_def write_address_is_valid_def
        unicast_address_is_valid_def address_range_is_valid_def Let_def)
  obtain r radu where r: "mbrtum_build_read_registers_request 17 0x03 2 (of_nat (length [7, 9 :: u16]))
      (Some 256) = Inr (r, radu)"
    by (simp add: mbrtum_build_read_registers_request_def build_fixed_request_def
        unicast_address_is_valid_def address_range_is_valid_def)
  have lo: "\<not> mbrtu_diagnostics_is_listen_only (rtu_diag demo_rtu)"
    by (simp add: demo_rtu_def mbrtu_diagnostics_is_listen_only_def mbrtu_diagnostics_init_def)
  have "holding_registers (banks (rtu_mb demo_rtu)) = replicate 8 0" by (simp add: demo_rtu_def demo_state_hregs)
  with master_write_then_read [OF w r _ _ demo_rtu_wf _ lo, of 256 demo_call None] w r show ?thesis
    by auto
qed

end
