(* ===== verification/Interop.thy ===== *)
theory Interop
  imports Master_Slave
begin

text \<open>
  Master and slave understand each other on every function code: the requests that
  \<open>Master_Slave\<close> leaves out (file records, FIFO queues, encapsulated interface, device
  identification, the serial-line functions) and the theorem over all builders.
\<close>

section \<open>File records, FIFO queues and encapsulated interface\<close>

lemma write_file_understood:
  assumes "mbrtum_build_write_file_record_request a (Some qs) (Some cap) = Inr (r, adu)"
    "arguments_ok (Write_File_Record qs)"
  shows "\<exists>pdu. understood a cap r pdu adu"
proof -
  obtain pdu where b: "well_built a cap r pdu adu" using write_file_built [OF assms] ..
  have f: "rq_function r = 0x15"
    using assms(1) by (auto simp: mbrtum_build_write_file_record_request_def Let_def split: if_splits sum.splits)
  then have fc: "pdu ! 0 = 0x15" "adu = rtu_frame a pdu" using b by (simp_all add: well_built_def)
  have "rsp = pdu" if "process_pdu_function call m pdu n = (Inr rsp, m')" for call m n rsp m'
    using that fc(1) by (auto simp: process_pdu_function_def mb_file_record_process_write_request_def Let_def
        split: if_splits sum.splits prod.splits)
  moreover have "check_normal_response r adu (rtu_frame a pdu) = ok_response r None"
    using f fc(2) by (simp add: check_normal_response_def check_write_file_record_def)
  ultimately have "understood a cap r pdu adu"
    using fc(1) by (intro understood_ackI [OF b, where ack = pdu]) auto
  then show ?thesis ..
qed

lemma adu_slice_frame:
  "0 < off \<Longrightarrow> off + n \<le> length pdu + 1 \<Longrightarrow> adu_slice off n (rtu_frame a pdu) = take n (drop (off - 1) pdu)"
  using frame_slice [of "off - 1" n pdu a] by simp

lemma fifo_response_ok:
  assumes "unat cnt \<le> 31" "length d = unat cnt * 2"
  shows "check_fifo r (rtu_frame a ([0x18] @ write_be16 (of_nat (2 + unat cnt * 2)) @ write_be16 cnt @ d)) =
    ok_response r (Some (write_be16 cnt @ d))"
proof -
  define k where "k = 2 + unat cnt * 2"
  let ?rsp = "[0x18] @ write_be16 (of_nat k) @ write_be16 cnt @ d"
  have f: "read_be16 (rtu_frame a ?rsp) 2 = of_nat k" "read_be16 (rtu_frame a ?rsp) 4 = cnt"
    using frame_be16 [of 2 ?rsp a] frame_be16 [of 4 ?rsp a] by simp_all
  have u: "unat (of_nat k :: u16) = k" by (rule unat_of_nat_u16) (use assms(1) k_def in linarith)
  have len: "length ?rsp = 3 + k" using assms(2) by (simp add: k_def)
  have "adu_slice 4 k (rtu_frame a ?rsp) = write_be16 cnt @ d"
    using adu_slice_frame [of 4 k ?rsp a] assms(2) by (simp add: k_def)
  then show ?thesis
    unfolding k_def [symmetric] using assms f u len by (simp add: check_fifo_def Let_def k_def)
qed

lemma fifo_understood:
  assumes "mbrtum_build_read_fifo_queue_request a ptr (Some cap) = Inr (r, adu)"
  shows "understood a cap r ([0x18] @ write_be16 ptr) adu"
proof -
  let ?pdu = "[0x18] @ write_be16 ptr :: bytes"
  note b = fifo_built [OF assms]
  show ?thesis
  proof (rule understoodI [OF b(1), where d = "\<lambda>rsp. Some (drop 3 rsp)"])
    fix call n rsp and m m' :: mb_state
    assume "process_pdu_function call m ?pdu n = (Inr rsp, m')"
    then have "mb_fifo_process_read_request (app_memory m) (fifo_state m) ?pdu n = Inr rsp"
      by (auto simp: process_pdu_function_def)
    then obtain q where q: "unat (fifo_reg (app_memory m) q 0) \<le> 31"
      "rsp = [0x18] @ write_be16 (of_nat (2 + unat (fifo_reg (app_memory m) q 0) * 2)) @
         write_be16 (fifo_reg (app_memory m) q 0) @
         concat (map (\<lambda>i. write_be16 (fifo_reg (app_memory m) q (1 + i))) [0..<unat (fifo_reg (app_memory m) q 0)])"
      by (auto simp: mb_fifo_process_read_request_def Let_def not_less split: if_splits option.splits)
    then show "check_normal_response r adu (rtu_frame a rsp) = ok_response r (Some (drop 3 rsp))"
      using fifo_response_ok [OF q(1), of "drop 5 rsp" r a] b(2)
        be.length_enc_list [of "map (\<lambda>i. fifo_reg (app_memory m) q (1 + i)) [0..<unat (fifo_reg (app_memory m) q 0)]"]
      by (simp add: check_normal_response_def comp_def)
  qed auto
qed

lemma mei_understood:
  assumes "mbrtum_build_mei_request a ty (Some d) (length d) (Some cap) 0 cap = Inr (r, adu)"
  shows "understood a cap r ([0x2B, ty] @ d) adu"
proof (rule understoodI [OF mei_built [OF assms], where d = "\<lambda>rsp. Some (drop 1 rsp)"])
  have r: "mei_type_is_generic (ucast ty)" "r = finish_request a 0x2B (of_nat (length d)) 0 (ucast ty)"
    using assms by (auto simp: mbrtum_build_mei_request_def Let_def split: if_splits)
  then have ty: "(ucast ty :: u16) \<noteq> 0x0E" "ty \<noteq> 0x0E" by (auto simp: mei_type_is_generic_def)
  fix call n rsp and m m' :: mb_state
  assume "process_pdu_function call m ([0x2B, ty] @ d) n = (Inr rsp, m')"
  then have "mb_mei_process_request call (mei_state m) (device_id_state m) ([0x2B, ty] @ d) n = Inr rsp"
    by (auto simp: process_pdu_function_def)
  then obtain xs where rsp: "rsp = [0x2B, ty] @ xs" "length xs \<le> 251"
    using ty(2) by (auto simp: mb_mei_process_request_def Let_def not_less split: if_splits option.splits prod.splits)
  then show "check_normal_response r adu (rtu_frame a rsp) = ok_response r (Some (drop 1 rsp))"
    using r(2) ty adu_slice_frame [of 2 "length rsp - 1" rsp a] ucast_u8_u16 [of ty]
    by (simp add: check_normal_response_def check_mei_generic_def frame_nth)
qed auto

text \<open>The subresponse of the slave to one subrequest of FC20.\<close>

definition file_subresponse :: "app_mem \<Rightarrow> mb_file_record_state \<Rightarrow> mbrtum_file_record_request \<Rightarrow> bytes" where
  "file_subresponse mem st q =
     [of_nat (1 + unat (fr_record_length q) * 2), MB_FILE_RECORD_REFERENCE_TYPE] @
     concat (map (\<lambda>i. write_be16 (mem (record_addr st (fr_file_number q) (unat (fr_record_number q) + i))))
       [0..<unat (fr_record_length q)])"

lemma file_subresponse_length: "length (file_subresponse mem st q) = 2 + unat (fr_record_length q) * 2"
  by (simp add: file_subresponse_def length_concat_map_const [where c = 2])

lemma read_be16_behind: "read_be16 (pre @ xs) (length pre + i) = read_be16 xs i"
  by (simp add: read_be16_def nth_append)

lemma subrequest_fields_at:
  "read_be16 (pre @ file_read_subrequest q @ rest) (length pre + 1) = fr_file_number q"
  "read_be16 (pre @ file_read_subrequest q @ rest) (length pre + 3) = fr_record_number q"
  "read_be16 (pre @ file_read_subrequest q @ rest) (length pre + 5) = fr_record_length q"
  unfolding read_be16_behind by (rule file_read_subrequest_fields)+

lemma file_read_fill_subrequests:
  "file_read_fill mem st (pre @ concat (map file_read_subrequest qs)) (length pre) =
   concat (map (file_subresponse mem st) qs)"
proof (induction qs arbitrary: pre)
  case Nil
  show ?case by (simp add: file_read_fill.simps)
next
  case (Cons q qs)
  have "file_read_fill mem st (pre @ concat (map file_read_subrequest (q # qs))) (length pre + 7) =
      concat (map (file_subresponse mem st) qs)"
    using Cons [of "pre @ file_read_subrequest q"] by (simp add: file_read_subrequest_fields(1))
  then show ?case
    using subrequest_fields_at [of pre q "concat (map file_read_subrequest qs)"]
    by (subst file_read_fill.simps) (simp add: file_subresponse_def file_read_subrequest_fields(1) Let_def)
qed

lemma scan_subresponses:
  assumes "\<forall>q \<in> set qs. unat (fr_record_length q) * 2 < 255" "length c = 2" "length c' = 2"
  shows "scan_file_subresponses (length qs) (rpre @ concat (map file_read_subrequest qs) @ c) (length rpre)
    (ppre @ concat (map (file_subresponse mem st) qs) @ c') (length ppre) = None"
  using assms(1)
proof (induction qs arbitrary: rpre ppre)
  case Nil
  show ?case using assms(2,3) by simp
next
  case (Cons q qs)
  let ?req = "rpre @ concat (map file_read_subrequest (q # qs)) @ c"
  let ?rsp = "ppre @ concat (map (file_subresponse mem st) (q # qs)) @ c'"
  let ?n = "1 + unat (fr_record_length q) * 2"
  have ih: "scan_file_subresponses (length qs) ?req (length rpre + 7) ?rsp (length ppre + (1 + ?n)) = None"
    using Cons.IH [of "rpre @ file_read_subrequest q" "ppre @ file_subresponse mem st q"] Cons.prems
    by (simp add: file_read_subrequest_fields(1) file_subresponse_length)
  have len: "read_be16 ?req (length rpre + 5) = fr_record_length q"
    using subrequest_fields_at(3) [of rpre q "concat (map file_read_subrequest qs) @ c"] by simp
  have "?rsp ! length ppre = of_nat ?n" "?rsp ! (length ppre + 1) = MB_FILE_RECORD_REFERENCE_TYPE"
    by (simp_all add: file_subresponse_def nth_append)
  moreover have "unat (of_nat ?n :: u8) = ?n" using Cons.prems by (intro unat_of_nat_u8) simp
  ultimately show ?case
    using ih len assms(2,3)
    by (simp add: Let_def file_read_subrequest_fields(1) file_subresponse_length del: of_nat_Suc of_nat_add of_nat_mult)
qed

lemma file_read_sizes_total:
  "file_read_sizes l qs = Inr tot \<Longrightarrow>
   tot = l + length (concat (map (file_subresponse mem st) qs)) \<and>
   (\<forall>q \<in> set qs. unat (fr_record_length q) * 2 < 255)"
  by (induction qs arbitrary: l) (fastforce simp: Let_def file_subresponse_length split: if_splits)+

lemma read_file_understood:
  assumes "mbrtum_build_read_file_record_request a (Some qs) (Some cap) = Inr (r, adu)"
  shows "understood a cap r ([0x14, of_nat (length qs * 7)] @ concat (map file_read_subrequest qs)) adu"
proof -
  let ?pdu = "[0x14, of_nat (length qs * 7)] @ concat (map file_read_subrequest qs)"
  note b = read_file_built [OF assms]
  obtain tot where tot: "file_read_sizes 0 qs = Inr tot" "length qs \<le> 35"
    "r = finish_request a 0x14 (of_nat (length qs * 7)) (of_nat tot) (of_nat (length qs))"
    using assms by (auto simp: mbrtum_build_read_file_record_request_def Let_def not_less split: if_splits sum.splits)
  have adu: "adu = ([a, 0x14, of_nat (length qs * 7)] @ concat (map file_read_subrequest qs)) @
      write_crc_le (mb_crc16 (a # ?pdu))"
    using b by (simp add: well_built_def rtu_frame_def)
  show ?thesis
  proof (rule understoodI [OF b, where d = "\<lambda>rsp. Some (drop 2 rsp)"])
    fix call n rsp and m m' :: mb_state
    let ?d = "concat (map (file_subresponse (app_memory m) (file_record_state m)) qs)"
    assume "process_pdu_function call m ?pdu n = (Inr rsp, m')"
    then have "mb_file_record_process_read_request (app_memory m) (file_record_state m) ?pdu n = Inr rsp"
      by (auto simp: process_pdu_function_def simp del: of_nat_mult)
    then obtain rdl where rdl: "file_read_check (file_record_state m) ?pdu 2 0 = Inr rdl"
      "rsp = [0x14, of_nat rdl] @ file_read_fill (app_memory m) (file_record_state m) ?pdu 2"
      by (auto simp: mb_file_record_process_read_request_def Let_def simp del: of_nat_mult split: if_splits sum.splits)
    have fill: "file_read_fill (app_memory m) (file_record_state m) ?pdu 2 = ?d"
      using file_read_fill_subrequests [of "app_memory m" "file_record_state m" "[0x14, of_nat (length qs * 7)]" qs]
      by (simp add: numeral_2_eq_2 del: of_nat_mult)
    have d: "tot = length ?d" "\<forall>q \<in> set qs. unat (fr_record_length q) * 2 < 255"
      using file_read_sizes_total [OF tot(1)] by simp_all
    have le: "tot \<le> 245" using file_read_sizes_count [OF tot(1)] by simp
    have rsp: "rsp = [0x14, of_nat tot] @ ?d" using file_read_check_length [OF rdl(1), of "app_memory m"] rdl(2) fill d(1) by simp
    have scan: "scan_file_subresponses (length qs) adu 3 (rtu_frame a rsp) 3 = None"
      using scan_subresponses [OF d(2), of "write_crc_le (mb_crc16 (a # ?pdu))" "write_crc_le (mb_crc16 (a # rsp))"
          "[a, 0x14, of_nat (length qs * 7)]" "[a, 0x14, of_nat tot]" "app_memory m" "file_record_state m"]
      by (simp add: adu rsp rtu_frame_def numeral_3_eq_3 del: of_nat_mult)
    have u: "unat (of_nat tot :: u16) = tot" "unat (of_nat (length qs) :: u16) = length qs" using le tot(2) by simp_all
    have "adu_slice 3 tot (rtu_frame a rsp) = ?d" using adu_slice_frame [of 3 tot rsp a] d(1) by (simp add: rsp)
    then have "check_read_file_record r adu (rtu_frame a rsp) = ok_response r (Some ?d)"
      using scan u d(1) unfolding tot(3)
      by (simp add: check_read_file_record_def rsp frame_nth ucast_of_nat_u8 del: of_nat_mult)
    then show "check_normal_response r adu (rtu_frame a rsp) = ok_response r (Some (drop 2 rsp))"
      unfolding tot(3) by (simp add: check_normal_response_def rsp del: of_nat_mult)
  qed simp
qed

section \<open>Device identification\<close>

text \<open>Master and slave agree on levels, categories and objects.\<close>

lemma device_id_agreement:
  "device_id_conformity_is_valid l \<longleftrightarrow> conformity_level_is_valid l"
  "device_id_conformity_category l = conformity_category l"
  "object_id_matches_category i c \<Longrightarrow> device_id_object_matches_category i c"
  by (auto simp: device_id_conformity_is_valid_def conformity_level_is_valid_def device_id_conformity_category_def
      conformity_category_def device_id_object_matches_category_def object_id_matches_category_def
      object_id_is_defined_def split: if_splits)

lemma scan_objects:
  assumes "list_all (entry_ok c) es" "length (value_bytes st) = 512"
    "sorted_wrt (\<lambda>x y. object_id x < object_id y) es"
    "\<forall>e \<in> set es. device_id_object_matches_category (object_id e) category"
    "\<not> first \<Longrightarrow> es \<noteq> [] \<Longrightarrow> prev < object_id (hd es)"
    "first \<Longrightarrow> es \<noteq> [] \<Longrightarrow> object_id (hd es) = 0 \<or> object_id (hd es) = ucast (rq_quantity r)"
    "code \<noteq> MB_DEVICE_ID_READ_SPECIFIC" "length crc = 2"
  shows "scan_device_objects (length es) first r code category (pre @ page_bytes st es @ crc) (length pre) prev =
    Inr (length pre + length (page_bytes st es), if es = [] then prev else object_id (last es))"
  using assms(1,3-6)
proof (induction es arbitrary: pre first prev)
  case Nil
  show ?case by (simp add: page_bytes_def)
next
  case (Cons e es)
  let ?adu = "pre @ page_bytes st (e # es) @ crc" let ?b = "append_device_id_object st e"
  have b: "length ?b = entry_size e"
    using Cons.prems(1) by (intro append_device_id_object_length [OF assms(2), of c]) simp
  have bytes: "?adu ! length pre = object_id e" "?adu ! (length pre + 1) = value_length e"
    by (simp_all add: page_bytes_def append_device_id_object_def nth_append)
  have next_ok: "es \<noteq> [] \<Longrightarrow> object_id e < object_id (hd es)" using Cons.prems(2) by (cases es) auto
  have "scan_device_objects (length es) False r code category ?adu (length pre + entry_size e) (object_id e) =
      Inr (length pre + length (page_bytes st (e # es)), if es = [] then object_id e else object_id (last es))"
    using Cons.IH [where pre = "pre @ ?b" and first = False and prev = "object_id e"] Cons.prems next_ok b
    by (simp add: page_bytes_def)
  moreover have "\<not> (\<not> first \<and> object_id e \<le> prev)" using Cons.prems(4) by (auto simp: not_le)
  ultimately show ?case
    using Cons.prems bytes b assms(7,8) by (simp add: page_bytes_def entry_size_def Let_def)
qed

lemma check_device_id_streamI:
  assumes "12 \<le> length adu" "adu ! 2 = 0x0E" "adu ! 3 = ucast (rq_start_address r)" "adu ! 3 \<noteq> MB_DEVICE_ID_READ_SPECIFIC"
    "device_id_conformity_is_valid (adu ! 4)" "adu ! 5 = (if adu ! 6 = 0 then 0 else 0xFF)" "adu ! 7 \<noteq> 0"
    "scan_device_objects (unat (adu ! 7)) True r (adu ! 3) category adu 8 0 = Inr (length adu - 2, prev)"
    "category = (if adu ! 3 < device_id_conformity_category (adu ! 4) then adu ! 3
       else device_id_conformity_category (adu ! 4))"
    "adu ! 6 \<noteq> 0 \<Longrightarrow> \<not> adu ! 6 \<le> prev \<and> device_id_object_matches_category (adu ! 6) category"
  shows "check_device_id r adu = ok_response r (Some (adu_slice 2 (length adu - 4) adu))"
proof (cases "adu ! 3 < device_id_conformity_category (adu ! 4)")
  case True
  then show ?thesis using assms by (simp add: check_device_id_def Let_def)
next
  case False
  then show ?thesis using assms by (simp add: check_device_id_def Let_def)
qed

lemma device_id_page_ok:
  fixes a :: u8
  assumes "page \<noteq> []" "length page \<le> 32" "length (value_bytes st) = 512"
    "list_all (entry_ok c) page" "sorted_wrt (\<lambda>x y. object_id x < object_id y) (page @ rest)"
    "\<forall>e \<in> set (page @ rest). object_id_matches_category (object_id e) (effective_category st code)"
    "object_id (hd page) = 0 \<or> object_id (hd page) = oid" "code = 1 \<or> code = 2 \<or> code = 3"
    "conformity_level_is_valid (conformity_level st)"
  defines "r \<equiv> finish_request a 0x2B (ucast code) (ucast oid) 0x0E"
    and "rsp \<equiv> [0x2B, 0x0E, code, conformity_level st, if rest = [] then 0 else 0xFF,
      if rest = [] then 0 else object_id (hd rest), of_nat (length page)] @ page_bytes st page"
  shows "check_device_id r (rtu_frame a rsp) = ok_response r (Some (drop 1 rsp))"
proof -
  let ?adu = "rtu_frame a rsp"
  define pre where "pre = a # take 7 rsp"
  have pre: "?adu = pre @ page_bytes st page @ write_crc_le (mb_crc16 (a # rsp))" "length pre = 8"
    by (simp_all add: pre_def rtu_frame_def rsp_def)
  have "scan_device_objects (length page) True r code (effective_category st code)
      (pre @ page_bytes st page @ write_crc_le (mb_crc16 (a # rsp))) (length pre) 0 =
      Inr (length pre + length (page_bytes st page), if page = [] then 0 else object_id (last page))"
  proof (rule scan_objects [OF assms(4,3)])
    show "sorted_wrt (\<lambda>x y. object_id x < object_id y) page" using assms(5) by (simp add: sorted_wrt_append)
    show "\<forall>e \<in> set page. device_id_object_matches_category (object_id e) (effective_category st code)"
      using assms(6) device_id_agreement(3) by simp
    show "object_id (hd page) = 0 \<or> object_id (hd page) = ucast (rq_quantity r)"
      using assms(7) by (simp add: r_def ucast_u8_u16)
  qed (use assms(8) in auto)
  then have "scan_device_objects (length page) True r code (effective_category st code) ?adu 8 0 =
      Inr (8 + length (page_bytes st page), object_id (last page))"
    using assms(1) pre by simp
  moreover have "2 \<le> length (page_bytes st page)"
    using assms(1) by (cases page) (simp_all add: page_bytes_def append_device_id_object_def)
  moreover have "unat (of_nat (length page) :: u8) = length page" "of_nat (length page) \<noteq> (0 :: u8)"
    using assms(1,2) by (auto simp: word_unat_eq_iff)
  moreover have "length ?adu = 10 + length (page_bytes st page)" "?adu ! 2 = 0x0E" "?adu ! 3 = code"
    "?adu ! 4 = conformity_level st" "?adu ! 5 = (if rest = [] then 0 else 0xFF)"
    "?adu ! 6 = (if rest = [] then 0 else object_id (hd rest))" "?adu ! 7 = of_nat (length page)"
    by (simp_all add: frame_nth rsp_def)
  moreover have "object_id (last page) < object_id (hd rest)" "object_id (hd rest) \<noteq> 0"
    "device_id_object_matches_category (object_id (hd rest)) (effective_category st code)" if "rest \<noteq> []"
  proof -
    show "object_id (last page) < object_id (hd rest)" using that assms(1,5) by (simp add: sorted_wrt_append)
    then show "object_id (hd rest) \<noteq> 0" by (auto simp: word_less_nat_alt)
    show "device_id_object_matches_category (object_id (hd rest)) (effective_category st code)"
      using that assms(6) device_id_agreement(3) by simp
  qed
  ultimately have "check_device_id r ?adu = ok_response r (Some (adu_slice 2 (length ?adu - 4) ?adu))"
    using assms(8,9) by (intro check_device_id_streamI [where category = "effective_category st code" and
        prev = "object_id (last page)"]) (auto simp: r_def ucast_u8_u16 device_id_agreement effective_category_def)
  moreover have "adu_slice 2 (length ?adu - 4) ?adu = drop 1 rsp"
    using adu_slice_frame [of 2 "length rsp - 1" rsp a] by (cases rsp) (simp_all add: adu_slice_def)
  ultimately show ?thesis by simp
qed

lemma first_eligible_zero:
  assumes "device_id_wf st" "configured st" "category = 1 \<or> category = 2 \<or> category = 3"
  shows "first_eligible_index st category = 0" "object_id (objects st ! 0) = 0" "0 < object_count st"
    "object_id_matches_category (object_id (objects st ! 0)) category"
proof -
  have "3 \<le> length (objects st)" "map object_id (take 3 (objects st)) = [0, 1, 2]"
    using assms(1,2) by (simp_all add: device_id_wf_def object_count_def)
  then show *: "object_id (objects st ! 0) = 0" "0 < object_count st"
    by (cases "objects st"; simp add: object_count_def numeral_3_eq_3)+
  then show m: "object_id_matches_category (object_id (objects st ! 0)) category"
    using assms(3) by (auto simp: object_id_matches_category_def object_id_is_defined_def)
  show "first_eligible_index st category = 0"
    using * m by (simp add: first_eligible_index_def upt_conv_Cons)
qed

lemma eligible_pages:
  assumes "device_id_wf st" "configured st" "take_fitting sz room (eligible st category k) = (page, rest)"
  shows "list_all (entry_ok (conformity_category (conformity_level st))) page"
    "sorted_wrt (\<lambda>x y. object_id x < object_id y) (page @ rest)"
    "\<forall>e \<in> set (page @ rest). object_id_matches_category (object_id e) category" "length page \<le> 32"
proof -
  note wf = device_id_wf_configured [OF assms(1,2)]
  have es: "page @ rest = eligible st category k" using take_fitting_append [OF assms(3)] ..
  then show "sorted_wrt (\<lambda>x y. object_id x < object_id y) (page @ rest)"
    using assms(1,2) by (auto simp: device_id_wf_def eligible_def intro!: sorted_wrt_filter sorted_wrt_drop)
  show "\<forall>e \<in> set (page @ rest). object_id_matches_category (object_id e) category"
    by (auto simp: es eligible_def)
  have "set (page @ rest) \<subseteq> set (drop k (objects st))" by (auto simp: es eligible_def)
  then have "set page \<subseteq> set (objects st)" using set_drop_subset [of k "objects st"] by auto
  then show "list_all (entry_ok (conformity_category (conformity_level st))) page"
    using wf(2) by (auto simp: list_all_iff)
  show "length page \<le> 32" using wf(3) [of category k] es [symmetric] by simp
qed

lemma device_id_stream_answer:
  fixes a :: u8
  assumes wf: "device_id_wf st" and code: "code = 1 \<or> code = 2 \<or> code = 3"
    and rsp: "mb_device_id_process_request st code oid n = Inr rsp"
  defines "r \<equiv> finish_request a 0x2B (ucast code) (ucast oid) 0x0E"
  shows "check_device_id r (rtu_frame a rsp) = ok_response r (Some (drop 1 rsp))"
proof -
  let ?c = "effective_category st code" let ?limit = "min n 253"
  define start where "start = (case find_object_index st oid ?c of Some k \<Rightarrow> k | None \<Rightarrow> first_eligible_index st ?c)"
  have conf: "configured st" using rsp code by (auto simp: mb_device_id_process_request_def Let_def split: if_splits)
  have level: "conformity_level_is_valid (conformity_level st)" using wf conf by (simp add: device_id_wf_def)
  have "?c = 1 \<or> ?c = 2 \<or> ?c = 3" using conformity_category_cases [OF level] code by (auto simp: effective_category_def)
  note zero = first_eligible_zero [OF wf conf this]
  have start: "start < object_count st" "object_id_matches_category (object_id (objects st ! start)) ?c"
    "object_id (objects st ! start) = 0 \<or> object_id (objects st ! start) = oid"
    using zero by (auto simp: start_def find_object_index_def find_upt_Some split: option.splits)
  obtain page rest where tf: "take_fitting entry_size (?limit - 7) (eligible st ?c start) = (page, rest)" by fastforce
  note p = eligible_pages [OF wf conf tf] and st = device_id_wf_configured [OF wf conf]
  have es: "eligible st ?c start = objects st ! start # eligible st ?c (Suc start)"
    using start by (simp add: eligible_step)
  have spec: "device_id_stream st ?c ?limit start [] 0 = stream_spec st ?limit (eligible st ?c start) [] 0"
    using device_id_stream_spec [OF st(2,1), of 0 ?c start ?limit "[]"] st(3) [of ?c start] by simp
  have "\<exists>acc more_follows next_id cnt. device_id_stream st ?c ?limit start [] 0 = Inr (acc, more_follows, next_id, cnt) \<and>
      rsp = [0x2B, 0x0E, code, conformity_level st, more_follows, next_id, cnt] @ acc"
    using rsp code conf unfolding start_def effective_category_def
    by (auto simp: mb_device_id_process_request_def Let_def split: if_splits sum.splits)
  then have rsp_eq: "page \<noteq> []" "rsp = [0x2B, 0x0E, code, conformity_level st, if rest = [] then 0 else 0xFF,
      if rest = [] then 0 else object_id (hd rest), of_nat (length page)] @ page_bytes st page"
    using spec tf take_fitting_append [OF tf] es by (auto simp: stream_spec_def split: if_splits)
  have "hd page = objects st ! start" using rsp_eq(1) take_fitting_append [OF tf] es by (cases page) auto
  then show ?thesis
    unfolding r_def rsp_eq(2) using start(3) by (intro device_id_page_ok [OF rsp_eq(1) p(4) st(1) p(1,2,3) _ code level]) simp
qed

lemma device_id_specific_answer:
  fixes a :: u8
  assumes wf: "device_id_wf st" and rsp: "mb_device_id_process_request st 4 oid n = Inr rsp"
  defines "r \<equiv> finish_request a 0x2B (ucast (4 :: u8)) (ucast oid) 0x0E"
  shows "check_device_id r (rtu_frame a rsp) = ok_response r (Some (drop 1 rsp))"
proof -
  let ?l = "conformity_level st"
  have conf: "configured st" using rsp by (auto simp: mb_device_id_process_request_def Let_def split: if_splits)
  have level: "conformity_level_is_valid ?l" using wf conf by (simp add: device_id_wf_def)
  obtain k where k: "find_object_index st oid (conformity_category ?l) = Some k"
    "rsp = [0x2B, 0x0E, 4, ?l, 0, 0, 1] @ append_device_id_object st (objects st ! k)" "?l AND 0x80 \<noteq> 0"
    using rsp conf by (auto simp: mb_device_id_process_request_def Let_def split: if_splits option.splits)
  define e where "e = objects st ! k"
  have e: "object_id_matches_category oid (conformity_category ?l)" "object_id e = oid" "k < object_count st"
    using k(1) by (auto simp: find_object_index_def find_upt_Some e_def)
  have "entry_ok (conformity_category ?l) e"
    using device_id_wf_configured(2) [OF wf conf] e(3) by (simp add: list_all_length object_count_def e_def)
  then have b: "length (append_device_id_object st e) = 2 + unat (value_length e)"
    using append_device_id_object_length [OF device_id_wf_configured(1) [OF wf conf]] by (simp add: entry_size_def)
  define b where "b = append_device_id_object st e"
  have bytes: "b ! 0 = oid" "b ! 1 = value_length e" "length b = 2 + unat (value_length e)"
    using b e(2) by (simp_all add: b_def append_device_id_object_def)
  have adu: "length (rtu_frame a rsp) = 10 + length b" "rtu_frame a rsp ! 2 = 0x0E" "rtu_frame a rsp ! 3 = 4"
    "rtu_frame a rsp ! 4 = ?l" "rtu_frame a rsp ! 5 = 0" "rtu_frame a rsp ! 6 = 0" "rtu_frame a rsp ! 7 = 1"
    "rtu_frame a rsp ! 8 = b ! 0" "rtu_frame a rsp ! 9 = b ! 1"
    using bytes(3) by (simp_all add: frame_nth k(2) b_def e_def)
  have "scan_device_objects 1 True r 4 (device_id_conformity_category ?l) (rtu_frame a rsp) 8 0 =
      Inr (8 + length b, oid)"
    using adu bytes device_id_agreement(2,3) e(1) by (simp add: r_def ucast_u8_u16 Let_def)
  moreover have "adu_slice 2 (length (rtu_frame a rsp) - 4) (rtu_frame a rsp) = drop 1 rsp"
    using adu_slice_frame [of 2 "length rsp - 1" rsp a] by (cases rsp) (simp_all add: adu_slice_def)
  ultimately show ?thesis
    using adu bytes level k(3) device_id_agreement(1)
    by (simp add: check_device_id_def Let_def r_def)
qed

lemma device_id_understood:
  assumes "mbrtum_build_read_device_identification_request a code obj (Some cap) = Inr (r, adu)"
  shows "understood a cap r [0x2B, 0x0E, code, obj] adu"
proof -
  note b = device_id_built [OF assms]
  show ?thesis
  proof (rule understoodI [OF b(1), where d = "\<lambda>rsp. Some (drop 1 rsp)"])
    fix call n rsp and m m' :: mb_state
    assume wf: "mb_wf m" and "process_pdu_function call m [0x2B, 0x0E, code, obj] n = (Inr rsp, m')"
    then have rsp: "mb_device_id_process_request (device_id_state m) code obj n = Inr rsp" "device_id_wf (device_id_state m)"
      by (auto simp: process_pdu_function_def mb_mei_process_request_def Let_def mb_wf_def)
    have "code = 1 \<or> code = 2 \<or> code = 3 \<or> code = 4"
    proof -
      have "unat code = 1 \<or> unat code = 2 \<or> unat code = 3 \<or> unat code = 4"
        using rsp(1) by (auto simp: mb_device_id_process_request_def Let_def word_less_nat_alt split: if_splits)
      then show ?thesis by (auto simp: word_unat_eq_iff)
    qed
    then have "check_device_id r (rtu_frame a rsp) = ok_response r (Some (drop 1 rsp))"
      using device_id_stream_answer [OF rsp(2) _ rsp(1), of a] device_id_specific_answer [OF rsp(2), of obj n rsp a] rsp(1)
      unfolding b(2) by blast
    then show "check_normal_response r adu (rtu_frame a rsp) = ok_response r (Some (drop 1 rsp))"
      using b(2) by (simp add: check_normal_response_def)
  qed auto
qed

section \<open>Serial-line functions\<close>

text \<open>A response PDU the master accepts as the answer to the request, normally or as an exception.\<close>

definition acceptable :: "u8 \<Rightarrow> mbrtum_request \<Rightarrow> bytes \<Rightarrow> bytes \<Rightarrow> bytes \<Rightarrow> bool" where
  "acceptable a r pdu adu rsp \<longleftrightarrow>
     (\<exists>e. rsp = [pdu ! 0 OR 0x80, e] \<and> 1 \<le> e \<and> e \<le> 0x0B) \<or>
     2 \<le> length rsp \<and> length rsp \<le> 253 \<and> rsp ! 0 = pdu ! 0 \<and>
       (\<exists>d. check_normal_response r adu (rtu_frame a rsp) = ok_response r d)"

lemma acceptable_length: "acceptable a r pdu adu rsp \<Longrightarrow> 2 \<le> length rsp \<and> length rsp \<le> 253"
  by (auto simp: acceptable_def)

lemma acceptable_exceptionI: "1 \<le> e \<Longrightarrow> e \<le> 0x0B \<Longrightarrow> acceptable a r pdu adu [pdu ! 0 OR 0x80, e]"
  by (simp add: acceptable_def)

lemma acceptable_normalI:
  "check_normal_response r adu (rtu_frame a rsp) = ok_response r d \<Longrightarrow> 2 \<le> length rsp \<Longrightarrow> length rsp \<le> 253 \<Longrightarrow>
   rsp ! 0 = pdu ! 0 \<Longrightarrow> acceptable a r pdu adu rsp"
  by (auto simp: acceptable_def)

lemma diagnosed_answer:
  assumes "rtu_wf s" "1 \<le> a" "a \<le> 247" "256 \<le> cap" "pdu \<noteq> []" "length pdu \<le> 253"
    "rtu_diag s = Some d" "\<not> listen_only d"
    "\<And>d. log_wf d \<Longrightarrow> \<not> listen_only d \<Longrightarrow>
       \<exists>rsp d'. mbrtu_diagnostics_process_pdu (Some d) pol a (Some pdu) (Some (cap - 3)) = (PDU_RESPONSE rsp, d') \<and>
         acceptable a r pdu adu rsp"
  shows "\<exists>rsp s'. mbrtu_process_adu_with_diagnostics call pol a (Some (rtu_frame a pdu)) (Some cap) s =
      (MBRTU_RESPONSE_READY (rtu_frame a rsp), s') \<and> acceptable a r pdu adu rsp \<and> rtu_mb s' = rtu_mb s \<and> rtu_wf s'"
proof -
  let ?adu = "rtu_frame a pdu"
  let ?s1 = "note_diag mbrtu_diagnostics_note_server_message
      (note_diag (mbrtu_diagnostics_note_bus_message (?adu ! 0 = 0)) s)"
  let ?d1 = "mbrtu_diagnostics_note_server_message (mbrtu_diagnostics_note_bus_message (a = 0) d)"
  have len: "4 \<le> length ?adu" "length ?adu \<le> 256" using assms(5,6) by (cases pdu; simp)+
  have wf1: "rtu_wf ?s1" using assms(1) by (simp add: note_diag_wf)
  have d1: "rtu_diag ?s1 = Some ?d1" using assms(7) by simp
  then have "log_wf ?d1" "\<not> listen_only ?d1" using wf1 assms(7,8) by (simp_all add: rtu_wf_def)
  with assms(9) obtain rsp d' where rsp: "acceptable a r pdu adu rsp"
    "mbrtu_diagnostics_process_pdu (Some ?d1) pol a (Some pdu) (Some (cap - 3)) = (PDU_RESPONSE rsp, d')" by blast
  have room: "pdu_room cap = cap - 3" "\<not> cap < 1 + length rsp + 2"
    using assms(4) acceptable_length [OF rsp(1)] by (simp_all add: pdu_room_def)
  obtain q s' where st: "rtu_diagnostics_stage pol ?adu cap ?s1 = (q, s')" by fastforce
  then have q: "q = Some (MBRTU_RESPONSE_READY (rtu_frame a rsp))"
    using d1 rsp(2) room by (auto simp: rtu_diagnostics_stage_def Let_def)
  have "\<not> mbrtu_diagnostics_is_listen_only (rtu_diag s)"
    using assms(7,8) by (simp add: mbrtu_diagnostics_is_listen_only_def)
  then have "mbrtu_process_adu_with_diagnostics call pol a (Some ?adu) (Some cap) s =
      (MBRTU_RESPONSE_READY (rtu_frame a rsp), s')"
    unfolding rtu_accepted [OF assms(2,3) rtu_frame_accepted [OF assms(5,6), of a a, simplified]]
    using st q by (simp add: rtu_process_addressed_def)
  moreover have "rtu_wf s'" "rtu_mb s' = rtu_mb s"
    using diagnostics_stage_ok [OF wf1 len assms(4) st] by simp_all
  ultimately show ?thesis using rsp(1) by blast
qed

lemma function_only_response:
  assumes "\<not> listen_only d" "log_wf d" "a \<noteq> 0" "253 \<le> cap" "f = 0x07 \<or> f = 0x0B \<or> f = 0x0C"
    "r = finish_request a f 0 0 0"
  shows "\<exists>rsp d'. mbrtu_diagnostics_process_pdu (Some d) pol a (Some [f]) (Some cap) = (PDU_RESPONSE rsp, d') \<and>
    acceptable a r [f] adu rsp"
proof -
  have log: "event_log_count d \<le> 64" using assms(2) by (simp add: log_wf_def)
  define n where "n = event_log_count d"
  define evs where "evs = map (\<lambda>i. case mbrtu_diagnostics_get_event d i of None \<Rightarrow> 0 | Some e \<Rightarrow> e) [0..<n]"
  have n: "n \<le> 64" "length evs = n" using log by (simp_all add: n_def evs_def)
  have u: "unat (of_nat (6 + n) :: u8) = 6 + n" by (rule unat_of_nat_u8) (use n in linarith)
  consider "f = 0x07" | "f = 0x0B" | "f = 0x0C" using assms(5) by blast
  then show ?thesis
  proof cases
    case 1
    then show ?thesis
      using assms by (auto simp: mbrtu_diagnostics_process_pdu_def read_exception_status_pdu_def acceptable_def
          check_normal_response_def intro!: exI)
  next
    case 2
    then show ?thesis
      using assms by (auto simp: mbrtu_diagnostics_process_pdu_def get_comm_event_counter_pdu_def acceptable_def
          check_normal_response_def intro!: exI)
  next
    case 3
    let ?rsp = "[f, of_nat (6 + n)] @ write_be16 (communication_status d) @ write_be16 (event_counter d) @
        write_be16 (message_count d) @ evs"
    have "mbrtu_diagnostics_process_pdu (Some d) pol a (Some [f]) (Some cap) = (PDU_RESPONSE ?rsp, Some d)"
      using assms 3 n by (simp add: mbrtu_diagnostics_process_pdu_def get_comm_event_log_pdu_def n_def evs_def)
    moreover have "check_normal_response r adu (rtu_frame a ?rsp) = ok_response r (Some (adu_slice 3 (6 + n) (rtu_frame a ?rsp)))"
      using assms(6) 3 u n by (simp add: check_normal_response_def check_event_log_def Let_def frame_nth del: of_nat_add)
    ultimately show ?thesis using n by (intro exI conjI) (auto intro: acceptable_normalI)
  qed
qed

lemma word_response_ok:
  assumes "rq_function r = 0x08" "rq_start_address r = sub" "sub \<noteq> 0" "length d = 2"
    "diagnostic_subfunction_returns_counter sub \<or> write_be16 v = d"
  shows "acceptable a r ([0x08] @ write_be16 sub @ d) (rtu_frame a ([0x08] @ write_be16 sub @ d))
    ([0x08] @ write_be16 sub @ write_be16 v)"
proof -
  let ?pdu = "[0x08] @ write_be16 sub @ d" and ?rsp = "[0x08] @ write_be16 sub @ write_be16 v"
  have "read_be16 (rtu_frame a ?rsp) 2 = sub" using frame_be16 [of 2 ?rsp a] by simp
  moreover have "adu_slice 4 2 (rtu_frame a ?rsp) = write_be16 v" "adu_slice 4 2 (rtu_frame a ?pdu) = d"
    using adu_slice_frame [of 4 2 ?rsp a] adu_slice_frame [of 4 2 ?pdu a] assms(4) by simp_all
  ultimately have "check_normal_response r (rtu_frame a ?pdu) (rtu_frame a ?rsp) =
      ok_response r (Some (adu_slice 2 4 (rtu_frame a ?rsp)))"
    using assms by (auto simp: check_normal_response_def check_diagnostics_def)
  then show ?thesis by (rule acceptable_normalI) simp_all
qed

lemma fc08_query_acceptable:
  assumes "\<not> listen_only d" "a \<noteq> 0" "253 \<le> cap" "rq_function r = 0x08" "rq_start_address r = 0"
    "length dd \<le> 250" "even (length dd)"
  defines "pdu \<equiv> [0x08] @ write_be16 0 @ dd"
  shows "\<exists>rsp. fst (process_fc08 pol a pdu cap d) = PDU_RESPONSE rsp \<and> acceptable a r pdu (rtu_frame a pdu) rsp"
proof -
  have p: "pdu ! 0 = 0x08" "length pdu = 3 + length dd" "read_be16 pdu 1 = 0" by (simp_all add: pdu_def)
  have "check_normal_response r (rtu_frame a pdu) (rtu_frame a pdu) =
      ok_response r (Some (adu_slice 2 (length pdu - 1) (rtu_frame a pdu)))"
    using assms(4,5,7) p frame_be16 [of 2 pdu a]
    by (auto simp: check_normal_response_def check_diagnostics_def even_iff_mod_2_eq_zero)
  then have "acceptable a r pdu (rtu_frame a pdu) pdu" using p assms(6) by (intro acceptable_normalI) simp_all
  then show ?thesis
    using p assms(1-3,6,7)
    by (simp add: process_fc08_def fc08_return_query_data_def Let_def even_iff_mod_2_eq_zero)
qed

lemma fc08_word_acceptable:
  assumes "\<not> listen_only d" "a \<noteq> 0" "253 \<le> cap" "rq_function r = 0x08" "rq_start_address r = sub"
    "diagnostic_subfunction_is_supported sub" "sub \<noteq> 4" "sub \<noteq> 0" "length dd = 2"
    "if sub = 1 then read_be16 dd 0 = 0 \<or> read_be16 dd 0 = 0xFF00 else read_be16 dd 0 = 0"
  defines "pdu \<equiv> [0x08] @ write_be16 sub @ dd"
  shows "\<exists>rsp. fst (process_fc08 pol a pdu cap d) = PDU_RESPONSE rsp \<and> acceptable a r pdu (rtu_frame a pdu) rsp"
proof -
  have p: "pdu ! 0 = 0x08" "length pdu = 5" "read_be16 pdu 1 = sub" "read_be16 pdu 3 = read_be16 dd 0"
    using assms(9) by (simp_all add: pdu_def)
  have dd: "write_be16 (read_be16 dd 0) = dd"
    using be.enc_dec [of 0 dd] assms(9) by (cases dd; cases "tl dd") auto
  have exc: "acceptable a r pdu (rtu_frame a pdu) [0x88, 3]"
    using acceptable_exceptionI [of 3 a r pdu "rtu_frame a pdu"] p(1) by simp
  have echo: "acceptable a r pdu (rtu_frame a pdu) ([0x08] @ write_be16 sub @ write_be16 (read_be16 dd 0))"
    and counter: "diagnostic_subfunction_returns_counter sub \<Longrightarrow>
      acceptable a r pdu (rtu_frame a pdu) ([0x08] @ write_be16 sub @ write_be16 v)" for v
    using word_response_ok [OF assms(4,5,8,9), of _ a] dd unfolding pdu_def by blast+
  note defs = process_fc08_def Let_def make_exception_def silent_or_exception_def fixed_word_response_def
  consider "sub = 1" | "sub = 2" | "sub = 0xA" | "sub \<in> set [0xB, 0xC, 0xD, 0xE, 0xF, 0x10, 0x11, 0x12]" | "sub = 0x14"
    using assms(6-8) by (auto simp: diagnostic_subfunction_is_supported_def)
  then show ?thesis
  proof cases
    case 1
    then show ?thesis
      using p assms(10) exc echo assms(1-3) by (auto simp: defs fc08_restart_communications_def)
  next
    case 2
    then show ?thesis
      using p assms(10) counter assms(1-3)
      by (auto simp: defs fc08_return_diagnostic_register_def diagnostic_subfunction_returns_counter_def)
  next
    case 3
    then show ?thesis
      using p assms(10) exc echo assms(1-3) by (auto simp: defs fc08_clear_counters_and_register_def)
  next
    case 4
    then have "diagnostic_subfunction_returns_counter sub" "0xB \<le> sub" "sub \<le> 0x12" "sub \<noteq> 0" "sub \<noteq> 1"
      "sub \<noteq> 2" "sub \<noteq> 4" "sub \<noteq> 0xA"
      by (auto simp: diagnostic_subfunction_returns_counter_def)
    then show ?thesis
      using p assms(10) counter assms(1-3) by (auto simp: defs fc08_return_count_def)
  next
    case 5
    then show ?thesis
      using p assms(10) exc echo assms(1-3) by (auto simp: defs fc08_clear_overrun_counter_def)
  qed
qed

lemma process_fc08_run:
  assumes "\<not> listen_only d" "pdu ! 0 = 0x08" "pdu \<noteq> []" "length pdu \<le> 253"
    "\<exists>rsp. fst (process_fc08 pol a pdu cap d) = PDU_RESPONSE rsp \<and> acceptable a r pdu adu rsp"
  shows "\<exists>rsp d'. mbrtu_diagnostics_process_pdu (Some d) pol a (Some pdu) (Some cap) = (PDU_RESPONSE rsp, d') \<and>
    acceptable a r pdu adu rsp"
  using assms by (auto simp: mbrtu_diagnostics_process_pdu_def case_prod_beta)

lemma server_id_acceptable:
  assumes "server_id_wf st" "253 \<le> cap" "r = (finish_request a 0x11 0 0 0)\<lparr>rq_quantity := n\<rparr>" "unat n \<le> 250"
    "sid_configured st \<longrightarrow> unat n < length (sid_data st) \<and> sid_data st ! unat n \<in> set [0x00, 0xFF]"
  shows "\<exists>rsp. mbrtu_server_id_process_pdu st (Some [0x11]) (Some cap) = SERVER_ID_RESPONSE rsp \<and>
    acceptable a r [0x11] adu rsp"
proof (cases "sid_configured st")
  case False
  then show ?thesis
    using assms(2) acceptable_exceptionI [of 4 a r "[0x11]" adu]
    by (simp add: mbrtu_server_id_process_pdu_def write_exception_def)
next
  case True
  let ?d = "sid_data st" let ?rsp = "[0x11, of_nat (length ?d)] @ ?d"
  have len: "length ?d \<le> 251" "unat (of_nat (length ?d) :: u8) = length ?d"
    using assms(1) by (simp_all add: server_id_wf_def)
  have "rtu_frame a ?rsp ! (3 + unat n) = ?d ! unat n"
    using True assms(5) by (subst frame_nth) (simp_all add: nth_append)
  then have "check_normal_response r adu (rtu_frame a ?rsp) = ok_response r (Some (adu_slice 3 (length ?d) (rtu_frame a ?rsp)))"
    using True assms(3,5) len by (auto simp: check_normal_response_def check_server_id_def Let_def frame_nth)
  then have "acceptable a r [0x11] adu ?rsp" using True assms(5) len by (intro acceptable_normalI) auto
  then show ?thesis using True assms(2) len by (simp add: mbrtu_server_id_process_pdu_def)
qed

lemma identified_answer:
  assumes "rtu_wf s" "1 \<le> a" "a \<le> 247" "256 \<le> cap" "\<not> mbrtu_diagnostics_is_listen_only (rtu_diag s)"
    "\<exists>rsp. mbrtu_server_id_process_pdu (rtu_server_id s) (Some [0x11]) (Some (cap - 3)) = SERVER_ID_RESPONSE rsp \<and>
       acceptable a r [0x11] adu rsp"
  shows "\<exists>rsp s'. mbrtu_process_adu_with_diagnostics call pol a (Some (rtu_frame a [0x11])) (Some cap) s =
      (MBRTU_RESPONSE_READY (rtu_frame a rsp), s') \<and> acceptable a r [0x11] adu rsp \<and> rtu_mb s' = rtu_mb s \<and> rtu_wf s'"
proof -
  let ?adu = "rtu_frame a [0x11]"
  let ?s1 = "note_diag mbrtu_diagnostics_note_server_message
      (note_diag (mbrtu_diagnostics_note_bus_message (?adu ! 0 = 0)) s)"
  have wf1: "rtu_wf ?s1" using assms(1) by (simp add: note_diag_wf)
  obtain rsp where rsp: "acceptable a r [0x11] adu rsp"
    "mbrtu_server_id_process_pdu (rtu_server_id s) (Some [0x11]) (Some (cap - 3)) = SERVER_ID_RESPONSE rsp"
    using assms(6) by blast
  have room: "pdu_room cap = cap - 3" "\<not> cap < 1 + length rsp + 2" "a \<noteq> 0"
    using assms(2,4) acceptable_length [OF rsp(1)] by (auto simp: pdu_room_def)
  obtain q s' where st: "rtu_server_id_stage ?adu cap ?s1 = (q, s')" by fastforce
  have "take (Suc 0) (drop (Suc 0) ?adu) = [0x11]" by (simp add: rtu_frame_def)
  with st have q: "q = Some (MBRTU_RESPONSE_READY (rtu_frame a rsp))"
    using rsp(2) room by (auto simp: rtu_server_id_stage_def)
  have "rtu_diagnostics_stage pol ?adu cap ?s1 = (None, ?s1)" by (intro diagnostics_stage_not_diag) simp_all
  then have "mbrtu_process_adu_with_diagnostics call pol a (Some ?adu) (Some cap) s =
      (MBRTU_RESPONSE_READY (rtu_frame a rsp), s')"
    using rtu_accepted [OF assms(2,3) rtu_frame_accepted [of "[0x11]" a a, simplified], of call pol cap s]
      assms(5) st q by (simp add: rtu_process_addressed_def)
  moreover have "rtu_wf s'" "rtu_mb s' = rtu_mb s" using server_id_stage_ok [OF wf1 assms(4) st] by simp_all
  ultimately show ?thesis using rsp(1) by blast
qed

section \<open>Every request of the master\<close>

text \<open>The slave answers the frame, and validation accepts the answer.\<close>

definition accepted_answer ::
  "mei_call \<Rightarrow> diag_policy \<Rightarrow> u8 \<Rightarrow> mbrtum_request \<Rightarrow> bytes \<Rightarrow> nat \<Rightarrow> rtu_state \<Rightarrow> bool" where
  "accepted_answer call pol a r adu rcap s \<longleftrightarrow>
     (\<exists>rsp p s'. mbrtu_process_adu_with_diagnostics call pol a (Some adu) (Some rcap) s =
        (MBRTU_RESPONSE_READY rsp, s') \<and> rtu_wf s' \<and> rs_function p = rq_function r \<and>
      (mbrtum_process_response_with_request_adu (Some r) (Some adu) (Some rsp) = MBRTUM_OK p \<and>
         rs_exception_code p = 0 \<or>
       mbrtum_process_response_with_request_adu (Some r) (Some adu) (Some rsp) = MBRTUM_EXCEPTION_RESPONSE p \<and>
         1 \<le> rs_exception_code p \<and> rs_exception_code p \<le> 0x0B \<and> rtu_mb s' = rtu_mb s))"

lemma accepted_answerI:
  assumes "well_built a cap r pdu adu" "rq_expects_response r \<noteq> 0"
    "\<exists>rsp s'. mbrtu_process_adu_with_diagnostics call pol a (Some adu) (Some rcap) s =
      (MBRTU_RESPONSE_READY (rtu_frame a rsp), s') \<and> acceptable a r pdu adu rsp \<and> rtu_mb s' = rtu_mb s \<and> rtu_wf s'"
  shows "accepted_answer call pol a r adu rcap s"
proof -
  obtain rsp s' where run: "mbrtu_process_adu_with_diagnostics call pol a (Some adu) (Some rcap) s =
      (MBRTU_RESPONSE_READY (rtu_frame a rsp), s')" "acceptable a r pdu adu rsp" "rtu_mb s' = rtu_mb s" "rtu_wf s'"
    using assms(3) by blast
  have f: "rq_function r = pdu ! 0" using assms(1) by (simp add: well_built_def)
  from run(2) show ?thesis
    unfolding acceptable_def
  proof (elim disjE exE conjE)
    fix e assume e: "rsp = [pdu ! 0 OR 0x80, e]" "1 \<le> e" "e \<le> 0x0B"
    then have "e \<noteq> 0" by auto
    with framed_exception [OF assms(1,2)] e run f show ?thesis by (auto simp: accepted_answer_def)
  next
    fix d assume "2 \<le> length rsp" "length rsp \<le> 253" "rsp ! 0 = pdu ! 0"
      "check_normal_response r adu (rtu_frame a rsp) = ok_response r d"
    with framed_answer [OF assms(1,2)] run f show ?thesis
      unfolding accepted_answer_def ok_response_def by fastforce
  qed
qed

lemma understood_accepted:
  assumes "understood a cap r pdu adu" "a \<noteq> 0" "rq_expects_response r \<noteq> 0" "rtu_wf s" "256 \<le> rcap"
    "\<not> mbrtu_diagnostics_is_listen_only (rtu_diag s)"
  shows "accepted_answer call pol a r adu rcap s"
proof (rule exchange_run [OF assms, of call pol])
  fix rsp s' d
  assume "exchange call pol a r adu rcap s = (Some (ok_response r d), s')" "rtu_wf s'"
  then show ?thesis by (auto elim!: exchange_answered simp: ok_response_def accepted_answer_def)
next
  fix e s'
  assume "exchange call pol a r adu rcap s =
      (Some (MBRTUM_EXCEPTION_RESPONSE \<lparr>rs_function = rq_function r, rs_exception_code = e, rs_data = None\<rparr>), s')"
    "rtu_wf s'" "1 \<le> e" "e \<le> 0x0B" "rtu_mb s' = rtu_mb s"
  then show ?thesis by (auto elim!: exchange_answered simp: accepted_answer_def)
qed

lemma undiagnosed_answer:
  assumes "rtu_wf s" "1 \<le> a" "a \<le> 247" "256 \<le> cap" "pdu \<noteq> []" "length pdu \<le> 253"
    "rtu_diag s = None" "pdu ! 0 \<in> set [0x07, 0x08, 0x0B, 0x0C]"
  shows "\<exists>rsp s'. mbrtu_process_adu_with_diagnostics call pol a (Some (rtu_frame a pdu)) (Some cap) s =
      (MBRTU_RESPONSE_READY (rtu_frame a rsp), s') \<and> acceptable a r pdu adu rsp \<and> rtu_mb s' = rtu_mb s \<and> rtu_wf s'"
proof -
  have "pdu ! 0 \<noteq> 0x11" using assms(8) by auto
  then obtain rsp s' where run: "mbrtu_process_adu_with_diagnostics call pol a (Some (rtu_frame a pdu)) (Some cap) s =
      (MBRTU_RESPONSE_READY (rtu_frame a rsp), s')"
    "mb_process_pdu call (rtu_mb s) (Some pdu) (Some (cap - 3)) = (Inr rsp, rtu_mb s')" "rtu_wf s'"
    using unicast_answer [OF assms(1-6), of call pol] assms(7) by blast
  have "mb_process_pdu call (rtu_mb s) (Some pdu) (Some (cap - 3)) = (Inr [pdu ! 0 OR 0x80, 1], rtu_mb s)"
    using assms(4-6,8) by (auto simp: mb_process_pdu_def process_pdu_function_def)
  then have "rsp = [pdu ! 0 OR 0x80, 1]" "rtu_mb s' = rtu_mb s" using run(2) by simp_all
  with run acceptable_exceptionI [of 1 a r pdu adu] show ?thesis by auto
qed

lemma serial_accepted:
  assumes "well_built a cap r pdu adu" "rq_expects_response r \<noteq> 0" "rtu_wf s" "256 \<le> rcap"
    "\<not> mbrtu_diagnostics_is_listen_only (rtu_diag s)" "pdu ! 0 \<in> set [0x07, 0x08, 0x0B, 0x0C]"
    "\<And>d. log_wf d \<Longrightarrow> \<not> listen_only d \<Longrightarrow>
       \<exists>rsp d'. mbrtu_diagnostics_process_pdu (Some d) pol a (Some pdu) (Some (rcap - 3)) = (PDU_RESPONSE rsp, d') \<and>
         acceptable a r pdu adu rsp"
  shows "accepted_answer call pol a r adu rcap s"
proof (rule accepted_answerI [OF assms(1,2)])
  have b: "adu = rtu_frame a pdu" "pdu \<noteq> []" "length pdu \<le> 253" "a \<le> 247" using assms(1) by (simp_all add: well_built_def)
  have "a \<noteq> 0" using well_built_validates(2) [OF assms(1,2)] by (auto simp: unicast_address_is_valid_def)
  then have a: "1 \<le> a" by (simp add: word_le_nat_alt Suc_le_eq unat_gt_0)
  show "\<exists>rsp s'. mbrtu_process_adu_with_diagnostics call pol a (Some adu) (Some rcap) s =
      (MBRTU_RESPONSE_READY (rtu_frame a rsp), s') \<and> acceptable a r pdu adu rsp \<and> rtu_mb s' = rtu_mb s \<and> rtu_wf s'"
  proof (cases "rtu_diag s")
    case None
    then show ?thesis unfolding b(1) using undiagnosed_answer [OF assms(3) a b(4) assms(4) b(2,3) _ assms(6)] by blast
  next
    case (Some d)
    then have "\<not> listen_only d" using assms(5) by (simp add: mbrtu_diagnostics_is_listen_only_def)
    from diagnosed_answer [OF assms(3) a b(4) assms(4) b(2,3) Some this assms(7)] show ?thesis
      unfolding b(1) by blast
  qed
qed

lemma function_only_accepted_answer:
  assumes "build_function_only_request a f (Some cap) = Inr (r, adu)" "f = 0x07 \<or> f = 0x0B \<or> f = 0x0C"
    "rtu_wf s" "256 \<le> rcap" "\<not> mbrtu_diagnostics_is_listen_only (rtu_diag s)"
  shows "accepted_answer call pol a r adu rcap s"
proof -
  note * = function_only_accepted [OF assms(1)]
  have a: "a \<noteq> 0" "253 \<le> rcap - 3" using unicast_bounds [OF *(4)] assms(4) by simp_all
  show ?thesis
  proof (rule serial_accepted [OF function_only_built [OF assms(1,2)] _ assms(3-5)])
    fix d assume "log_wf d" "\<not> listen_only d"
    then show "\<exists>rsp d'. mbrtu_diagnostics_process_pdu (Some d) pol a (Some [f]) (Some (rcap - 3)) =
        (PDU_RESPONSE rsp, d') \<and> acceptable a r [f] adu rsp"
      using function_only_response [OF _ _ a assms(2) *(1)] by blast
  qed (use * assms(2) a in auto)
qed

lemma diagnostics_accepted_answer:
  assumes "mbrtum_build_diagnostics_request a sub (Some dd) (length dd) (Some cap) = Inr (r, adu)"
    "rq_expects_response r \<noteq> 0" "rtu_wf s" "256 \<le> rcap" "\<not> mbrtu_diagnostics_is_listen_only (rtu_diag s)"
  shows "accepted_answer call pol a r adu rcap s"
proof -
  let ?pdu = "[0x08] @ write_be16 sub @ dd"
  note b = diagnostics_built [OF assms(1)]
  have *: "diagnostic_subfunction_is_supported sub" "length dd \<le> 250" "even (length dd)"
    "rq_function r = 0x08" "rq_start_address r = sub" "sub \<noteq> 4" "a \<noteq> 0" "253 \<le> rcap - 3" "adu = rtu_frame a ?pdu"
    "sub \<noteq> 0 \<Longrightarrow> length dd = 2"
    "sub \<noteq> 0 \<Longrightarrow> (if sub = 1 then read_be16 dd 0 = 0 \<or> read_be16 dd 0 = 0xFF00 else read_be16 dd 0 = 0)"
    using assms(1,2,4) by (auto simp: mbrtum_build_diagnostics_request_def Let_def not_less even_iff_mod_2_eq_zero
        append_crc_frame split: if_splits)
  show ?thesis
  proof (rule serial_accepted [OF b assms(2-5)])
    fix d assume d: "log_wf d" "\<not> listen_only d"
    have "\<exists>rsp. fst (process_fc08 pol a ?pdu (rcap - 3) d) = PDU_RESPONSE rsp \<and> acceptable a r ?pdu adu rsp"
    proof (cases "sub = 0")
      case True
      then show ?thesis using fc08_query_acceptable [OF d(2) *(7,8,4) _ *(2,3)] *(5,9) by blast
    next
      case False
      from fc08_word_acceptable [OF d(2) *(7,8,4,5,1,6) False *(10) [OF False] *(11) [OF False]] show ?thesis
        unfolding *(9) by blast
    qed
    then show "\<exists>rsp d'. mbrtu_diagnostics_process_pdu (Some d) pol a (Some ?pdu) (Some (rcap - 3)) =
        (PDU_RESPONSE rsp, d') \<and> acceptable a r ?pdu adu rsp"
      using d(2) *(2) by (intro process_fc08_run) simp_all
  qed simp
qed

text \<open>
  The master asks for a server identification of the length the slave has: the byte behind it
  is the run indicator.
\<close>

fun identity_known :: "mbrtu_server_id_state \<Rightarrow> master_call \<Rightarrow> bool" where
  "identity_known st (Report_Server_Id n) \<longleftrightarrow>
     (sid_configured st \<longrightarrow> unat n < length (sid_data st) \<and> sid_data st ! unat n \<in> set [0x00, 0xFF])"
| "identity_known st _ \<longleftrightarrow> True"

lemma server_id_accepted_answer:
  assumes "mbrtum_build_report_server_id_request a n (Some cap) = Inr (r, adu)"
    "identity_known (rtu_server_id s) (Report_Server_Id n)"
    "rtu_wf s" "256 \<le> rcap" "\<not> mbrtu_diagnostics_is_listen_only (rtu_diag s)"
  shows "accepted_answer call pol a r adu rcap s"
proof -
  obtain q where q: "build_function_only_request a 0x11 (Some cap) = Inr (q, adu)" "r = q\<lparr>rq_quantity := n\<rparr>" "unat n \<le> 250"
    using assms(1) by (auto simp: mbrtum_build_report_server_id_request_def not_less split: if_splits sum.splits)
  note * = function_only_accepted [OF q(1)]
  have a: "a \<noteq> 0" "a \<le> 247" "253 \<le> rcap - 3" using unicast_bounds [OF *(4)] assms(4) by simp_all
  then have "1 \<le> a" by (simp add: word_le_nat_alt Suc_le_eq unat_gt_0)
  moreover have "server_id_wf (rtu_server_id s)" using assms(3) by (simp add: rtu_wf_def)
  ultimately have "\<exists>rsp s'. mbrtu_process_adu_with_diagnostics call pol a (Some (rtu_frame a [0x11])) (Some rcap) s =
      (MBRTU_RESPONSE_READY (rtu_frame a rsp), s') \<and> acceptable a r [0x11] adu rsp \<and> rtu_mb s' = rtu_mb s \<and> rtu_wf s'"
    using assms(2) q(2,3) *(1) a(3)
    by (intro identified_answer [OF assms(3) _ a(2) assms(4,5)] server_id_acceptable) simp_all
  then show ?thesis
    using *(1,2) q(2) a(1) append_crc_frame [of a "[0x11]"]
    by (intro accepted_answerI [OF server_id_built [OF assms(1)]]) simp_all
qed

lemma every_answer_accepted:
  assumes "build_request a c cap = Inr (r, adu)" "arguments_ok c" "rq_expects_response r \<noteq> 0"
    "identity_known (rtu_server_id s) c" "rtu_wf s" "256 \<le> rcap" "\<not> mbrtu_diagnostics_is_listen_only (rtu_diag s)"
  shows "accepted_answer call pol a r adu rcap s"
proof (cases "\<exists>pdu. understood a cap r pdu adu")
  case True
  then obtain pdu where u: "understood a cap r pdu adu" ..
  then have "unicast_address_is_valid a" using assms(3) well_built_validates(2) by (auto simp: understood_def)
  with u assms show ?thesis by (intro understood_accepted [of a cap r pdu]) (auto dest: unicast_bounds)
next
  case False
  then have "\<not> data_call c" using data_requests_understood [OF assms(1,2)] by blast
  then show ?thesis
    using assms False by (cases c) (auto simp: mbrtum_build_read_exception_status_request_def
      mbrtum_build_get_comm_event_counter_request_def mbrtum_build_get_comm_event_log_request_def
      intro: function_only_accepted_answer server_id_accepted_answer diagnostics_accepted_answer
      dest: read_file_understood write_file_understood fifo_understood mei_understood device_id_understood)
qed

text \<open>
  C3. The master accepts every answer of the slave: whatever builder made the request, for any
  function code, and whatever the slave holds, the slave (addressed, not in listen-only mode, with
  room for a frame) answers a request that expects a response with a frame that the response
  validation of the master accepts, as the normal response to this request or as an exception
  response with a code from 1 to 11; after an exception the data of the slave is unchanged. The
  one condition on the slave is that a Report Server ID request names the length of the
  identification the slave has.
\<close>

theorem slave_answers_accepted:
  assumes "build_request a c cap = Inr (r, adu)" "arguments_ok c" "rq_expects_response r \<noteq> 0"
    "identity_known (rtu_server_id s) c" "rtu_wf s" "256 \<le> rcap" "\<not> mbrtu_diagnostics_is_listen_only (rtu_diag s)"
  shows "\<exists>rsp p s'. mbrtu_process_adu_with_diagnostics call pol a (Some adu) (Some rcap) s =
      (MBRTU_RESPONSE_READY rsp, s') \<and> rtu_wf s' \<and> rs_function p = rq_function r \<and>
    (mbrtum_process_response_with_request_adu (Some r) (Some adu) (Some rsp) = MBRTUM_OK p \<and>
       rs_exception_code p = 0 \<or>
     mbrtum_process_response_with_request_adu (Some r) (Some adu) (Some rsp) = MBRTUM_EXCEPTION_RESPONSE p \<and>
       1 \<le> rs_exception_code p \<and> rs_exception_code p \<le> 0x0B \<and> rtu_mb s' = rtu_mb s)"
  using every_answer_accepted [OF assms] by (simp only: accepted_answer_def)

theorem slave_answers_accepted_witness:
  "\<exists>rsp p s'. mbrtu_process_adu_with_diagnostics demo_call None 17 (Some (append_crc [17, 0x03, 0, 0, 0, 1])) (Some 256)
      demo_rtu = (MBRTU_RESPONSE_READY rsp, s') \<and> rtu_wf s' \<and> rs_function p = 0x03 \<and>
    (mbrtum_process_response_with_request_adu (Some demo_request) (Some (append_crc [17, 0x03, 0, 0, 0, 1])) (Some rsp) =
       MBRTUM_OK p \<and> rs_exception_code p = 0 \<or>
     mbrtum_process_response_with_request_adu (Some demo_request) (Some (append_crc [17, 0x03, 0, 0, 0, 1])) (Some rsp) =
       MBRTUM_EXCEPTION_RESPONSE p \<and> 1 \<le> rs_exception_code p \<and> rs_exception_code p \<le> 0x0B \<and>
       rtu_mb s' = rtu_mb demo_rtu)"
proof -
  have b: "build_request 17 (Read_Registers 0x03 0 1) 256 = Inr (demo_request, append_crc [17, 0x03, 0, 0, 0, 1])"
    by (simp add: mbrtum_build_read_registers_request_def build_fixed_request_def demo_request_def
        unicast_address_is_valid_def address_range_is_valid_def write_be16_def)
  have lo: "\<not> mbrtu_diagnostics_is_listen_only (rtu_diag demo_rtu)"
    by (simp add: demo_rtu_def mbrtu_diagnostics_is_listen_only_def mbrtu_diagnostics_init_def)
  have "rq_function demo_request = 0x03" by (simp add: demo_request_def)
  moreover have "rq_expects_response demo_request \<noteq> 0" by (simp add: demo_request_def)
  ultimately show ?thesis using slave_answers_accepted [OF b _ _ _ demo_rtu_wf _ lo, of 256 demo_call None] by simp
qed

section \<open>A transaction with the slave\<close>

lemma accepted_response_length:
  assumes "mbrtum_process_response_with_request_adu (Some r) q (Some adu) = MBRTUM_OK p \<or>
    mbrtum_process_response_with_request_adu (Some r) q (Some adu) = MBRTUM_EXCEPTION_RESPONSE p"
  shows "5 \<le> length adu \<and> length adu \<le> 256"
  using assms by (auto simp: mbrtum_process_response_with_request_adu_def split: option.splits if_splits)

lemma started_transaction:
  fixes now now0 :: u32
  assumes "txn_reachable transmit t" "\<not> state_is_active (t_state t)" "request_adu_matches_descriptor r adu"
    "adu \<noteq> []" "length adu \<le> 256" "transmit (t_sent t) adu" "rq_expects_response r \<noteq> 0"
  defines "t2 \<equiv> snd (mbrtum_transaction_on_tx_complete now (snd (mbrtum_transaction_start transmit (Some r) (Some adu) now0 t)))"
  shows "transaction_is_initialized t2" "t_state t2 = MBRTUM_TXN_STATE_WAITING_RESPONSE"
    "t_deadline t2 = now + response_timeout_ticks (t_config t)" "t_request t2 = r" "t_request_adu t2 = adu"
    "t_sent t2 = t_sent t @ [adu]" "t_exception_code t2 = 0"
proof -
  have init: "transaction_is_initialized t" using reachable_wf [OF assms(1)] by (simp add: txn_wf_def)
  then have "t_cookie t = MBRTUM_TXN_INITIALIZATION_COOKIE" by (simp only: transaction_is_initialized_def)
  with init assms(2-7) show "transaction_is_initialized t2" "t_state t2 = MBRTUM_TXN_STATE_WAITING_RESPONSE"
    "t_deadline t2 = now + response_timeout_ticks (t_config t)" "t_request t2 = r" "t_request_adu t2 = adu"
    "t_sent t2 = t_sent t @ [adu]" "t_exception_code t2 = 0"
    by (simp_all add: t2_def mbrtum_transaction_start_def begin_transmit_def Let_def bump_diag_def clear_response_def
        mbrtum_transaction_on_tx_complete_def transaction_is_initialized_def)
qed

text \<open>
  C4. A transaction with the slave completes. The application starts a transaction with any
  request a builder made, the transport accepts it and reports the end of the transmission at
  any time of the wrapping tick counter; the slave processes the frame, and its answer is handed
  to the transaction before the response timeout. Then the transaction is complete after this
  one transmission, with success or with the exception code the slave sent. As before, a Report
  Server ID request has to name the length of the identification the slave has.
\<close>

theorem slave_completes_transaction:
  assumes "txn_reachable transmit t" "\<not> state_is_active (t_state t)" "transmit (t_sent t) adu"
    "build_request a c cap = Inr (r, adu)" "arguments_ok c" "rq_expects_response r \<noteq> 0"
    "identity_known (rtu_server_id s) c" "rtu_wf s" "256 \<le> rcap" "\<not> mbrtu_diagnostics_is_listen_only (rtu_diag s)"
    "e < unat (response_timeout_ticks (t_config t))"
  shows "\<exists>rsp s' t3. mbrtu_process_adu_with_diagnostics call pol a (Some adu) (Some rcap) s =
      (MBRTU_RESPONSE_READY rsp, s') \<and>
    mbrtum_transaction_on_response (Some rsp) (now + of_nat e)
      (snd (mbrtum_transaction_on_tx_complete now
        (snd (mbrtum_transaction_start transmit (Some r) (Some adu) now0 t)))) = (MBRTUM_TXN_OK, t3) \<and>
    t_state t3 = MBRTUM_TXN_STATE_COMPLETE \<and> t_sent t3 = t_sent t @ [adu] \<and>
    (t_result t3 = MBRTUM_TXN_RESULT_SUCCESS \<and> t_exception_code t3 = 0 \<or>
     t_result t3 = MBRTUM_TXN_RESULT_MODBUS_EXCEPTION \<and> 1 \<le> t_exception_code t3 \<and> t_exception_code t3 \<le> 0x0B \<and>
       rtu_mb s' = rtu_mb s)"
proof -
  let ?t2 = "snd (mbrtum_transaction_on_tx_complete now (snd (mbrtum_transaction_start transmit (Some r) (Some adu) now0 t)))"
  obtain pdu where b: "well_built a cap r pdu adu" using builders_well_built [OF assms(4,5)] ..
  then have "adu = rtu_frame a pdu" "length pdu \<le> 253" by (simp_all add: well_built_def)
  then have "adu \<noteq> []" "length adu \<le> 256" by (simp_all add: rtu_frame_def)
  note t2 = started_transaction [OF assms(1,2) well_built_matches [OF b] this assms(3,6), of now now0]
  have d: "duration_is_valid (response_timeout_ticks (t_config t))"
    using reachable_wf [OF assms(1)] by (simp add: txn_wf_def)
  then have "\<not> deadline_reached (now + of_nat e) (t_deadline ?t2)"
    unfolding t2(3) using deadline_reached_iff [OF d, of e now] assms(11)
    by (simp add: duration_is_valid_def word_le_nat_alt)
  moreover obtain rsp p s' where rsp: "mbrtu_process_adu_with_diagnostics call pol a (Some adu) (Some rcap) s =
      (MBRTU_RESPONSE_READY rsp, s')" and p:
    "mbrtum_process_response_with_request_adu (Some r) (Some adu) (Some rsp) = MBRTUM_OK p \<and> rs_exception_code p = 0 \<or>
     mbrtum_process_response_with_request_adu (Some r) (Some adu) (Some rsp) = MBRTUM_EXCEPTION_RESPONSE p \<and>
       1 \<le> rs_exception_code p \<and> rs_exception_code p \<le> 0x0B \<and> rtu_mb s' = rtu_mb s"
    using every_answer_accepted [OF assms(4-10), of call pol] unfolding accepted_answer_def by blast
  moreover have "rsp \<noteq> []" "length rsp \<le> 256"
    using accepted_response_length [of r "Some adu" rsp p] p by auto
  ultimately show ?thesis
    using t2(1,2,4-7) by (auto simp: mbrtum_transaction_on_response_def Let_def finish_def bump_diag_def
        intro!: exI [of _ rsp] exI [of _ s'])
qed

theorem slave_completes_transaction_witness:
  "\<exists>rsp s' t3. mbrtu_process_adu_with_diagnostics demo_call None 17 (Some demo_adu) (Some 256) demo_rtu =
      (MBRTU_RESPONSE_READY rsp, s') \<and>
    mbrtum_transaction_on_response (Some rsp) (0xFFFFFFF0 + of_nat 99)
      (snd (mbrtum_transaction_on_tx_complete 0xFFFFFFF0 demo_sending)) = (MBRTUM_TXN_OK, t3) \<and>
    t_state t3 = MBRTUM_TXN_STATE_COMPLETE \<and> t_sent t3 = [demo_adu]"
proof -
  have b: "build_request 17 (Read_Registers 0x03 0 1) 256 = Inr (demo_request, demo_adu)"
    by (simp add: mbrtum_build_read_registers_request_def build_fixed_request_def demo_request_def demo_adu_def
        unicast_address_is_valid_def address_range_is_valid_def write_be16_def append_crc_frame)
  have lo: "\<not> mbrtu_diagnostics_is_listen_only (rtu_diag demo_rtu)"
    by (simp add: demo_rtu_def mbrtu_diagnostics_is_listen_only_def mbrtu_diagnostics_init_def)
  have "rq_expects_response demo_request \<noteq> 0" by (simp add: demo_request_def)
  then show ?thesis
    using slave_completes_transaction [OF demo_txn_reachable [of "\<lambda>lg f. True"] _ _ b _ _ _ demo_rtu_wf _ lo,
        of 256 99 demo_call None "0xFFFFFFF0" 0]
    by (auto simp: demo_start state_is_active_def demo_txn_config_def)
qed

end
