(* ===== verification/Board_Master.thy ===== *)
theory Board_Master
  imports Board_Rx Interop
begin

text \<open>
  The test-cycle application of the STM32F767 master, app/app.c, on top of the transaction layer
  and the frame detector of \<open>Board_Rx\<close>. The file's globals are the fields of \<open>board\<close>, grouped in
  records; the 0/1 flags are \<open>bool\<close>, the test selector (an enum the user may set to any value
  from the debugger) is an \<open>int\<close>. The vendor's HAL is the parameter \<open>board_hal\<close>: whether
  \<open>HAL_UART_Transmit\<close> of a frame succeeds, given the frames handed to it before; what
  \<open>HAL_GetTick\<close> returns after it; whether the receiver is idle; whether \<open>HAL_UART_Receive_IT\<close>
  succeeds. The tick a pass of \<open>modbus_master_process\<close> works with is its argument \<open>now\<close>. Between
  the stages of a pass the interrupts \<open>irq i\<close> are served. The console output of \<open>app\<close> is not
  modelled.
\<close>

datatype test_step =
  MODBUS_MASTER_TEST_STEP_IDLE | MODBUS_MASTER_TEST_STEP_REQUEST | MODBUS_MASTER_TEST_STEP_VERIFY_READBACK

datatype test_result =
  MODBUS_MASTER_RESULT_NONE | MODBUS_MASTER_RESULT_PASS | MODBUS_MASTER_RESULT_BUILD_ERROR
| MODBUS_MASTER_RESULT_START_ERROR | MODBUS_MASTER_RESULT_EXCEPTION | MODBUS_MASTER_RESULT_TIMEOUT
| MODBUS_MASTER_RESULT_TRANSPORT_ERROR | MODBUS_MASTER_RESULT_RESPONSE_ERROR
| MODBUS_MASTER_RESULT_DECODE_ERROR | MODBUS_MASTER_RESULT_VERIFY_ERROR
| MODBUS_MASTER_RESULT_CANCELLED | MODBUS_MASTER_RESULT_UART_ERROR | MODBUS_MASTER_RESULT_INVALID_TEST

record board_data =
  d_coils :: "u8 list"
  d_discrete_inputs :: "u8 list"
  d_holding_registers :: "u16 list"
  d_input_registers :: "u16 list"
  d_expected_coils :: "u8 list"
  d_expected_registers :: "u16 list"
  d_packed_coils :: bytes
  d_single_coil_write_value :: u8
  d_single_register_write_value :: u16
  d_multiple_coil_write_values :: "u8 list"
  d_multiple_register_write_values :: "u16 list"
  d_mismatch_index :: u16
  d_verification_expected :: u16
  d_verification_actual :: u16

record board_counts =
  c_started :: u32
  c_completed :: u32
  c_passed :: u32
  c_failed :: u32
  c_build_errors :: u32
  c_decode_errors :: u32
  c_verification_passes :: u32
  c_verification_failures :: u32
  c_uart_errors :: u32
  c_uart_recoveries :: u32

record board_watch =
  w_state :: txn_state
  w_result :: txn_result
  w_exception_code :: u8
  w_diagnostics :: txn_diagnostics

record board =
  b_link :: board_link
  b_txn :: mbrtum_transaction
  b_request :: mbrtum_request
  b_request_adu :: bytes
  b_next_cycle_ms :: u32
  b_tx_complete_tick :: u32
  b_force_request :: bool
  b_uart_error_pending :: bool
  b_tx_complete_pending :: bool
  b_cycle_active :: bool
  b_auto_poll_enabled :: bool
  b_selected_test :: int
  b_current_test :: int
  b_test_step :: test_step
  b_last_result :: test_result
  b_last_protocol_result :: int
  b_last_response_length :: u16
  b_current_function :: u8
  b_watch :: board_watch
  b_counts :: board_counts
  b_data :: board_data

record board_hal =
  hal_transmit :: "bytes list \<Rightarrow> bytes \<Rightarrow> bool"
  hal_tx_tick :: "bytes list \<Rightarrow> u32"
  hal_rx_ready :: bool
  hal_receive_ok :: bool

abbreviation (input) on_link :: "(board_link \<Rightarrow> board_link) \<Rightarrow> board \<Rightarrow> board" where
  "on_link f b \<equiv> b\<lparr>b_link := f (b_link b)\<rparr>"

abbreviation (input) on_counts :: "(board_counts \<Rightarrow> board_counts) \<Rightarrow> board \<Rightarrow> board" where
  "on_counts f b \<equiv> b\<lparr>b_counts := f (b_counts b)\<rparr>"

abbreviation (input) on_data :: "(board_data \<Rightarrow> board_data) \<Rightarrow> board \<Rightarrow> board" where
  "on_data f b \<equiv> b\<lparr>b_data := f (b_data b)\<rparr>"

abbreviation (input) MODBUS_MASTER_SLAVE_ADDRESS :: u8 where "MODBUS_MASTER_SLAVE_ADDRESS \<equiv> 1"

abbreviation (input) MODBUS_MASTER_TEST_START_ADDRESS :: u16 where "MODBUS_MASTER_TEST_START_ADDRESS \<equiv> 0"

abbreviation (input) MODBUS_MASTER_TEST_QUANTITY :: nat where "MODBUS_MASTER_TEST_QUANTITY \<equiv> 10"

abbreviation (input) MODBUS_MASTER_NO_MISMATCH :: u16 where "MODBUS_MASTER_NO_MISMATCH \<equiv> 0xFFFF"

definition modbus_master_time_reached :: "u32 \<Rightarrow> u32 \<Rightarrow> bool" where
  "modbus_master_time_reached now deadline \<longleftrightarrow> sint (now - deadline) \<ge> 0"

definition modbus_master_test_is_valid :: "int \<Rightarrow> bool" where
  "modbus_master_test_is_valid test \<longleftrightarrow> test = 0x01 \<or> test = 0x02 \<or> test = 0x03 \<or> test = 0x04 \<or>
     test = 0x05 \<or> test = 0x06 \<or> test = 0x0F \<or> test = 0x10"

definition modbus_master_test_is_write :: "int \<Rightarrow> bool" where
  "modbus_master_test_is_write test \<longleftrightarrow> test = 0x05 \<or> test = 0x06 \<or> test = 0x0F \<or> test = 0x10"

section \<open>The transport\<close>

definition close_window :: "board \<Rightarrow> board" where
  "close_window b = on_link (\<lambda>l. l\<lparr>l_receive_window_open := False\<rparr>) b"

definition modbus_master_ensure_receive_armed :: "board_hal \<Rightarrow> board \<Rightarrow> board" where
  "modbus_master_ensure_receive_armed hal b =
     (if hal_rx_ready hal then
        if hal_receive_ok hal then on_counts (\<lambda>c. c\<lparr>c_uart_recoveries := c_uart_recoveries c + 1\<rparr>) b
        else (on_counts (\<lambda>c. c\<lparr>c_uart_errors := c_uart_errors c + 1\<rparr>) b)\<lparr>b_uart_error_pending := True\<rparr>
      else b)"

definition modbus_master_sync_watch_state :: "board \<Rightarrow> board" where
  "modbus_master_sync_watch_state b =
     (let t = b_txn b;
          b = b\<lparr>b_watch := \<lparr>w_state = t_state t, w_result = t_result t, w_exception_code = t_exception_code t,
                  w_diagnostics = t_diagnostics t\<rparr>\<rparr>;
          b = (if b_cycle_active b \<or>
                  (b_last_result b \<noteq> MODBUS_MASTER_RESULT_BUILD_ERROR \<and>
                   b_last_result b \<noteq> MODBUS_MASTER_RESULT_START_ERROR \<and>
                   b_last_result b \<noteq> MODBUS_MASTER_RESULT_INVALID_TEST)
               then b\<lparr>b_last_protocol_result := t_protocol_result t\<rparr> else b) in
      if t_state t \<noteq> MBRTUM_TXN_STATE_WAITING_RESPONSE \<and>
         \<not> (t_state t = MBRTUM_TXN_STATE_TRANSMITTING \<and> b_tx_complete_pending b)
      then on_link modbus_master_rx_reset_all (close_window b) else b)"

definition modbus_master_transport_transmit ::
  "board_hal \<Rightarrow> bytes list \<Rightarrow> bytes \<Rightarrow> board \<Rightarrow> bool \<times> board" where
  "modbus_master_transport_transmit hal sent adu b =
     (if length adu = 0 \<or> length adu > 65535 then (False, b)
      else
        let b = close_window (on_link modbus_master_rx_reset_all b);
            b = b\<lparr>b_tx_complete_pending := False, b_current_function := adu ! 1\<rparr> in
        if \<not> hal_transmit hal sent adu then (False, b)
        else (True, on_link (\<lambda>l. l\<lparr>l_receive_window_open := True\<rparr>)
                (b\<lparr>b_tx_complete_tick := hal_tx_tick hal (sent @ [adu]), b_tx_complete_pending := True\<rparr>)))"

text \<open>
  A call into the transaction layer with this transport: the layer sees only whether a frame is
  accepted, which does not depend on the application's state, and the callback touches only the
  application's state; so its effects are applied for the frames the call sent, in their order.
\<close>

definition with_transport ::
  "board_hal \<Rightarrow> (transport \<Rightarrow> mbrtum_transaction \<Rightarrow> txn_status \<times> mbrtum_transaction) \<Rightarrow> board \<Rightarrow> txn_status \<times> board"
where
  "with_transport hal operation b =
     (let (status, t) = operation (\<lambda>sent adu. fst (modbus_master_transport_transmit hal sent adu b)) (b_txn b);
          n = length (t_sent (b_txn b)) in
      (status, fold (\<lambda>k b. snd (modbus_master_transport_transmit hal (take k (t_sent t)) (t_sent t ! k) b))
         [n..<length (t_sent t)] (b\<lparr>b_txn := t\<rparr>)))"

fun txn_status_code :: "txn_status \<Rightarrow> int" where
  "txn_status_code MBRTUM_TXN_OK = 0"
| "txn_status_code MBRTUM_TXN_ERROR_ARGUMENT = - 1"
| "txn_status_code MBRTUM_TXN_ERROR_BUSY = - 2"
| "txn_status_code MBRTUM_TXN_ERROR_STATE = - 3"
| "txn_status_code MBRTUM_TXN_ERROR_CAPACITY = - 4"
| "txn_status_code MBRTUM_TXN_ERROR_CONFIG = - 5"
| "txn_status_code MBRTUM_TXN_ERROR_NOT_INITIALIZED = - 6"
| "txn_status_code MBRTUM_TXN_ERROR_REQUEST = - 7"

definition modbus_master_handle_tx_complete :: "board \<Rightarrow> board" where
  "modbus_master_handle_tx_complete b =
     (let pending = b_tx_complete_pending b; completed_at = b_tx_complete_tick b;
          b = b\<lparr>b_tx_complete_pending := False\<rparr> in
      if \<not> pending then b
      else
        let (result, t) = mbrtum_transaction_on_tx_complete completed_at (b_txn b); b = b\<lparr>b_txn := t\<rparr> in
        if result \<noteq> MBRTUM_TXN_OK
        then close_window (b\<lparr>b_last_protocol_result := txn_status_code result\<rparr>) else b)"

section \<open>Building the request of a step\<close>

definition zero_request :: mbrtum_request where
  "zero_request = \<lparr>rq_slave_address = 0, rq_function = 0, rq_start_address = 0, rq_quantity = 0, rq_value = 0,
     rq_expects_response = 0, rq_write_start_address = 0, rq_write_quantity = 0\<rparr>"

definition store_request :: "build_result \<Rightarrow> board \<Rightarrow> mbrtum_error option \<times> board" where
  "store_request result b =
     (case result of Inl e \<Rightarrow> (Some e, b)
      | Inr (r, adu) \<Rightarrow> (None, b\<lparr>b_request := r, b_request_adu := adu\<rparr>))"

text \<open>One turn of the loop that packs the coil values of FC0F.\<close>

definition pack_coil :: "u8 list \<Rightarrow> nat \<Rightarrow> u8 list \<times> bytes \<Rightarrow> u8 list \<times> bytes" where
  "pack_coil values index st =
     (let (expected, packed) = st; v = (if values ! index \<noteq> 0 then 1 else 0) in
      (expected[index := v],
       if v \<noteq> 0 then packed[index div 8 := packed ! (index div 8) OR push_bit (index mod 8) 1] else packed))"

definition modbus_master_build_request :: "board \<Rightarrow> mbrtum_error option \<times> board" where
  "modbus_master_build_request b =
     (let b = b\<lparr>b_request := zero_request, b_request_adu := []\<rparr>; test = b_current_test b; d = b_data b;
          a = MODBUS_MASTER_SLAVE_ADDRESS; start = MODBUS_MASTER_TEST_START_ADDRESS;
          q = of_nat MODBUS_MASTER_TEST_QUANTITY; cap = Some MODBUS_RTU_ADU_MAX_SIZE in
      if b_test_step b = MODBUS_MASTER_TEST_STEP_VERIFY_READBACK then
        if test = 0x05 \<or> test = 0x0F
        then store_request (mbrtum_build_read_bits_request a 0x01 start q cap) b
        else store_request (mbrtum_build_read_registers_request a 0x03 start q cap) b
      else if test = 0x01 \<or> test = 0x02
      then store_request (mbrtum_build_read_bits_request a (word_of_int test) start q cap) b
      else if test = 0x03 \<or> test = 0x04
      then store_request (mbrtum_build_read_registers_request a (word_of_int test) start q cap) b
      else if test = 0x05 then
        let v = (if d_single_coil_write_value d \<noteq> 0 then 1 else 0) in
        store_request (mbrtum_build_write_single_coil_request a start v cap)
          (on_data (\<lambda>d. d\<lparr>d_expected_coils := (d_expected_coils d)[0 := v]\<rparr>) b)
      else if test = 0x06 then
        let v = d_single_register_write_value d in
        store_request (mbrtum_build_write_single_register_request a start v cap)
          (on_data (\<lambda>d. d\<lparr>d_expected_registers := (d_expected_registers d)[0 := v]\<rparr>) b)
      else if test = 0x0F then
        let (expected, packed) = fold (pack_coil (d_multiple_coil_write_values d))
              [0..<MODBUS_MASTER_TEST_QUANTITY] (d_expected_coils d, replicate 2 0) in
        store_request (mbrtum_build_write_multiple_coils_request a start q (Some packed) cap)
          (on_data (\<lambda>d. d\<lparr>d_expected_coils := expected, d_packed_coils := packed\<rparr>) b)
      else if test = 0x10 then
        let expected = fold (\<lambda>i xs. xs[i := d_multiple_register_write_values d ! i])
              [0..<MODBUS_MASTER_TEST_QUANTITY] (d_expected_registers d) in
        store_request (mbrtum_build_write_multiple_registers_request a start q (Some expected) cap)
          (on_data (\<lambda>d. d\<lparr>d_expected_registers := expected\<rparr>) b)
      else (Some MBRTUM_ERROR_FUNCTION, b))"

section \<open>The test cycle\<close>

definition modbus_master_finish_cycle :: "test_result \<Rightarrow> u32 \<Rightarrow> board \<Rightarrow> board" where
  "modbus_master_finish_cycle result now b =
     (let b = b\<lparr>b_cycle_active := False, b_test_step := MODBUS_MASTER_TEST_STEP_IDLE, b_last_result := result\<rparr>;
          b = on_counts (\<lambda>c. c\<lparr>c_completed := c_completed c + 1\<rparr>) b;
          b = (if result = MODBUS_MASTER_RESULT_PASS then on_counts (\<lambda>c. c\<lparr>c_passed := c_passed c + 1\<rparr>) b
               else on_counts (\<lambda>c. c\<lparr>c_failed := c_failed c + 1\<rparr>) b) in
      on_link modbus_master_rx_reset_all (close_window (b\<lparr>b_next_cycle_ms := now + 1000\<rparr>)))"

definition modbus_master_start_current_step :: "board_hal \<Rightarrow> u32 \<Rightarrow> board \<Rightarrow> int \<times> board" where
  "modbus_master_start_current_step hal now b =
     (case modbus_master_build_request b of
        (Some e, b) \<Rightarrow>
          let b = (on_counts (\<lambda>c. c\<lparr>c_build_errors := c_build_errors c + 1\<rparr>) b)
                \<lparr>b_last_protocol_result := mbrtum_error_code e\<rparr> in
          (mbrtum_error_code e, modbus_master_finish_cycle MODBUS_MASTER_RESULT_BUILD_ERROR now b)
      | (None, b) \<Rightarrow>
          let (result, b) = with_transport hal
                (\<lambda>transmit. mbrtum_transaction_start transmit (Some (b_request b)) (Some (b_request_adu b)) now) b in
          if result \<noteq> MBRTUM_TXN_OK then
            (txn_status_code result, modbus_master_finish_cycle MODBUS_MASTER_RESULT_START_ERROR now
               (b\<lparr>b_last_protocol_result := txn_status_code result\<rparr>))
          else (0, modbus_master_sync_watch_state (modbus_master_handle_tx_complete b)))"

definition modbus_master_start_cycle :: "board_hal \<Rightarrow> u32 \<Rightarrow> board \<Rightarrow> board" where
  "modbus_master_start_cycle hal now b =
     (if b_cycle_active b then b
      else if \<not> modbus_master_test_is_valid (b_selected_test b) then
        (on_counts (\<lambda>c. c\<lparr>c_started := c_started c + 1, c_completed := c_completed c + 1,
                          c_failed := c_failed c + 1\<rparr>) b)
          \<lparr>b_last_protocol_result := mbrtum_error_code MBRTUM_ERROR_FUNCTION,
           b_current_test := b_selected_test b, b_last_result := MODBUS_MASTER_RESULT_INVALID_TEST,
           b_next_cycle_ms := now + 1000\<rparr>
      else
        let b = b\<lparr>b_current_test := b_selected_test b, b_test_step := MODBUS_MASTER_TEST_STEP_REQUEST,
                  b_last_result := MODBUS_MASTER_RESULT_NONE, b_cycle_active := True\<rparr>;
            b = on_data (\<lambda>d. d\<lparr>d_mismatch_index := MODBUS_MASTER_NO_MISMATCH, d_verification_expected := 0,
                               d_verification_actual := 0\<rparr>) b;
            b = on_counts (\<lambda>c. c\<lparr>c_started := c_started c + 1\<rparr>) b in
        snd (modbus_master_start_current_step hal now b))"

definition modbus_master_process_response_frame :: "u32 \<Rightarrow> board \<Rightarrow> board" where
  "modbus_master_process_response_frame now b =
     (let l = b_link b in
      if \<not> m_pending_ready l then b
      else
        let b = on_link (\<lambda>l. l\<lparr>m_pending_ready := False\<rparr>) b;
            frame = take (unat (m_pending_length l)) (m_buffers l ! unat (m_pending_buffer_index l));
            b = b\<lparr>b_last_response_length := m_pending_length l\<rparr> in
        if t_state (b_txn b) \<noteq> MBRTUM_TXN_STATE_WAITING_RESPONSE
        then on_link (\<lambda>l. l\<lparr>l_unexpected_bytes := l_unexpected_bytes l + 1\<rparr>) b
        else if m_pending_overflow l \<or> m_pending_invalid_gap l
        then b\<lparr>b_txn := snd (mbrtum_transaction_on_response (Some []) now (b_txn b))\<rparr>
        else b\<lparr>b_txn := snd (mbrtum_transaction_on_response (Some frame) now (b_txn b))\<rparr>)"

text \<open>The decoding loop stores each element as it is read and stops at the first error.\<close>

primrec decode_loop :: "(u16 \<Rightarrow> mbrtum_error + 'a) \<Rightarrow> nat list \<Rightarrow> 'a list \<Rightarrow> mbrtum_error option \<times> 'a list" where
  "decode_loop get [] xs = (None, xs)"
| "decode_loop get (i # is) xs =
     (case get (of_nat i) of Inl e \<Rightarrow> (Some e, xs) | Inr v \<Rightarrow> decode_loop get is (xs[i := v]))"

definition modbus_master_decode_read_response :: "board \<Rightarrow> mbrtum_error option \<times> board" where
  "modbus_master_decode_read_response b =
     (let r = t_request (b_txn b); p = t_response (b_txn b); d = b_data b;
          indices = [0..<MODBUS_MASTER_TEST_QUANTITY] in
      if rq_function r = 0x01 then
        let (e, xs) = decode_loop (mbrtum_get_bit (Some r) (Some p)) indices (d_coils d) in
        (e, b\<lparr>b_data := d\<lparr>d_coils := xs\<rparr>\<rparr>)
      else if rq_function r = 0x02 then
        let (e, xs) = decode_loop (mbrtum_get_bit (Some r) (Some p)) indices (d_discrete_inputs d) in
        (e, b\<lparr>b_data := d\<lparr>d_discrete_inputs := xs\<rparr>\<rparr>)
      else if rq_function r = 0x03 then
        let (e, xs) = decode_loop (mbrtum_get_register (Some r) (Some p)) indices (d_holding_registers d) in
        (e, b\<lparr>b_data := d\<lparr>d_holding_registers := xs\<rparr>\<rparr>)
      else if rq_function r = 0x04 then
        let (e, xs) = decode_loop (mbrtum_get_register (Some r) (Some p)) indices (d_input_registers d) in
        (e, b\<lparr>b_data := d\<lparr>d_input_registers := xs\<rparr>\<rparr>)
      else (None, b))"

text \<open>The comparison loops report the first index at which the arrays differ.\<close>

definition compare_coils :: "nat \<Rightarrow> board_data \<Rightarrow> bool \<times> board_data" where
  "compare_coils count d =
     (case find (\<lambda>i. d_coils d ! i \<noteq> d_expected_coils d ! i) [0..<count] of
        None \<Rightarrow> (True, d)
      | Some i \<Rightarrow> (False, d\<lparr>d_mismatch_index := of_nat i,
                           d_verification_expected := ucast (d_expected_coils d ! i),
                           d_verification_actual := ucast (d_coils d ! i)\<rparr>))"

definition compare_registers :: "nat \<Rightarrow> board_data \<Rightarrow> bool \<times> board_data" where
  "compare_registers count d =
     (case find (\<lambda>i. d_holding_registers d ! i \<noteq> d_expected_registers d ! i) [0..<count] of
        None \<Rightarrow> (True, d)
      | Some i \<Rightarrow> (False, d\<lparr>d_mismatch_index := of_nat i,
                           d_verification_expected := d_expected_registers d ! i,
                           d_verification_actual := d_holding_registers d ! i\<rparr>))"

definition modbus_master_verify_readback :: "board \<Rightarrow> bool \<times> board" where
  "modbus_master_verify_readback b =
     (let d = (b_data b)\<lparr>d_mismatch_index := MODBUS_MASTER_NO_MISMATCH, d_verification_expected := 0,
                d_verification_actual := 0\<rparr>;
          test = b_current_test b;
          (ok, d) = (if test = 0x05 then compare_coils 1 d
                     else if test = 0x0F then compare_coils MODBUS_MASTER_TEST_QUANTITY d
                     else if test = 0x06 then compare_registers 1 d
                     else compare_registers MODBUS_MASTER_TEST_QUANTITY d) in
      (ok, b\<lparr>b_data := d\<rparr>))"

fun modbus_master_map_terminal_result :: "txn_result \<Rightarrow> test_result" where
  "modbus_master_map_terminal_result MBRTUM_TXN_RESULT_MODBUS_EXCEPTION = MODBUS_MASTER_RESULT_EXCEPTION"
| "modbus_master_map_terminal_result MBRTUM_TXN_RESULT_TIMEOUT = MODBUS_MASTER_RESULT_TIMEOUT"
| "modbus_master_map_terminal_result MBRTUM_TXN_RESULT_TRANSPORT_ERROR = MODBUS_MASTER_RESULT_TRANSPORT_ERROR"
| "modbus_master_map_terminal_result MBRTUM_TXN_RESULT_RESPONSE_ERROR = MODBUS_MASTER_RESULT_RESPONSE_ERROR"
| "modbus_master_map_terminal_result MBRTUM_TXN_RESULT_CANCELLED = MODBUS_MASTER_RESULT_CANCELLED"
| "modbus_master_map_terminal_result _ = MODBUS_MASTER_RESULT_RESPONSE_ERROR"

text \<open>The verdict on a completed read, and on the whole transaction.\<close>

definition finish_read :: "u32 \<Rightarrow> board \<Rightarrow> board" where
  "finish_read now b =
     (case modbus_master_decode_read_response b of
        (Some e, b) \<Rightarrow>
          modbus_master_finish_cycle MODBUS_MASTER_RESULT_DECODE_ERROR now
            ((on_counts (\<lambda>c. c\<lparr>c_decode_errors := c_decode_errors c + 1\<rparr>) b)
               \<lparr>b_last_protocol_result := mbrtum_error_code e\<rparr>)
      | (None, b) \<Rightarrow>
          if b_test_step b = MODBUS_MASTER_TEST_STEP_VERIFY_READBACK then
            let (ok, b) = modbus_master_verify_readback b in
            if \<not> ok
            then modbus_master_finish_cycle MODBUS_MASTER_RESULT_VERIFY_ERROR now
                   (on_counts (\<lambda>c. c\<lparr>c_verification_failures := c_verification_failures c + 1\<rparr>) b)
            else modbus_master_finish_cycle MODBUS_MASTER_RESULT_PASS now
                   (on_counts (\<lambda>c. c\<lparr>c_verification_passes := c_verification_passes c + 1\<rparr>) b)
          else modbus_master_finish_cycle MODBUS_MASTER_RESULT_PASS now b)"

definition modbus_master_handle_terminal_transaction :: "board_hal \<Rightarrow> u32 \<Rightarrow> board \<Rightarrow> board" where
  "modbus_master_handle_terminal_transaction hal now b =
     (let t = b_txn b in
      if \<not> b_cycle_active b then b
      else if t_state t = MBRTUM_TXN_STATE_COMPLETE then
        if t_result t = MBRTUM_TXN_RESULT_MODBUS_EXCEPTION
        then modbus_master_finish_cycle MODBUS_MASTER_RESULT_EXCEPTION now b
        else if t_result t \<noteq> MBRTUM_TXN_RESULT_SUCCESS
        then modbus_master_finish_cycle MODBUS_MASTER_RESULT_RESPONSE_ERROR now b
        else if b_test_step b = MODBUS_MASTER_TEST_STEP_REQUEST \<and> modbus_master_test_is_write (b_current_test b)
        then snd (modbus_master_start_current_step hal now
               (b\<lparr>b_test_step := MODBUS_MASTER_TEST_STEP_VERIFY_READBACK\<rparr>))
        else finish_read now b
      else if t_state t = MBRTUM_TXN_STATE_FAILED \<or> t_state t = MBRTUM_TXN_STATE_CANCELLED
      then modbus_master_finish_cycle (modbus_master_map_terminal_result (t_result t)) now b
      else b)"

definition modbus_master_process_uart_error :: "u32 \<Rightarrow> board \<Rightarrow> board" where
  "modbus_master_process_uart_error now b =
     (if \<not> b_uart_error_pending b then b
      else
        let b = on_link modbus_master_rx_reset_all (b\<lparr>b_uart_error_pending := False\<rparr>);
            waiting = (t_state (b_txn b) = MBRTUM_TXN_STATE_WAITING_RESPONSE);
            b = on_link (\<lambda>l. l\<lparr>l_receive_window_open := waiting\<rparr>) b in
        if waiting then b\<lparr>b_txn := snd (mbrtum_transaction_on_response (Some []) now (b_txn b))\<rparr> else b)"

section \<open>Interrupts, initialisation, and a pass of the main loop\<close>

datatype board_irq = Irq_Rx bool u8 bool | Irq_Error bool | Irq_Tick

text \<open>The callbacks take whether the interrupt is the one of USART3, and whether re-arming succeeds.\<close>

definition HAL_UART_RxCpltCallback :: "bool \<Rightarrow> u8 \<Rightarrow> bool \<Rightarrow> board \<Rightarrow> board" where
  "HAL_UART_RxCpltCallback usart3 byte rearmed b =
     (if usart3 then
        let b = on_link (modbus_master_on_rx_byte_isr byte) b in
        if rearmed then b
        else (on_counts (\<lambda>c. c\<lparr>c_uart_errors := c_uart_errors c + 1\<rparr>) b)\<lparr>b_uart_error_pending := True\<rparr>
      else b)"

definition HAL_UART_ErrorCallback :: "bool \<Rightarrow> board \<Rightarrow> board" where
  "HAL_UART_ErrorCallback usart3 b =
     (if usart3
      then (on_counts (\<lambda>c. c\<lparr>c_uart_errors := c_uart_errors c + 1\<rparr>) b)\<lparr>b_uart_error_pending := True\<rparr> else b)"

definition systick_50us_tick_isr :: "board \<Rightarrow> board" where
  "systick_50us_tick_isr b = on_link modbus_master_on_50us_tick_isr b"

fun board_interrupt :: "board_irq \<Rightarrow> board \<Rightarrow> board" where
  "board_interrupt (Irq_Rx usart3 byte rearmed) b = HAL_UART_RxCpltCallback usart3 byte rearmed b"
| "board_interrupt (Irq_Error usart3) b = HAL_UART_ErrorCallback usart3 b"
| "board_interrupt Irq_Tick b = systick_50us_tick_isr b"

definition board_interrupts :: "board_irq list \<Rightarrow> board \<Rightarrow> board" where
  "board_interrupts evs b = fold board_interrupt evs b"

definition zero_timing :: mbrtu_timing where
  "zero_timing = \<lparr>character_ticks = 0, t1_5_ticks = 0, t3_5_ticks = 0, byte_complete_t1_5_ticks = 0,
     byte_complete_t3_5_ticks = 0\<rparr>"

definition zero_config :: txn_config where
  "zero_config = \<lparr>response_timeout_ticks = 0, retry_delay_ticks = 0, max_retries = 0, retry_transport_errors = 0\<rparr>"

definition zero_transaction :: mbrtum_transaction where
  "zero_transaction = \<lparr>t_state = MBRTUM_TXN_STATE_IDLE, t_result = MBRTUM_TXN_RESULT_NONE, t_protocol_result = 0,
     t_exception_code = 0, t_config = zero_config, t_request = zero_request, t_request_adu = [],
     t_response_adu = [], t_response = zero_response, t_deadline = 0, t_cookie = 0, t_retries_used = 0,
     t_saw_response_error = False, t_diagnostics = zero_diagnostics, t_sent = []\<rparr>"

definition zero_rx :: "board_link \<Rightarrow> board_link" where
  "zero_rx l = (modbus_master_rx_reset_all l)\<lparr>m_buffers := replicate 2 (replicate 256 0), m_timing := zero_timing\<rparr>"

definition board_txn_config :: txn_config where
  "board_txn_config = \<lparr>response_timeout_ticks = 1000, retry_delay_ticks = 100, max_retries = 2,
     retry_transport_errors = 1\<rparr>"

definition modbus_master_init :: "board_hal \<Rightarrow> u32 \<Rightarrow> board \<Rightarrow> int \<times> board" where
  "modbus_master_init hal now b =
     (let n = MODBUS_MASTER_TEST_QUANTITY;
          d = (b_data b)\<lparr>d_coils := replicate n 0, d_discrete_inputs := replicate n 0,
                d_holding_registers := replicate n 0, d_input_registers := replicate n 0,
                d_expected_coils := replicate n 0, d_expected_registers := replicate n 0,
                d_multiple_coil_write_values := map (\<lambda>i. if even i then 1 else 0) [0..<n],
                d_multiple_register_write_values := map (\<lambda>i. 0x1000 + of_nat i) [0..<n]\<rparr>;
          b = (on_link zero_rx b)\<lparr>b_txn := zero_transaction, b_request := zero_request, b_request_adu := [],
                b_data := d\<rparr> in
      case mbrtu_calculate_timing 115200 8 0 1 of
        None \<Rightarrow> (- 5, b\<lparr>b_last_protocol_result := - 5, b_last_result := MODBUS_MASTER_RESULT_BUILD_ERROR\<rparr>)
      | Some tm \<Rightarrow>
          let b = on_link (\<lambda>l. l\<lparr>m_timing := tm\<rparr>) b in
          case mbrtum_transaction_init (Some board_txn_config) True of
            Inl e \<Rightarrow> (txn_status_code e, b\<lparr>b_last_protocol_result := txn_status_code e,
                       b_last_result := MODBUS_MASTER_RESULT_BUILD_ERROR\<rparr>)
          | Inr t \<Rightarrow>
              let b = close_window (on_link modbus_master_rx_reset_all (b\<lparr>b_txn := t\<rparr>));
                  b = b\<lparr>b_uart_error_pending := False, b_tx_complete_pending := False, b_force_request := False,
                        b_cycle_active := False, b_test_step := MODBUS_MASTER_TEST_STEP_IDLE,
                        b_last_result := MODBUS_MASTER_RESULT_NONE, b_last_protocol_result := 0,
                        b_next_cycle_ms := now + 500\<rparr>;
                  b = on_link (\<lambda>l. l\<lparr>l_initialized := True\<rparr>) b;
                  b = modbus_master_sync_watch_state b in
              if \<not> hal_receive_ok hal
              then (- 1, on_link (\<lambda>l. l\<lparr>l_initialized := False\<rparr>)
                     ((on_counts (\<lambda>c. c\<lparr>c_uart_errors := c_uart_errors c + 1\<rparr>) b)
                        \<lparr>b_last_result := MODBUS_MASTER_RESULT_UART_ERROR\<rparr>))
              else (0, b))"

definition modbus_master_request_now :: "board \<Rightarrow> board" where
  "modbus_master_request_now b = b\<lparr>b_force_request := True\<rparr>"

definition modbus_master_process :: "board_hal \<Rightarrow> u32 \<Rightarrow> (nat \<Rightarrow> board_irq list) \<Rightarrow> board \<Rightarrow> board" where
  "modbus_master_process hal now irq b =
     (if \<not> l_initialized (b_link b) then b
      else
        let b = board_interrupts (irq 0) (modbus_master_ensure_receive_armed hal b);
            b = board_interrupts (irq 1) (modbus_master_handle_tx_complete b);
            b = board_interrupts (irq 2) (modbus_master_process_response_frame now b);
            b = board_interrupts (irq 3) (modbus_master_process_uart_error now b);
            b = board_interrupts (irq 4) (snd (with_transport hal (\<lambda>transmit. mbrtum_transaction_poll transmit now) b));
            b = board_interrupts (irq 5) (modbus_master_handle_tx_complete b);
            b = board_interrupts (irq 6) (modbus_master_sync_watch_state b);
            b = board_interrupts (irq 7) (modbus_master_handle_terminal_transaction hal now b);
            b = board_interrupts (irq 8) (modbus_master_sync_watch_state b) in
        if b_cycle_active b then b
        else if b_force_request b
        then modbus_master_start_cycle hal now (b\<lparr>b_force_request := False\<rparr>)
        else if b_auto_poll_enabled b \<and> modbus_master_time_reached now (b_next_cycle_ms b)
        then modbus_master_start_cycle hal now b
        else b)"

end
