(* ===== verification/Board_Cycle.thy ===== *)
theory Board_Cycle
  imports Board_Master
begin

text \<open>
  The test cycle of the board master: its invariant under interrupts and passes of the main
  loop, and what the verdict of a cycle means.
\<close>

section \<open>Calls into the transaction layer\<close>

lemma transport_accepts:
  "fst (modbus_master_transport_transmit hal sent adu b) \<longleftrightarrow>
     adu \<noteq> [] \<and> length adu \<le> 65535 \<and> hal_transmit hal sent adu"
  by (auto simp: modbus_master_transport_transmit_def Let_def)

definition board_transport :: "board_hal \<Rightarrow> transport" where
  "board_transport hal sent adu \<longleftrightarrow> adu \<noteq> [] \<and> length adu \<le> 65535 \<and> hal_transmit hal sent adu"

lemma transport_fst: "(\<lambda>sent adu. fst (modbus_master_transport_transmit hal sent adu b)) = board_transport hal"
  by (intro ext) (simp add: transport_accepts board_transport_def)

lemma with_transport_silent:
  assumes "operation (board_transport hal) (b_txn b) = (status, t)" "t_sent t = t_sent (b_txn b)"
  shows "with_transport hal operation b = (status, b\<lparr>b_txn := t\<rparr>)"
  using assms by (simp add: with_transport_def transport_fst)

lemma with_transport_sends:
  assumes "operation (board_transport hal) (b_txn b) = (status, t)" "t_sent t = t_sent (b_txn b) @ [adu]"
  shows "with_transport hal operation b =
    (status, snd (modbus_master_transport_transmit hal (t_sent (b_txn b)) adu (b\<lparr>b_txn := t\<rparr>)))"
  using assms by (simp add: with_transport_def transport_fst)

lemma begin_transmit_sent: "t_sent (snd (begin_transmit transmit now t)) = t_sent t @ [t_request_adu t]"
  by (simp add: txn_op_defs Let_def)

lemma begin_transmit_status [simp]: "fst (begin_transmit transmit now t) = MBRTUM_TXN_OK"
  by (simp add: begin_transmit_def Let_def)

lemma begin_transmit_state:
  "t_state (snd (begin_transmit transmit now t)) =
    (if transmit (t_sent t) (t_request_adu t) then MBRTUM_TXN_STATE_TRANSMITTING
     else if retry_transport_errors (t_config t) \<noteq> 0 \<and> t_retries_used t < max_retries (t_config t)
     then MBRTUM_TXN_STATE_RETRY_DELAY else MBRTUM_TXN_STATE_FAILED)"
  by (simp add: txn_op_defs Let_def)

lemma begin_transmit_keeps [simp]:
  "t_config (snd (begin_transmit transmit now t)) = t_config t"
  "t_request (snd (begin_transmit transmit now t)) = t_request t"
  "t_request_adu (snd (begin_transmit transmit now t)) = t_request_adu t"
  by (simp_all add: txn_op_defs Let_def)

text \<open>What a transmission does to the board: the callback, with the transaction in its new state.\<close>

definition after_transmit :: "board_hal \<Rightarrow> u32 \<Rightarrow> mbrtum_transaction \<Rightarrow> board \<Rightarrow> board" where
  "after_transmit hal now t b = snd (modbus_master_transport_transmit hal (t_sent t) (t_request_adu t)
     (b\<lparr>b_txn := snd (begin_transmit (board_transport hal) now t)\<rparr>))"

lemma after_transmit_fields [simp]:
  "b_txn (after_transmit hal now t b) = snd (begin_transmit (board_transport hal) now t)"
  "b_cycle_active (after_transmit hal now t b) = b_cycle_active b"
  "b_test_step (after_transmit hal now t b) = b_test_step b"
  "b_current_test (after_transmit hal now t b) = b_current_test b"
  "b_last_result (after_transmit hal now t b) = b_last_result b"
  "b_counts (after_transmit hal now t b) = b_counts b" "b_data (after_transmit hal now t b) = b_data b"
  "b_force_request (after_transmit hal now t b) = b_force_request b"
  "b_uart_error_pending (after_transmit hal now t b) = b_uart_error_pending b"
  "b_next_cycle_ms (after_transmit hal now t b) = b_next_cycle_ms b"
  "l_initialized (b_link (after_transmit hal now t b)) = l_initialized (b_link b)"
  "m_timing (b_link (after_transmit hal now t b)) = m_timing (b_link b)"
  by (simp_all add: after_transmit_def modbus_master_transport_transmit_def Let_def close_window_def
      modbus_master_rx_reset_all_def modbus_master_rx_reset_active_isr_def)

lemma after_transmit_pending:
  assumes "t_request_adu t \<noteq> []" "length (t_request_adu t) \<le> 65535"
  shows "b_tx_complete_pending (after_transmit hal now t b) = board_transport hal (t_sent t) (t_request_adu t)"
    "l_receive_window_open (b_link (after_transmit hal now t b)) = board_transport hal (t_sent t) (t_request_adu t)"
    "board_transport hal (t_sent t) (t_request_adu t) \<Longrightarrow>
      b_tx_complete_tick (after_transmit hal now t b) = hal_tx_tick hal (t_sent t @ [t_request_adu t])"
    "m_frame_active (b_link (after_transmit hal now t b)) = False"
    "m_pending_ready (b_link (after_transmit hal now t b)) = False"
  using assms by (auto simp: after_transmit_def modbus_master_transport_transmit_def board_transport_def Let_def
      close_window_def modbus_master_rx_reset_all_def modbus_master_rx_reset_active_isr_def)

lemma after_transmit_link: "link_wf (b_link b) \<Longrightarrow> link_wf (b_link (after_transmit hal now t b))"
  by (simp add: after_transmit_def modbus_master_transport_transmit_def Let_def close_window_def reset_view_wf)

section \<open>The request of a step\<close>

text \<open>The read request a step is about, when it is a read: the read-back or a read test.\<close>

definition read_call :: "test_step \<Rightarrow> int \<Rightarrow> master_call option" where
  "read_call step test =
     (if step = MODBUS_MASTER_TEST_STEP_VERIFY_READBACK
      then Some (if test = 0x05 \<or> test = 0x0F then Read_Bits 0x01 0 10 else Read_Registers 0x03 0 10)
      else if test = 0x01 \<or> test = 0x02 then Some (Read_Bits (word_of_int test) 0 10)
      else if test = 0x03 \<or> test = 0x04 then Some (Read_Registers (word_of_int test) 0 10)
      else None)"

definition data_ok :: "board_data \<Rightarrow> bool" where
  "data_ok d \<longleftrightarrow> length (d_coils d) = 10 \<and> length (d_discrete_inputs d) = 10 \<and>
     length (d_holding_registers d) = 10 \<and> length (d_input_registers d) = 10 \<and>
     length (d_expected_coils d) = 10 \<and> length (d_expected_registers d) = 10 \<and>
     length (d_multiple_coil_write_values d) = 10 \<and> length (d_multiple_register_write_values d) = 10"

lemma pack_coil_length:
  "length (fst (pack_coil vs i st)) = length (fst st)" "length (snd (pack_coil vs i st)) = length (snd st)"
  by (simp_all add: pack_coil_def Let_def split: prod.splits)

lemma pack_coils_length:
  "length (fst (fold (pack_coil vs) is st)) = length (fst st) \<and> length (snd (fold (pack_coil vs) is st)) = length (snd st)"
  by (induction "is" arbitrary: st) (simp_all add: pack_coil_length)

lemma copy_loop:
  assumes "length vs = n" "length xs = n"
  shows "fold (\<lambda>i xs. xs[i := vs ! i]) [0..<n] xs = vs"
proof -
  have "fold (\<lambda>i xs. xs[i := vs ! i]) [0..<k] xs = take k vs @ drop k xs" if "k \<le> n" for k
    using that
  proof (induction k)
    case (Suc k)
    then have "drop k xs = xs ! k # drop (Suc k) xs" using assms(2) by (simp add: Cons_nth_drop_Suc)
    with Suc show ?case using assms(1) by (simp add: take_Suc_conv_app_nth list_update_append)
  qed simp
  from this [of n] assms show ?thesis by simp
qed

text \<open>What building the request of a step does: it succeeds, and only stores the request.\<close>

definition step_built :: "board \<Rightarrow> master_call \<Rightarrow> mbrtum_request \<Rightarrow> bytes \<Rightarrow> board_data \<Rightarrow> bool" where
  "step_built b c r adu d \<longleftrightarrow> build_request 1 c 256 = Inr (r, adu) \<and> arguments_ok c \<and> data_ok d \<and>
     rq_expects_response r = 1 \<and> (\<forall>c'. read_call (b_test_step b) (b_current_test b) = Some c' \<longrightarrow> c' = c) \<and>
     modbus_master_build_request b = (None, b\<lparr>b_request := r, b_request_adu := adu, b_data := d\<rparr>)"

lemmas builder_defs = mbrtum_build_read_bits_request_def mbrtum_build_read_registers_request_def
  mbrtum_build_write_single_coil_request_def mbrtum_build_write_single_register_request_def
  mbrtum_build_write_multiple_coils_request_def mbrtum_build_write_multiple_registers_request_def
  build_fixed_request_def unicast_address_is_valid_def write_address_is_valid_def address_range_is_valid_def

lemma step_builtI:
  assumes "build_request 1 c 256 = Inr (r, adu)" "arguments_ok c" "data_ok d"
    "\<And>c'. read_call (b_test_step b) (b_current_test b) = Some c' \<Longrightarrow> c' = c"
    "rq_expects_response r = 1"
    "modbus_master_build_request b = store_request (build_request 1 c 256)
       (b\<lparr>b_request := zero_request, b_request_adu := [], b_data := d\<rparr>)"
  shows "\<exists>r adu. step_built b c r adu d"
proof -
  have "step_built b c r adu d"
    using assms by (simp add: step_built_def store_request_def)
  then show ?thesis by blast
qed

lemma read_step_built:
  assumes "read_call (b_test_step b) (b_current_test b) = Some c" "data_ok (b_data b)"
  shows "\<exists>r adu. step_built b c r adu (b_data b)"
proof -
  obtain r adu where r: "build_request 1 c 256 = Inr (r, adu)" "rq_expects_response r = 1"
    using assms(1) by (auto simp: read_call_def builder_defs split: if_splits)
  moreover have "arguments_ok c" using assms(1) by (auto simp: read_call_def split: if_splits)
  moreover have "modbus_master_build_request b = store_request (build_request 1 c 256)
      (b\<lparr>b_request := zero_request, b_request_adu := [], b_data := b_data b\<rparr>)"
    using assms(1) by (auto simp: read_call_def modbus_master_build_request_def Let_def split: if_splits)
  ultimately show ?thesis using assms by (intro step_builtI) auto
qed

lemma register_step_built:
  assumes "b_test_step b = MODBUS_MASTER_TEST_STEP_REQUEST" "b_current_test b = 0x10" "data_ok (b_data b)"
  defines "vs \<equiv> d_multiple_register_write_values (b_data b)"
  shows "\<exists>r adu. step_built b (Write_Multiple_Registers 0 10 vs) r adu ((b_data b)\<lparr>d_expected_registers := vs\<rparr>)"
proof -
  have copy: "fold (\<lambda>i xs. xs[i := vs ! i]) [0..<10] (d_expected_registers (b_data b)) = vs" "length vs = 10"
    using assms(3) by (auto simp: data_ok_def vs_def intro!: copy_loop)
  obtain r adu where "build_request 1 (Write_Multiple_Registers 0 10 vs) 256 = Inr (r, adu)"
    "rq_expects_response r = 1" by (simp add: builder_defs Let_def)
  with assms(1-3) copy show ?thesis
    by (intro step_builtI) (auto simp: data_ok_def modbus_master_build_request_def Let_def read_call_def
        simp flip: vs_def simp del: upt_rec_numeral)
qed

lemma write_step_built:
  assumes "b_test_step b = MODBUS_MASTER_TEST_STEP_REQUEST" "modbus_master_test_is_write (b_current_test b)"
    "data_ok (b_data b)"
  shows "\<exists>c r adu d. step_built b c r adu d"
proof -
  let ?d = "b_data b"
  have none: "read_call (b_test_step b) (b_current_test b) = None"
    using assms(1,2) by (auto simp: read_call_def modbus_master_test_is_write_def)
  from assms(2) consider "b_current_test b = 0x05" | "b_current_test b = 0x06" | "b_current_test b = 0x0F"
    | "b_current_test b = 0x10" by (auto simp: modbus_master_test_is_write_def)
  then show ?thesis
  proof cases
    case 1
    let ?v = "if d_single_coil_write_value ?d \<noteq> 0 then 1 else 0 :: u8"
    obtain r adu where "build_request 1 (Write_Single_Coil 0 ?v) 256 = Inr (r, adu)" "rq_expects_response r = 1"
      by (cases "d_single_coil_write_value ?d = 0") (simp_all add: builder_defs Let_def)
    with 1 assms none have "\<exists>r adu. step_built b (Write_Single_Coil 0 ?v) r adu
        (?d\<lparr>d_expected_coils := (d_expected_coils ?d)[0 := ?v]\<rparr>)"
      by (intro step_builtI)
        (auto simp: data_ok_def modbus_master_build_request_def Let_def)
    then show ?thesis by blast
  next
    case 2
    let ?v = "d_single_register_write_value ?d"
    obtain r adu where "build_request 1 (Write_Single_Register 0 ?v) 256 = Inr (r, adu)" "rq_expects_response r = 1"
      by (simp add: builder_defs)
    with 2 assms none have "\<exists>r adu. step_built b (Write_Single_Register 0 ?v) r adu
        (?d\<lparr>d_expected_registers := (d_expected_registers ?d)[0 := ?v]\<rparr>)"
      by (intro step_builtI)
        (auto simp: data_ok_def modbus_master_build_request_def Let_def)
    then show ?thesis by blast
  next
    case 3
    let ?p = "fold (pack_coil (d_multiple_coil_write_values ?d)) [0..<10] (d_expected_coils ?d, replicate 2 0)"
    have len: "length (fst ?p) = 10" "length (snd ?p) = 2"
      using pack_coils_length assms(3) by (simp_all add: data_ok_def)
    obtain r adu where "build_request 1 (Write_Multiple_Coils 0 10 (snd ?p)) 256 = Inr (r, adu)"
      "rq_expects_response r = 1" using len by (simp add: builder_defs Let_def)
    with 3 assms none len have "\<exists>r adu. step_built b (Write_Multiple_Coils 0 10 (snd ?p)) r adu
        (?d\<lparr>d_expected_coils := fst ?p, d_packed_coils := snd ?p\<rparr>)"
      by (intro step_builtI)
        (auto simp: data_ok_def modbus_master_build_request_def Let_def case_prod_beta simp del: upt_rec_numeral)
    then show ?thesis by blast
  next
    case 4
    with assms(1,3) show ?thesis using register_step_built by blast
  qed
qed

lemma step_builds:
  assumes "b_test_step b \<noteq> MODBUS_MASTER_TEST_STEP_IDLE" "modbus_master_test_is_valid (b_current_test b)"
    "data_ok (b_data b)"
  obtains c r adu d where "step_built b c r adu d"
proof (cases "read_call (b_test_step b) (b_current_test b)")
  case None
  with assms have "b_test_step b = MODBUS_MASTER_TEST_STEP_REQUEST" "modbus_master_test_is_write (b_current_test b)"
    by (cases "b_test_step b"; auto simp: read_call_def modbus_master_test_is_valid_def
        modbus_master_test_is_write_def split: if_splits)+
  with assms(3) that show ?thesis using write_step_built by blast
next
  case (Some c)
  with assms(3) that show ?thesis using read_step_built by blast
qed

section \<open>The invariant\<close>

definition link_ok :: "board \<Rightarrow> bool" where
  "link_ok b \<longleftrightarrow> link_wf (b_link b) \<and> l_initialized (b_link b) \<and> m_timing (b_link b) = board_timing"

text \<open>Bookkeeping of the cycles: every cycle started is completed or in progress, passed or failed; and no request
  failed to build.\<close>

definition cycle_ok :: "board \<Rightarrow> bool" where
  "cycle_ok b \<longleftrightarrow> c_started (b_counts b) = c_completed (b_counts b) + (if b_cycle_active b then 1 else 0) \<and>
     c_completed (b_counts b) = c_passed (b_counts b) + c_failed (b_counts b) \<and> c_build_errors (b_counts b) = 0 \<and>
     (b_cycle_active b \<longleftrightarrow> b_test_step b \<noteq> MODBUS_MASTER_TEST_STEP_IDLE) \<and>
     (b_cycle_active b \<longrightarrow> modbus_master_test_is_valid (b_current_test b) \<and>
        b_last_result b = MODBUS_MASTER_RESULT_NONE) \<and> data_ok (b_data b)"

text \<open>The transaction belongs to the step of the cycle, and no end of a transmission is lost.\<close>

definition txn_ok :: "board \<Rightarrow> bool" where
  "txn_ok b \<longleftrightarrow> txn_wf (b_txn b) \<and> t_config (b_txn b) = board_txn_config \<and>
     (state_is_active (t_state (b_txn b)) \<longrightarrow> b_cycle_active b) \<and>
     (b_tx_complete_pending b \<longleftrightarrow> t_state (b_txn b) = MBRTUM_TXN_STATE_TRANSMITTING) \<and>
     (b_cycle_active b \<longrightarrow> t_state (b_txn b) \<noteq> MBRTUM_TXN_STATE_IDLE \<and> t_request_adu (b_txn b) \<noteq> [] \<and>
        rq_expects_response (t_request (b_txn b)) = 1 \<and>
        (\<forall>c. read_call (b_test_step b) (b_current_test b) = Some c \<longrightarrow>
           build_request 1 c 256 = Inr (t_request (b_txn b), t_request_adu (b_txn b))))"

definition board_inv :: "board \<Rightarrow> bool" where
  "board_inv b \<longleftrightarrow> link_ok b \<and> cycle_ok b \<and> txn_ok b"

text \<open>The board between two passes: a cycle in progress has a transaction in progress.\<close>

definition at_rest :: "board \<Rightarrow> bool" where
  "at_rest b \<longleftrightarrow> board_inv b \<and> \<not> b_tx_complete_pending b \<and>
     (b_cycle_active b \<longleftrightarrow> state_is_active (t_state (b_txn b))) \<and>
     (l_receive_window_open (b_link b) \<longrightarrow> t_state (b_txn b) = MBRTUM_TXN_STATE_WAITING_RESPONSE)"

lemmas inv_defs = board_inv_def link_ok_def cycle_ok_def txn_ok_def

text \<open>Interrupts leave everything alone but the link, the error flag and the error count.\<close>

lemma interrupt_fields [simp]:
  "b_txn (board_interrupt e b) = b_txn b" "b_cycle_active (board_interrupt e b) = b_cycle_active b"
  "b_test_step (board_interrupt e b) = b_test_step b" "b_current_test (board_interrupt e b) = b_current_test b"
  "b_selected_test (board_interrupt e b) = b_selected_test b"
  "b_last_result (board_interrupt e b) = b_last_result b" "b_data (board_interrupt e b) = b_data b"
  "b_tx_complete_pending (board_interrupt e b) = b_tx_complete_pending b"
  "b_tx_complete_tick (board_interrupt e b) = b_tx_complete_tick b"
  "b_force_request (board_interrupt e b) = b_force_request b"
  "b_auto_poll_enabled (board_interrupt e b) = b_auto_poll_enabled b"
  "b_next_cycle_ms (board_interrupt e b) = b_next_cycle_ms b"
  "c_started (b_counts (board_interrupt e b)) = c_started (b_counts b)"
  "c_completed (b_counts (board_interrupt e b)) = c_completed (b_counts b)"
  "c_passed (b_counts (board_interrupt e b)) = c_passed (b_counts b)"
  "c_failed (b_counts (board_interrupt e b)) = c_failed (b_counts b)"
  "c_build_errors (b_counts (board_interrupt e b)) = c_build_errors (b_counts b)"
  by (cases e; simp add: HAL_UART_RxCpltCallback_def HAL_UART_ErrorCallback_def systick_50us_tick_isr_def Let_def)+

lemma interrupt_link:
  "\<exists>evs. b_link (board_interrupt e b) = board_isrs evs (b_link b)"
proof (cases e)
  case (Irq_Rx u byte ok)
  then have "b_link (board_interrupt e b) = board_isrs (if u then [Rx byte] else []) (b_link b)"
    by (simp add: HAL_UART_RxCpltCallback_def Let_def)
  then show ?thesis ..
next
  case (Irq_Error u)
  then have "b_link (board_interrupt e b) = board_isrs [] (b_link b)" by (simp add: HAL_UART_ErrorCallback_def)
  then show ?thesis ..
next
  case Irq_Tick
  then have "b_link (board_interrupt e b) = board_isrs [Tick] (b_link b)" by (simp add: systick_50us_tick_isr_def)
  then show ?thesis ..
qed

lemma board_isrs_wf: "link_wf l \<Longrightarrow> link_wf (board_isrs evs l)"
  by (induction evs arbitrary: l) (simp_all add: board_isr_wf)

lemma interrupt_link_ok [simp]:
  "l_receive_window_open (b_link (board_interrupt e b)) = l_receive_window_open (b_link b)"
  "link_ok b \<Longrightarrow> link_ok (board_interrupt e b)"
  using interrupt_link [of e b] by (auto simp: link_ok_def board_isrs_wf)

lemma interrupt_ok [simp]: "cycle_ok (board_interrupt e b) = cycle_ok b" "txn_ok (board_interrupt e b) = txn_ok b"
  by (simp_all add: cycle_ok_def txn_ok_def)

lemma interrupt_inv: "board_inv b \<Longrightarrow> board_inv (board_interrupt e b)"
  by (simp add: board_inv_def)

lemma interrupts_inv [intro]: "board_inv b \<Longrightarrow> board_inv (board_interrupts evs b)"
  unfolding board_interrupts_def by (induction evs arbitrary: b) (simp_all add: interrupt_inv)

lemma interrupts_fields [simp]:
  "b_txn (board_interrupts evs b) = b_txn b" "b_cycle_active (board_interrupts evs b) = b_cycle_active b"
  "b_tx_complete_pending (board_interrupts evs b) = b_tx_complete_pending b"
  "b_test_step (board_interrupts evs b) = b_test_step b" "b_current_test (board_interrupts evs b) = b_current_test b"
  "b_last_result (board_interrupts evs b) = b_last_result b" "b_data (board_interrupts evs b) = b_data b"
  "l_receive_window_open (b_link (board_interrupts evs b)) = l_receive_window_open (b_link b)"
  unfolding board_interrupts_def by (induction evs arbitrary: b; simp)+

lemma interrupts_at_rest: "at_rest b \<Longrightarrow> at_rest (board_interrupts evs b)"
  by (auto simp: at_rest_def)

text \<open>The stages that do not transmit.\<close>

lemma response_keeps [simp]:
  "t_config (snd (mbrtum_transaction_on_response adu now t)) = t_config t"
  "t_request (snd (mbrtum_transaction_on_response adu now t)) = t_request t"
  "t_request_adu (snd (mbrtum_transaction_on_response adu now t)) = t_request_adu t"
  "t_sent (snd (mbrtum_transaction_on_response adu now t)) = t_sent t"
  by (simp_all add: mbrtum_transaction_on_response_def txn_op_defs Let_def split: option.split response_result.split)

lemma response_state:
  assumes "t_state t = MBRTUM_TXN_STATE_WAITING_RESPONSE"
  shows "t_state (snd (mbrtum_transaction_on_response adu now t)) \<notin>
    {MBRTUM_TXN_STATE_IDLE, MBRTUM_TXN_STATE_TRANSMITTING, MBRTUM_TXN_STATE_CANCELLED}"
  using assms by (simp add: mbrtum_transaction_on_response_def txn_op_defs Let_def split: option.split response_result.split)

lemma response_txn_ok:
  assumes "txn_ok b" "t_state (b_txn b) = MBRTUM_TXN_STATE_WAITING_RESPONSE"
  shows "txn_ok (b\<lparr>b_txn := snd (mbrtum_transaction_on_response adu now (b_txn b))\<rparr>)"
proof -
  have "b_cycle_active b" using assms by (simp add: txn_ok_def state_is_active_def)
  then show ?thesis
    using assms response_state [OF assms(2), of adu now] by (auto simp: txn_ok_def response_wf)
qed

lemma cycle_ok_other [simp]:
  "cycle_ok (b\<lparr>b_txn := t\<rparr>) = cycle_ok b" "cycle_ok (b\<lparr>b_link := l\<rparr>) = cycle_ok b"
  "cycle_ok (b\<lparr>b_last_response_length := n\<rparr>) = cycle_ok b" "cycle_ok (b\<lparr>b_uart_error_pending := f\<rparr>) = cycle_ok b"
  "cycle_ok (b\<lparr>b_tx_complete_pending := f\<rparr>) = cycle_ok b" "cycle_ok (b\<lparr>b_last_protocol_result := i\<rparr>) = cycle_ok b"
  "cycle_ok (b\<lparr>b_watch := w\<rparr>) = cycle_ok b" "cycle_ok (b\<lparr>b_force_request := f\<rparr>) = cycle_ok b"
  "cycle_ok (b\<lparr>b_counts := (b_counts b)\<lparr>c_uart_errors := n'\<rparr>\<rparr>) = cycle_ok b"
  "cycle_ok (b\<lparr>b_counts := (b_counts b)\<lparr>c_uart_recoveries := n'\<rparr>\<rparr>) = cycle_ok b"
  by (simp_all add: cycle_ok_def)

lemma txn_ok_other [simp]:
  "txn_ok (b\<lparr>b_link := l\<rparr>) = txn_ok b" "txn_ok (b\<lparr>b_last_response_length := n\<rparr>) = txn_ok b"
  "txn_ok (b\<lparr>b_uart_error_pending := f\<rparr>) = txn_ok b" "txn_ok (b\<lparr>b_last_protocol_result := i\<rparr>) = txn_ok b"
  "txn_ok (b\<lparr>b_watch := w\<rparr>) = txn_ok b" "txn_ok (b\<lparr>b_force_request := f\<rparr>) = txn_ok b"
  "txn_ok (b\<lparr>b_counts := c\<rparr>) = txn_ok b" "txn_ok (b\<lparr>b_data := d\<rparr>) = txn_ok b"
  by (simp_all add: txn_ok_def)

lemma armed_inv: "board_inv b \<Longrightarrow> board_inv (modbus_master_ensure_receive_armed hal b)"
  by (simp add: modbus_master_ensure_receive_armed_def board_inv_def link_ok_def)

lemma link_wf_released [simp]: "link_wf l \<Longrightarrow> link_wf (l\<lparr>m_pending_ready := False\<rparr>)"
  by (auto simp: link_wf_def portable_view_def ctx_wf_def ctx_wf0_def)

lemma response_frame_inv:
  assumes "board_inv b"
  shows "board_inv (modbus_master_process_response_frame now b)"
  using assms response_txn_ok [of "b\<lparr>b_link := l, b_last_response_length := n\<rparr>" adu now for l n adu]
  by (auto simp: modbus_master_process_response_frame_def board_inv_def link_ok_def Let_def)

lemma reset_initialized [simp]:
  "l_initialized (modbus_master_rx_reset_all l) = l_initialized l"
  "l_receive_window_open (modbus_master_rx_reset_all l) = l_receive_window_open l"
  "m_timing (modbus_master_rx_reset_all l) = m_timing l"
  by (simp_all add: modbus_master_rx_reset_all_def modbus_master_rx_reset_active_isr_def)

lemma uart_error_inv:
  assumes "board_inv b"
  shows "board_inv (modbus_master_process_uart_error now b)"
  using assms response_txn_ok [of "b\<lparr>b_uart_error_pending := False, b_link := l\<rparr>" adu now for l adu]
  by (auto simp: modbus_master_process_uart_error_def board_inv_def link_ok_def Let_def reset_view_wf)

lemma sync_inv: "board_inv b \<Longrightarrow> board_inv (modbus_master_sync_watch_state b)"
  by (simp add: modbus_master_sync_watch_state_def board_inv_def link_ok_def Let_def close_window_def reset_view_wf)

lemma sync_fields [simp]:
  "b_txn (modbus_master_sync_watch_state b) = b_txn b"
  "b_cycle_active (modbus_master_sync_watch_state b) = b_cycle_active b"
  "b_tx_complete_pending (modbus_master_sync_watch_state b) = b_tx_complete_pending b"
  "b_test_step (modbus_master_sync_watch_state b) = b_test_step b"
  "b_current_test (modbus_master_sync_watch_state b) = b_current_test b"
  "b_last_result (modbus_master_sync_watch_state b) = b_last_result b"
  "b_data (modbus_master_sync_watch_state b) = b_data b"
  "b_counts (modbus_master_sync_watch_state b) = b_counts b"
  by (simp_all add: modbus_master_sync_watch_state_def Let_def close_window_def)

lemma sync_window:
  "l_receive_window_open (b_link (modbus_master_sync_watch_state b)) \<Longrightarrow> \<not> b_tx_complete_pending b \<Longrightarrow>
    t_state (b_txn b) = MBRTUM_TXN_STATE_WAITING_RESPONSE"
  by (auto simp: modbus_master_sync_watch_state_def Let_def close_window_def split: if_splits)

text \<open>The end of a transmission, which is reported once and opens the wait for the response.\<close>

lemma tx_complete_run:
  assumes "txn_wf t" "t_state t = MBRTUM_TXN_STATE_TRANSMITTING" "rq_expects_response (t_request t) = 1"
  shows "mbrtum_transaction_on_tx_complete now t =
    (MBRTUM_TXN_OK, t\<lparr>t_deadline := now + response_timeout_ticks (t_config t),
                      t_state := MBRTUM_TXN_STATE_WAITING_RESPONSE\<rparr>)"
  using assms by (simp add: mbrtum_transaction_on_tx_complete_def txn_wf_def)

lemma handle_tx_complete_run:
  assumes "txn_ok b"
  shows "modbus_master_handle_tx_complete b =
    (if b_tx_complete_pending b
     then b\<lparr>b_tx_complete_pending := False, b_txn := (b_txn b)\<lparr>t_deadline := b_tx_complete_tick b + 1000,
              t_state := MBRTUM_TXN_STATE_WAITING_RESPONSE\<rparr>\<rparr>
     else b)"
proof (cases "b_tx_complete_pending b")
  case True
  then have t: "txn_wf (b_txn b)" "t_state (b_txn b) = MBRTUM_TXN_STATE_TRANSMITTING"
    "rq_expects_response (t_request (b_txn b)) = 1" "t_config (b_txn b) = board_txn_config"
    using assms by (simp_all add: txn_ok_def state_is_active_def)
  then show ?thesis
    using True tx_complete_run [OF t(1-3)] by (simp add: modbus_master_handle_tx_complete_def board_txn_config_def)
qed (simp add: modbus_master_handle_tx_complete_def)

lemma waiting_txn_ok:
  assumes "txn_ok b" "b_tx_complete_pending b"
  shows "txn_ok (b\<lparr>b_tx_complete_pending := False, b_txn := (b_txn b)\<lparr>t_deadline := n,
           t_state := MBRTUM_TXN_STATE_WAITING_RESPONSE\<rparr>\<rparr>)"
proof -
  have "b_cycle_active b" "t_state (b_txn b) = MBRTUM_TXN_STATE_TRANSMITTING"
    using assms by (auto simp: txn_ok_def state_is_active_def)
  then show ?thesis
    using assms by (auto simp: txn_ok_def txn_wf_def state_is_active_def outcome_ok_def transaction_is_initialized_def)
qed

lemma tx_complete_inv:
  assumes "board_inv b"
  shows "board_inv (modbus_master_handle_tx_complete b)" "\<not> b_tx_complete_pending (modbus_master_handle_tx_complete b)"
proof -
  have t: "txn_ok b" using assms by (simp add: board_inv_def)
  show "board_inv (modbus_master_handle_tx_complete b)"
    using assms waiting_txn_ok [OF t] by (simp add: handle_tx_complete_run [OF t] board_inv_def link_ok_def)
  show "\<not> b_tx_complete_pending (modbus_master_handle_tx_complete b)"
    by (simp add: handle_tx_complete_run [OF t])
qed

lemma tx_complete_fields [simp]:
  "b_cycle_active (modbus_master_handle_tx_complete b) = b_cycle_active b"
  "b_test_step (modbus_master_handle_tx_complete b) = b_test_step b"
  "b_current_test (modbus_master_handle_tx_complete b) = b_current_test b"
  "b_last_result (modbus_master_handle_tx_complete b) = b_last_result b"
  "b_counts (modbus_master_handle_tx_complete b) = b_counts b" "b_data (modbus_master_handle_tx_complete b) = b_data b"
  by (simp_all add: modbus_master_handle_tx_complete_def Let_def close_window_def split: prod.split)

text \<open>A transmission.\<close>

lemma transmit_txn_ok:
  assumes "ready_to_send t" "t_config t = board_txn_config" "b_cycle_active b" "t_request_adu t \<noteq> []"
    "rq_expects_response (t_request t) = 1"
    "\<And>c. read_call (b_test_step b) (b_current_test b) = Some c \<Longrightarrow> build_request 1 c 256 = Inr (t_request t, t_request_adu t)"
  shows "txn_ok (after_transmit hal now t b)"
proof -
  have len: "length (t_request_adu t) \<le> 65535" using assms(1) by (simp add: ready_to_send_def)
  show ?thesis
    using assms begin_transmit_wf [OF assms(1), of "board_transport hal" now]
      after_transmit_pending(1) [OF assms(4) len, of hal now b]
    by (simp add: txn_ok_def begin_transmit_state)
qed

lemma poll_keeps [simp]:
  "t_config (snd (mbrtum_transaction_poll transmit now t)) = t_config t"
  "t_request (snd (mbrtum_transaction_poll transmit now t)) = t_request t"
  "t_request_adu (snd (mbrtum_transaction_poll transmit now t)) = t_request_adu t"
  by (simp_all add: mbrtum_transaction_poll_def txn_op_defs Let_def)

text \<open>Polling transmits, or only moves the transaction on.\<close>

lemma poll_cases:
  assumes "txn_wf (b_txn b)"
  obtains (sends) "t_state (b_txn b) = MBRTUM_TXN_STATE_RETRY_DELAY"
      "snd (with_transport hal (\<lambda>transmit. mbrtum_transaction_poll transmit now) b) = after_transmit hal now (b_txn b) b"
  | (silent) t where
      "snd (with_transport hal (\<lambda>transmit. mbrtum_transaction_poll transmit now) b) = b\<lparr>b_txn := t\<rparr>"
      "t = snd (mbrtum_transaction_poll (board_transport hal) now (b_txn b))"
      "t = b_txn b \<or> (t_state (b_txn b) = MBRTUM_TXN_STATE_WAITING_RESPONSE \<and> t = handle_response_timeout now (b_txn b))"
proof -
  let ?t = "b_txn b" let ?op = "\<lambda>transmit. mbrtum_transaction_poll transmit now"
  have init: "transaction_is_initialized ?t" using assms by (simp add: txn_wf_def)
  show thesis
  proof (cases "t_state ?t = MBRTUM_TXN_STATE_RETRY_DELAY \<and> deadline_reached now (t_deadline ?t)")
    case True
    then have "mbrtum_transaction_poll (board_transport hal) now ?t =
        (MBRTUM_TXN_OK, snd (begin_transmit (board_transport hal) now ?t))"
      using init by (simp add: mbrtum_transaction_poll_def prod_eq_iff)
    then have "snd (with_transport hal ?op b) = after_transmit hal now ?t b"
      using with_transport_sends [of ?op hal b] by (simp add: begin_transmit_sent after_transmit_def)
    with True show ?thesis by (intro sends) simp_all
  next
    case False
    define t where "t = snd (mbrtum_transaction_poll (board_transport hal) now ?t)"
    have c: "t = ?t \<or> (t_state ?t = MBRTUM_TXN_STATE_WAITING_RESPONSE \<and> t = handle_response_timeout now ?t)"
      using False init by (auto simp: t_def mbrtum_transaction_poll_def)
    moreover have "t_sent (handle_response_timeout now ?t) = t_sent ?t" by (simp add: txn_op_defs Let_def)
    ultimately have "t_sent t = t_sent ?t" by auto
    then have "snd (with_transport hal ?op b) = b\<lparr>b_txn := t\<rparr>"
      using with_transport_silent [of ?op hal b "fst (mbrtum_transaction_poll (board_transport hal) now ?t)" t]
      by (simp add: t_def)
    with c show ?thesis by (intro silent [OF _ t_def]) simp_all
  qed
qed

lemma timeout_state:
  "t_state (handle_response_timeout now t) = MBRTUM_TXN_STATE_RETRY_DELAY \<or>
   t_state (handle_response_timeout now t) = MBRTUM_TXN_STATE_FAILED"
  by (simp add: txn_op_defs Let_def)

lemma poll_inv:
  assumes "board_inv b"
  shows "board_inv (snd (with_transport hal (\<lambda>transmit. mbrtum_transaction_poll transmit now) b))"
proof -
  have ok: "txn_ok b" "txn_wf (b_txn b)" using assms by (simp_all add: board_inv_def txn_ok_def)
  show ?thesis
  proof (rule poll_cases [OF ok(2), of hal now])
    assume st: "t_state (b_txn b) = MBRTUM_TXN_STATE_RETRY_DELAY"
      and run: "snd (with_transport hal (\<lambda>transmit. mbrtum_transaction_poll transmit now) b) = after_transmit hal now (b_txn b) b"
    have "b_cycle_active b" using ok(1) st by (simp add: txn_ok_def state_is_active_def)
    then have "txn_ok (after_transmit hal now (b_txn b) b)"
      using ok st by (intro transmit_txn_ok retry_ready) (simp_all add: txn_ok_def)
    then show ?thesis
      using assms unfolding run by (simp add: board_inv_def link_ok_def after_transmit_link) (simp add: cycle_ok_def)
  next
    fix t assume t: "snd (with_transport hal (\<lambda>transmit. mbrtum_transaction_poll transmit now) b) = b\<lparr>b_txn := t\<rparr>"
      "t = snd (mbrtum_transaction_poll (board_transport hal) now (b_txn b))"
      "t = b_txn b \<or> (t_state (b_txn b) = MBRTUM_TXN_STATE_WAITING_RESPONSE \<and> t = handle_response_timeout now (b_txn b))"
    have "txn_ok (b\<lparr>b_txn := t\<rparr>)"
    proof (cases "t = b_txn b")
      case False
      then have w: "t_state (b_txn b) = MBRTUM_TXN_STATE_WAITING_RESPONSE" "t = handle_response_timeout now (b_txn b)"
        using t(3) by simp_all
      then have "b_cycle_active b" using ok(1) by (simp add: txn_ok_def state_is_active_def)
      moreover have "txn_wf t" "t_config t = t_config (b_txn b)" "t_request t = t_request (b_txn b)"
        "t_request_adu t = t_request_adu (b_txn b)"
        using ok(2) by (simp_all add: t(2) poll_transaction_wf)
      ultimately show ?thesis
        using ok(1) w timeout_state [of now "b_txn b"] by (auto simp: txn_ok_def)
    qed (use ok in simp)
    with assms show ?thesis unfolding t(1) by (simp add: board_inv_def link_ok_def)
  qed
qed

section \<open>Starting a step\<close>

text \<open>A step that is about to start: the cycle is on, the last transaction is over.\<close>

definition step_due :: "board \<Rightarrow> bool" where
  "step_due b \<longleftrightarrow> link_ok b \<and> cycle_ok b \<and> b_cycle_active b \<and> txn_wf (b_txn b) \<and>
     t_config (b_txn b) = board_txn_config \<and> \<not> state_is_active (t_state (b_txn b))"

definition started_txn :: "mbrtum_request \<Rightarrow> bytes \<Rightarrow> mbrtum_transaction \<Rightarrow> mbrtum_transaction" where
  "started_txn r adu t = bump_diag (\<lambda>d. d\<lparr>transactions_started := inc_sat (transactions_started d)\<rparr>)
     (t\<lparr>t_request := r, t_request_adu := adu, t_retries_used := 0, t_result := MBRTUM_TXN_RESULT_NONE\<rparr>)"

lemma started_txn_fields [simp]:
  "t_request (started_txn r adu t) = r" "t_request_adu (started_txn r adu t) = adu"
  "t_config (started_txn r adu t) = t_config t" "t_sent (started_txn r adu t) = t_sent t"
  "t_retries_used (started_txn r adu t) = 0"
  by (simp_all add: started_txn_def bump_diag_def)

lemma start_step_run:
  assumes "step_due b" "step_built b c r adu d"
  shows "modbus_master_start_current_step hal now b =
      (0, modbus_master_sync_watch_state (modbus_master_handle_tx_complete
            (after_transmit hal now (started_txn r adu (b_txn b))
               (b\<lparr>b_request := r, b_request_adu := adu, b_data := d\<rparr>))))"
    "ready_to_send (started_txn r adu (b_txn b))" "adu \<noteq> []"
proof -
  let ?b = "b\<lparr>b_request := r, b_request_adu := adu, b_data := d\<rparr>" let ?t = "b_txn b"
  let ?op = "\<lambda>transmit. mbrtum_transaction_start transmit (Some r) (Some adu) now"
  have built: "build_request 1 c 256 = Inr (r, adu)" "arguments_ok c"
    "modbus_master_build_request b = (None, ?b)" using assms(2) by (simp_all add: step_built_def)
  obtain pdu where "well_built 1 256 r pdu adu" using builders_well_built [OF built(1,2)] ..
  then have m: "request_adu_matches_descriptor r adu" "length adu \<le> 256" "adu \<noteq> []"
    by (auto simp: well_built_matches) (simp_all add: well_built_def rtu_frame_def)
  have t: "txn_wf ?t" "\<not> state_is_active (t_state ?t)"
    using assms(1) by (simp_all add: step_due_def)
  then have init: "transaction_is_initialized ?t" by (simp add: txn_wf_def)
  have start: "mbrtum_transaction_start (board_transport hal) (Some r) (Some adu) now ?t =
      (MBRTUM_TXN_OK, snd (begin_transmit (board_transport hal) now (started_txn r adu ?t)))"
    using t m init by (simp add: mbrtum_transaction_start_def started_txn_def prod_eq_iff)
  have "with_transport hal ?op ?b = (MBRTUM_TXN_OK, after_transmit hal now (started_txn r adu ?t) ?b)"
    using with_transport_sends [of ?op hal ?b] start by (simp add: begin_transmit_sent after_transmit_def)
  then show "modbus_master_start_current_step hal now b = (0, modbus_master_sync_watch_state
      (modbus_master_handle_tx_complete (after_transmit hal now (started_txn r adu ?t) ?b)))"
    by (simp add: modbus_master_start_current_step_def built(3))
  show "ready_to_send (started_txn r adu ?t)" "adu \<noteq> []"
    using t m by (simp_all add: ready_to_send_def started_txn_def txn_wf_def bump_diag_def transaction_is_initialized_def)
qed

lemma due_builds:
  assumes "step_due b"
  obtains c r adu d where "step_built b c r adu d"
proof (rule step_builds [of b])
  show "b_test_step b \<noteq> MODBUS_MASTER_TEST_STEP_IDLE" "modbus_master_test_is_valid (b_current_test b)"
    "data_ok (b_data b)" using assms by (auto simp: step_due_def cycle_ok_def)
qed (rule that)

lemma transmitted_inv:
  assumes "step_due b" "step_built b c r adu d"
  shows "board_inv (after_transmit hal now (started_txn r adu (b_txn b))
           (b\<lparr>b_request := r, b_request_adu := adu, b_data := d\<rparr>))"
proof -
  let ?b = "b\<lparr>b_request := r, b_request_adu := adu, b_data := d\<rparr>"
  have "txn_ok (after_transmit hal now (started_txn r adu (b_txn b)) ?b)"
    using assms start_step_run(2,3) [OF assms]
    by (intro transmit_txn_ok) (auto simp: step_due_def step_built_def)
  moreover have "cycle_ok ?b" using assms by (simp add: step_due_def step_built_def cycle_ok_def)
  ultimately show ?thesis
    using assms(1) by (simp add: board_inv_def link_ok_def after_transmit_link step_due_def) (simp add: cycle_ok_def)
qed

text \<open>A step that is due starts: no build error, no start error, and the request is sent.\<close>

lemma start_step_at_rest:
  assumes "step_due b"
  shows "at_rest (snd (modbus_master_start_current_step hal now b))"
    "b_cycle_active (snd (modbus_master_start_current_step hal now b))"
    "fst (modbus_master_start_current_step hal now b) = 0"
    "b_test_step (snd (modbus_master_start_current_step hal now b)) = b_test_step b"
    "b_current_test (snd (modbus_master_start_current_step hal now b)) = b_current_test b"
    "b_counts (snd (modbus_master_start_current_step hal now b)) = b_counts b"
    "b_last_result (snd (modbus_master_start_current_step hal now b)) = b_last_result b"
proof -
  obtain c r adu d where built: "step_built b c r adu d" using due_builds [OF assms] .
  let ?a = "after_transmit hal now (started_txn r adu (b_txn b)) (b\<lparr>b_request := r, b_request_adu := adu, b_data := d\<rparr>)"
  let ?c = "modbus_master_handle_tx_complete ?a"
  note run = start_step_run(1) [OF assms built, of hal now]
  have inv: "board_inv ?a" using transmitted_inv [OF assms built] .
  then have ok: "txn_ok ?a" by (simp add: board_inv_def)
  have act: "b_cycle_active ?a" using assms by (simp add: step_due_def)
  have "t_state (b_txn ?a) = MBRTUM_TXN_STATE_TRANSMITTING \<or> t_state (b_txn ?a) = MBRTUM_TXN_STATE_RETRY_DELAY"
    using assms by (simp add: begin_transmit_state step_due_def board_txn_config_def)
  then have "state_is_active (t_state (b_txn ?c))"
    using ok by (auto simp: handle_tx_complete_run [OF ok] state_is_active_def txn_ok_def simp del: after_transmit_fields)
  moreover have "board_inv (modbus_master_sync_watch_state ?c)" "\<not> b_tx_complete_pending ?c"
    using tx_complete_inv [OF inv] by (simp_all add: sync_inv)
  ultimately show "at_rest (snd (modbus_master_start_current_step hal now b))"
    using act sync_window [of ?c] by (simp add: run at_rest_def)
  show "b_cycle_active (snd (modbus_master_start_current_step hal now b))"
    "fst (modbus_master_start_current_step hal now b) = 0"
    "b_test_step (snd (modbus_master_start_current_step hal now b)) = b_test_step b"
    "b_current_test (snd (modbus_master_start_current_step hal now b)) = b_current_test b"
    "b_counts (snd (modbus_master_start_current_step hal now b)) = b_counts b"
    "b_last_result (snd (modbus_master_start_current_step hal now b)) = b_last_result b"
    using assms by (simp_all add: run step_due_def)
qed

section \<open>Ending a cycle\<close>

lemma finish_cycle_fields [simp]:
  "b_txn (modbus_master_finish_cycle res now b) = b_txn b"
  "b_cycle_active (modbus_master_finish_cycle res now b) = False"
  "b_last_result (modbus_master_finish_cycle res now b) = res"
  "b_data (modbus_master_finish_cycle res now b) = b_data b"
  "b_tx_complete_pending (modbus_master_finish_cycle res now b) = b_tx_complete_pending b"
  "l_receive_window_open (b_link (modbus_master_finish_cycle res now b)) = False"
  "b_next_cycle_ms (modbus_master_finish_cycle res now b) = now + 1000"
  "b_force_request (modbus_master_finish_cycle res now b) = b_force_request b"
  by (simp_all add: modbus_master_finish_cycle_def Let_def close_window_def)

lemma finish_cycle_at_rest:
  assumes "board_inv b" "b_cycle_active b" "\<not> state_is_active (t_state (b_txn b))"
  shows "at_rest (modbus_master_finish_cycle res now b)"
proof -
  have "cycle_ok (modbus_master_finish_cycle res now b)"
    using assms(1,2) by (auto simp: board_inv_def cycle_ok_def modbus_master_finish_cycle_def Let_def close_window_def)
  moreover have "link_ok (modbus_master_finish_cycle res now b)"
    using assms(1) by (simp add: board_inv_def link_ok_def modbus_master_finish_cycle_def Let_def close_window_def reset_view_wf)
  moreover have "txn_ok (modbus_master_finish_cycle res now b)"
    using assms by (simp add: board_inv_def txn_ok_def)
  moreover have "\<not> b_tx_complete_pending b" using assms by (auto simp: board_inv_def txn_ok_def state_is_active_def)
  ultimately show ?thesis using assms(3) by (simp add: at_rest_def board_inv_def)
qed

lemma decode_loop_length: "length (snd (decode_loop get is xs)) = length xs"
  by (induction "is" arbitrary: xs) (simp_all split: sum.split)

lemma decode_inv:
  assumes "modbus_master_decode_read_response b = (e, b')" "board_inv b"
  shows "board_inv b'" "b_cycle_active b' = b_cycle_active b" "b_txn b' = b_txn b" "b_test_step b' = b_test_step b"
    "b_current_test b' = b_current_test b" "b_counts b' = b_counts b" "b_force_request b' = b_force_request b"
proof -
  obtain d where d: "b' = b\<lparr>b_data := d\<rparr>" "data_ok (b_data b) \<Longrightarrow> data_ok d"
  proof (rule that)
    show "b' = b\<lparr>b_data := b_data b'\<rparr>"
      using assms(1) by (auto simp: modbus_master_decode_read_response_def Let_def case_prod_beta
          simp del: decode_loop.simps upt_rec_numeral split: if_splits)
    show "data_ok (b_data b')" if "data_ok (b_data b)"
      using assms(1) that by (auto simp: modbus_master_decode_read_response_def Let_def case_prod_beta data_ok_def
          decode_loop_length simp del: decode_loop.simps upt_rec_numeral split: if_splits)
  qed
  then show "board_inv b'" "b_cycle_active b' = b_cycle_active b" "b_txn b' = b_txn b" "b_test_step b' = b_test_step b"
    "b_current_test b' = b_current_test b" "b_counts b' = b_counts b" "b_force_request b' = b_force_request b"
    using assms(2) by (simp_all add: board_inv_def link_ok_def) (simp add: cycle_ok_def)
qed

lemma verify_inv:
  assumes "modbus_master_verify_readback b = (ok, b')" "board_inv b"
  shows "board_inv b'" "b_cycle_active b' = b_cycle_active b" "b_txn b' = b_txn b" "b_counts b' = b_counts b"
    "b_force_request b' = b_force_request b"
proof -
  have cmp: "data_ok (snd (compare_coils n d)) = data_ok d" "data_ok (snd (compare_registers n d)) = data_ok d" for n d
    by (simp_all add: compare_coils_def compare_registers_def data_ok_def split: option.split)
  obtain d where d: "b' = b\<lparr>b_data := d\<rparr>" "data_ok (b_data b) \<Longrightarrow> data_ok d"
  proof (rule that)
    show "b' = b\<lparr>b_data := b_data b'\<rparr>"
      using assms(1) by (auto simp: modbus_master_verify_readback_def Let_def case_prod_beta)
    show "data_ok (b_data b')" if "data_ok (b_data b)"
    proof -
      have "data_ok ((b_data b)\<lparr>d_mismatch_index := 0xFFFF, d_verification_expected := 0, d_verification_actual := 0\<rparr>)"
        using that by (simp add: data_ok_def)
      with cmp assms(1) show ?thesis
        by (auto simp: modbus_master_verify_readback_def Let_def case_prod_beta split: if_splits)
    qed
  qed
  then show "board_inv b'" "b_cycle_active b' = b_cycle_active b" "b_txn b' = b_txn b" "b_counts b' = b_counts b"
    "b_force_request b' = b_force_request b"
    using assms(2) by (simp_all add: board_inv_def link_ok_def) (simp add: cycle_ok_def)
qed

lemma cycle_ok_counts [simp]:
  "cycle_ok (b\<lparr>b_counts := (b_counts b)\<lparr>c_decode_errors := n\<rparr>\<rparr>) = cycle_ok b"
  "cycle_ok (b\<lparr>b_counts := (b_counts b)\<lparr>c_verification_failures := n\<rparr>\<rparr>) = cycle_ok b"
  "cycle_ok (b\<lparr>b_counts := (b_counts b)\<lparr>c_verification_passes := n\<rparr>\<rparr>) = cycle_ok b"
  by (simp_all add: cycle_ok_def)

lemma finish_read_at_rest:
  assumes "board_inv b" "b_cycle_active b" "\<not> state_is_active (t_state (b_txn b))"
  shows "at_rest (finish_read now b)" "\<not> b_cycle_active (finish_read now b)"
proof -
  obtain e b1 where dec: "modbus_master_decode_read_response b = (e, b1)" by (cases "modbus_master_decode_read_response b")
  note d = decode_inv [OF dec assms(1)]
  obtain ok b2 where ver: "modbus_master_verify_readback b1 = (ok, b2)" by (cases "modbus_master_verify_readback b1")
  note v = verify_inv [OF ver d(1)]
  have *: "board_inv (b1\<lparr>b_counts := (b_counts b1)\<lparr>c_decode_errors := n\<rparr>, b_last_protocol_result := k\<rparr>)"
    "board_inv (b2\<lparr>b_counts := (b_counts b2)\<lparr>c_verification_failures := n\<rparr>\<rparr>)"
    "board_inv (b2\<lparr>b_counts := (b_counts b2)\<lparr>c_verification_passes := n\<rparr>\<rparr>)" for n k
    using d(1) v(1) by (simp_all add: board_inv_def link_ok_def)
  show "at_rest (finish_read now b)"
    using finish_cycle_at_rest * d(1-3) v(1-3) assms(2,3)
    by (simp add: finish_read_def dec ver split: option.split)
  show "\<not> b_cycle_active (finish_read now b)"
    by (simp add: finish_read_def dec ver split: option.split)
qed

lemma readback_due:
  assumes "board_inv b" "b_test_step b = MODBUS_MASTER_TEST_STEP_REQUEST" "\<not> state_is_active (t_state (b_txn b))"
  shows "step_due (b\<lparr>b_test_step := MODBUS_MASTER_TEST_STEP_VERIFY_READBACK\<rparr>)"
  using assms by (simp add: step_due_def board_inv_def link_ok_def cycle_ok_def txn_ok_def)

lemma terminal_at_rest:
  assumes "board_inv b" "\<not> b_tx_complete_pending b"
    "l_receive_window_open (b_link b) \<Longrightarrow> t_state (b_txn b) = MBRTUM_TXN_STATE_WAITING_RESPONSE"
  shows "at_rest (modbus_master_handle_terminal_transaction hal now b)"
proof (cases "b_cycle_active b \<and> \<not> state_is_active (t_state (b_txn b))")
  case True
  then have fin: "at_rest (modbus_master_finish_cycle res now b)" "at_rest (finish_read now b)" for res
    using assms(1) finish_cycle_at_rest finish_read_at_rest by blast+
  have due: "step_due (b\<lparr>b_test_step := MODBUS_MASTER_TEST_STEP_VERIFY_READBACK\<rparr>)"
    if "b_test_step b = MODBUS_MASTER_TEST_STEP_REQUEST"
    using readback_due [OF assms(1) that] True by simp
  have "t_state (b_txn b) \<noteq> MBRTUM_TXN_STATE_IDLE" using assms(1) True by (simp add: board_inv_def txn_ok_def)
  then have "t_state (b_txn b) = MBRTUM_TXN_STATE_COMPLETE \<or> t_state (b_txn b) = MBRTUM_TXN_STATE_FAILED \<or>
      t_state (b_txn b) = MBRTUM_TXN_STATE_CANCELLED"
    using True by (cases "t_state (b_txn b)") (simp_all add: state_is_active_def)
  then show ?thesis
    using True fin start_step_at_rest(1) [OF due]
    by (auto simp: modbus_master_handle_terminal_transaction_def Let_def)
next
  case False
  have "modbus_master_handle_terminal_transaction hal now b = b"
    using False by (auto simp: modbus_master_handle_terminal_transaction_def Let_def state_is_active_def)
  moreover have "state_is_active (t_state (b_txn b)) \<longrightarrow> b_cycle_active b"
    using assms(1) by (simp add: board_inv_def txn_ok_def)
  ultimately show ?thesis using assms False by (auto simp: at_rest_def)
qed

section \<open>A pass\<close>

definition cycle_begun :: "board \<Rightarrow> board" where
  "cycle_begun b = b\<lparr>b_current_test := b_selected_test b, b_test_step := MODBUS_MASTER_TEST_STEP_REQUEST,
      b_last_result := MODBUS_MASTER_RESULT_NONE, b_cycle_active := True, b_data := (b_data b)
        \<lparr>d_mismatch_index := 0xFFFF, d_verification_expected := 0, d_verification_actual := 0\<rparr>,
      b_counts := (b_counts b)\<lparr>c_started := c_started (b_counts b) + 1\<rparr>\<rparr>"

lemma start_cycle_begins:
  assumes "at_rest b" "\<not> b_cycle_active b" "modbus_master_test_is_valid (b_selected_test b)"
  shows "modbus_master_start_cycle hal now b = snd (modbus_master_start_current_step hal now (cycle_begun b))"
    "step_due (cycle_begun b)"
  using assms by (auto simp: modbus_master_start_cycle_def Let_def cycle_begun_def step_due_def at_rest_def
      board_inv_def link_ok_def cycle_ok_def txn_ok_def data_ok_def)

lemma start_cycle_at_rest:
  assumes "at_rest b"
  shows "at_rest (modbus_master_start_cycle hal now b)"
proof (cases "b_cycle_active b \<or> modbus_master_test_is_valid (b_selected_test b)")
  case False
  then show ?thesis
    using assms by (auto simp: modbus_master_start_cycle_def at_rest_def board_inv_def link_ok_def cycle_ok_def txn_ok_def)
next
  case True
  then show ?thesis
    using assms start_cycle_begins [OF assms] start_step_at_rest(1)
    by (cases "b_cycle_active b") (auto simp: modbus_master_start_cycle_def)
qed

lemma process_at_rest:
  assumes "at_rest b"
  shows "at_rest (modbus_master_process hal now irq b)"
proof -
  define b1 where "b1 = board_interrupts (irq 0) (modbus_master_ensure_receive_armed hal b)"
  define b2 where "b2 = board_interrupts (irq 1) (modbus_master_handle_tx_complete b1)"
  define b3 where "b3 = board_interrupts (irq 2) (modbus_master_process_response_frame now b2)"
  define b4 where "b4 = board_interrupts (irq 3) (modbus_master_process_uart_error now b3)"
  define b5 where "b5 = board_interrupts (irq 4) (snd (with_transport hal (\<lambda>transmit. mbrtum_transaction_poll transmit now) b4))"
  define b6 where "b6 = board_interrupts (irq 5) (modbus_master_handle_tx_complete b5)"
  define b7 where "b7 = board_interrupts (irq 6) (modbus_master_sync_watch_state b6)"
  define b8 where "b8 = board_interrupts (irq 7) (modbus_master_handle_terminal_transaction hal now b7)"
  define b9 where "b9 = board_interrupts (irq 8) (modbus_master_sync_watch_state b8)"
  have init: "l_initialized (b_link b)" using assms by (simp add: at_rest_def board_inv_def link_ok_def)
  have run: "modbus_master_process hal now irq b =
      (if b_cycle_active b9 then b9
       else if b_force_request b9 then modbus_master_start_cycle hal now (b9\<lparr>b_force_request := False\<rparr>)
       else if b_auto_poll_enabled b9 \<and> modbus_master_time_reached now (b_next_cycle_ms b9)
       then modbus_master_start_cycle hal now b9 else b9)"
    using init unfolding modbus_master_process_def b1_def b2_def b3_def b4_def b5_def b6_def b7_def b8_def b9_def Let_def
    by (simp only: if_True not_not if_False simp_thms)
  have "board_inv b" using assms by (simp add: at_rest_def)
  then have "board_inv b5" unfolding b1_def b2_def b3_def b4_def b5_def
    by (intro interrupts_inv armed_inv tx_complete_inv response_frame_inv uart_error_inv poll_inv)
  then have "board_inv b6" "\<not> b_tx_complete_pending b6" using tx_complete_inv [of b5] by (auto simp: b6_def)
  then have "board_inv b7" "\<not> b_tx_complete_pending b7"
    "l_receive_window_open (b_link b7) \<Longrightarrow> t_state (b_txn b7) = MBRTUM_TXN_STATE_WAITING_RESPONSE"
    using sync_window [of b6] by (auto simp: b7_def intro: sync_inv)
  then have "at_rest b8" unfolding b8_def by (intro interrupts_at_rest terminal_at_rest)
  then have "at_rest b9" unfolding b9_def
    using sync_window [of b8] by (intro interrupts_at_rest) (auto simp: at_rest_def sync_inv)
  moreover from this have "at_rest (b9\<lparr>b_force_request := False\<rparr>)" by (simp add: at_rest_def board_inv_def link_ok_def)
  ultimately show ?thesis unfolding run by (simp add: start_cycle_at_rest)
qed

section \<open>All reachable states\<close>

definition zero_counts :: board_counts where
  "zero_counts = \<lparr>c_started = 0, c_completed = 0, c_passed = 0, c_failed = 0, c_build_errors = 0,
     c_decode_errors = 0, c_verification_passes = 0, c_verification_failures = 0, c_uart_errors = 0,
     c_uart_recoveries = 0\<rparr>"

lemma init_at_rest:
  assumes "modbus_master_init hal now b0 = (0, b)" "b_counts b0 = zero_counts"
  shows "at_rest b"
proof -
  obtain t where t: "mbrtum_transaction_init (Some board_txn_config) True = Inr t"
    by (simp add: mbrtum_transaction_init_def board_txn_config_def duration_is_valid_def)
  then have wf: "txn_wf t" "t_config t = board_txn_config" "t_state t = MBRTUM_TXN_STATE_IDLE"
    using init_wf [OF t] by (auto simp: mbrtum_transaction_init_def split: if_splits)
  have "hal_receive_ok hal" using assms(1) t by (auto simp: modbus_master_init_def board_timing_calculated Let_def
      split: if_splits)
  with assms t wf show ?thesis
    by (auto simp: modbus_master_init_def board_timing_calculated Let_def at_rest_def board_inv_def link_ok_def
        cycle_ok_def txn_ok_def data_ok_def zero_counts_def modbus_master_sync_watch_state_def close_window_def
        link_wf_def portable_view_def ctx_wf_def ctx_wf0_def zero_rx_def modbus_master_rx_reset_all_def
        modbus_master_rx_reset_active_isr_def state_is_active_def)
qed

lemma init_idle: "modbus_master_init hal now b0 = (0, b) \<Longrightarrow> \<not> b_cycle_active b"
  by (auto simp: modbus_master_init_def board_timing_calculated mbrtum_transaction_init_def board_txn_config_def
      duration_is_valid_def Let_def simp del: upt_rec_numeral split: if_splits)

text \<open>
  The board in operation: after a successful initialisation, passes of the main loop with any
  behaviour of the HAL and interrupts anywhere, interrupts between passes, and edits of the
  watch variables from the debugger.
\<close>

inductive board_reachable :: "board \<Rightarrow> bool" where
  initial: "modbus_master_init hal now b0 = (0, b) \<Longrightarrow> b_counts b0 = zero_counts \<Longrightarrow> board_reachable b"
| pass: "board_reachable b \<Longrightarrow> board_reachable (modbus_master_process hal now irq b)"
| interrupt: "board_reachable b \<Longrightarrow> board_reachable (board_interrupt e b)"
| request: "board_reachable b \<Longrightarrow> board_reachable (modbus_master_request_now b)"
| edit: "board_reachable b \<Longrightarrow> length cs = 10 \<Longrightarrow> length rs = 10 \<Longrightarrow> board_reachable
    (b\<lparr>b_selected_test := test, b_auto_poll_enabled := poll, b_data := (b_data b)
        \<lparr>d_single_coil_write_value := c, d_single_register_write_value := r,
         d_multiple_coil_write_values := cs, d_multiple_register_write_values := rs\<rparr>\<rparr>)"

lemma reachable_at_rest: "board_reachable b \<Longrightarrow> at_rest b"
proof (induction rule: board_reachable.induct)
  case (interrupt b e)
  then show ?case using interrupts_at_rest [of b "[e]"] by (simp add: board_interrupts_def)
next
  case (request b)
  then show ?case by (simp add: modbus_master_request_now_def at_rest_def board_inv_def link_ok_def)
next
  case (edit b cs rs test poll c r)
  then show ?case by (auto simp: at_rest_def board_inv_def link_ok_def cycle_ok_def txn_ok_def data_ok_def)
qed (simp_all add: init_at_rest process_at_rest)

text \<open>
  C7. The test cycle never gets stuck and its books balance. In every state of the board
  reachable by passes, interrupts between passes and between the stages of a pass, requests and
  edits, for any behaviour of the HAL: a cycle is in progress exactly when a transaction is, so that the response or the
  timeout will drive it on; no end of a transmission is left unreported; the receive window is
  open only while a response is awaited; every cycle started is completed or in progress,
  passed or failed; and no request ever failed to build.
\<close>

theorem board_cycle_never_stuck:
  assumes "board_reachable b"
  shows "(b_cycle_active b \<longleftrightarrow> state_is_active (t_state (b_txn b))) \<and>
    t_state (b_txn b) \<noteq> MBRTUM_TXN_STATE_TRANSMITTING \<and> \<not> b_tx_complete_pending b \<and>
    (l_receive_window_open (b_link b) \<longrightarrow> t_state (b_txn b) = MBRTUM_TXN_STATE_WAITING_RESPONSE) \<and>
    c_started (b_counts b) = c_completed (b_counts b) + (if b_cycle_active b then 1 else 0) \<and>
    c_completed (b_counts b) = c_passed (b_counts b) + c_failed (b_counts b) \<and> c_build_errors (b_counts b) = 0"
  using reachable_at_rest [OF assms] by (auto simp: at_rest_def board_inv_def txn_ok_def cycle_ok_def)

text \<open>A board after power-on and initialisation.\<close>

definition demo_hal :: board_hal where
  "demo_hal = \<lparr>hal_transmit = \<lambda>_ _. True, hal_tx_tick = \<lambda>sent. of_nat (length sent), hal_rx_ready = False,
     hal_receive_ok = True\<rparr>"

definition power_on :: board where
  "power_on = \<lparr>b_link = listening_link\<lparr>l_initialized := False, l_receive_window_open := False\<rparr>,
     b_txn = zero_transaction, b_request = zero_request, b_request_adu = [], b_next_cycle_ms = 0,
     b_tx_complete_tick = 0, b_force_request = False, b_uart_error_pending = False, b_tx_complete_pending = False,
     b_cycle_active = False, b_auto_poll_enabled = True, b_selected_test = 3, b_current_test = 3,
     b_test_step = MODBUS_MASTER_TEST_STEP_IDLE, b_last_result = MODBUS_MASTER_RESULT_NONE,
     b_last_protocol_result = 0, b_last_response_length = 0, b_current_function = 0,
     b_watch = \<lparr>w_state = MBRTUM_TXN_STATE_IDLE, w_result = MBRTUM_TXN_RESULT_NONE, w_exception_code = 0,
       w_diagnostics = zero_diagnostics\<rparr>, b_counts = zero_counts,
     b_data = \<lparr>d_coils = replicate 10 0, d_discrete_inputs = replicate 10 0, d_holding_registers = replicate 10 0,
       d_input_registers = replicate 10 0, d_expected_coils = replicate 10 0, d_expected_registers = replicate 10 0,
       d_packed_coils = replicate 2 0, d_single_coil_write_value = 1, d_single_register_write_value = 0x1234,
       d_multiple_coil_write_values = [1, 0, 1, 0, 1, 0, 1, 0, 1, 0],
       d_multiple_register_write_values = map (\<lambda>i. 0x1000 + of_nat i) [0..<10], d_mismatch_index = 0xFFFF,
       d_verification_expected = 0, d_verification_actual = 0\<rparr>\<rparr>"

definition demo_board :: board where
  "demo_board = snd (modbus_master_init demo_hal 0 power_on)"

lemma demo_board_init: "modbus_master_init demo_hal 0 power_on = (0, demo_board)"
proof -
  have "fst (modbus_master_init demo_hal 0 power_on) = 0"
    by (simp add: modbus_master_init_def board_timing_calculated mbrtum_transaction_init_def board_txn_config_def
        duration_is_valid_def demo_hal_def Let_def del: upt_rec_numeral)
  then show ?thesis by (simp add: demo_board_def prod_eq_iff)
qed

lemma demo_board_reachable: "board_reachable demo_board"
  using demo_board_init by (rule board_reachable.initial) (simp add: power_on_def)

theorem board_cycle_never_stuck_witness:
  "b_cycle_active (modbus_master_process demo_hal 500 (\<lambda>_. [Irq_Tick]) demo_board) \<longleftrightarrow>
     state_is_active (t_state (b_txn (modbus_master_process demo_hal 500 (\<lambda>_. [Irq_Tick]) demo_board)))"
  using board_cycle_never_stuck [OF board_reachable.pass [OF demo_board_reachable]] by blast

section \<open>What the verdict means\<close>

lemma decode_loop_ok:
  assumes "decode_loop get is xs = (None, ys)" "distinct is" "\<forall>i \<in> set is. i < length xs"
  shows "(\<forall>i \<in> set is. get (of_nat i) = Inr (ys ! i)) \<and> (\<forall>j. j \<notin> set is \<longrightarrow> ys ! j = xs ! j)"
  using assms
proof (induction "is" arbitrary: xs)
  case (Cons i "is")
  then obtain v where v: "get (of_nat i) = Inr v" "decode_loop get is (xs[i := v]) = (None, ys)"
    by (auto split: sum.splits)
  with Cons.IH [OF v(2)] Cons.prems(2,3)
  have "\<forall>i \<in> set is. get (of_nat i) = Inr (ys ! i)" "\<forall>j. j \<notin> set is \<longrightarrow> ys ! j = xs[i := v] ! j" by simp_all
  with v Cons.prems(2,3) show ?case by (auto simp: nth_list_update)
qed simp

text \<open>The element of the response a read-back is compared with, and the value it is compared to.\<close>

definition read_back :: "board \<Rightarrow> nat \<Rightarrow> mbrtum_error + u16" where
  "read_back b i =
     (let r = Some (t_request (b_txn b)); p = Some (t_response (b_txn b)) in
      if b_current_test b = 0x05 \<or> b_current_test b = 0x0F
      then (case mbrtum_get_bit r p (of_nat i) of Inl e \<Rightarrow> Inl e | Inr v \<Rightarrow> Inr (ucast v))
      else mbrtum_get_register r p (of_nat i))"

definition written :: "board \<Rightarrow> nat \<Rightarrow> u16" where
  "written b i =
     (if b_current_test b = 0x05 \<or> b_current_test b = 0x0F then ucast (d_expected_coils (b_data b) ! i)
      else d_expected_registers (b_data b) ! i)"

definition checked_count :: "board \<Rightarrow> nat" where
  "checked_count b = (if b_current_test b = 0x05 \<or> b_current_test b = 0x06 then 1 else 10)"

lemma readback_function:
  assumes "board_inv b" "b_test_step b = MODBUS_MASTER_TEST_STEP_VERIFY_READBACK"
  shows "t_request (b_txn b) = finish_request 1 (if b_current_test b = 0x05 \<or> b_current_test b = 0x0F then 0x01 else 0x03) 0 10 0"
proof -
  have "b_cycle_active b" using assms by (simp add: board_inv_def cycle_ok_def)
  then have "read_call (b_test_step b) (b_current_test b) = Some c \<Longrightarrow>
      build_request 1 c 256 = Inr (t_request (b_txn b), t_request_adu (b_txn b))" for c
    using assms(1) by (simp add: board_inv_def txn_ok_def)
  then show ?thesis
    using assms(2) by (auto simp: read_call_def dest: read_bits_built(2) read_registers_built(2) split: if_splits)
qed

text \<open>After a successful decoding the arrays hold the elements of the response.\<close>

lemma decoded_readback:
  assumes inv: "board_inv b" "b_test_step b = MODBUS_MASTER_TEST_STEP_VERIFY_READBACK"
    and dec: "modbus_master_decode_read_response b = (None, b')"
  shows "\<exists>d. b' = b\<lparr>b_data := d\<rparr> \<and> d_expected_coils d = d_expected_coils (b_data b) \<and>
    d_expected_registers d = d_expected_registers (b_data b) \<and>
    (\<forall>i < 10. read_back b i = Inr (if b_current_test b = 0x05 \<or> b_current_test b = 0x0F then ucast (d_coils d ! i)
       else d_holding_registers d ! i))"
proof -
  let ?r = "t_request (b_txn b)" let ?p = "t_response (b_txn b)"
  have len: "length (d_coils (b_data b)) = 10" "length (d_holding_registers (b_data b)) = 10"
    using inv(1) by (simp_all add: board_inv_def cycle_ok_def data_ok_def)
  show ?thesis
  proof (cases "b_current_test b = 0x05 \<or> b_current_test b = 0x0F")
    case True
    then have f: "rq_function ?r = 0x01" using readback_function [OF inv] by simp
    obtain xs where xs: "decode_loop (mbrtum_get_bit (Some ?r) (Some ?p)) [0..<10] (d_coils (b_data b)) = (None, xs)"
      "b' = b\<lparr>b_data := (b_data b)\<lparr>d_coils := xs\<rparr>\<rparr>"
      using dec f by (auto simp: modbus_master_decode_read_response_def Let_def case_prod_beta prod_eq_iff
          simp del: decode_loop.simps upt_rec_numeral)
    from decode_loop_ok [OF xs(1)] len have "\<forall>i < 10. mbrtum_get_bit (Some ?r) (Some ?p) (of_nat i) = Inr (xs ! i)"
      by (auto simp del: upt_rec_numeral)
    with xs(2) True show ?thesis
      by (intro exI [of _ "(b_data b)\<lparr>d_coils := xs\<rparr>"]) (auto simp: read_back_def Let_def)
  next
    case False
    then have f: "rq_function ?r = 0x03" using readback_function [OF inv] by simp
    obtain xs where xs: "decode_loop (mbrtum_get_register (Some ?r) (Some ?p)) [0..<10] (d_holding_registers (b_data b)) = (None, xs)"
      "b' = b\<lparr>b_data := (b_data b)\<lparr>d_holding_registers := xs\<rparr>\<rparr>"
      using dec f by (auto simp: modbus_master_decode_read_response_def Let_def case_prod_beta prod_eq_iff
          simp del: decode_loop.simps upt_rec_numeral)
    from decode_loop_ok [OF xs(1)] len have "\<forall>i < 10. mbrtum_get_register (Some ?r) (Some ?p) (of_nat i) = Inr (xs ! i)"
      by (auto simp del: upt_rec_numeral)
    with xs(2) False show ?thesis
      by (intro exI [of _ "(b_data b)\<lparr>d_holding_registers := xs\<rparr>"]) (auto simp: read_back_def Let_def)
  qed
qed

lemma ucast_u8_inject: "ucast (x :: u8) = (ucast y :: u16) \<longleftrightarrow> x = y"
proof
  assume "ucast x = (ucast y :: u16)"
  then have "unat (ucast x :: u16) = unat (ucast y :: u16)" by simp
  moreover have "unat (ucast z :: u16) = unat z" for z :: u8
    using unat_u8_less [of z] by (simp add: unsigned_ucast_eq take_bit_nat_eq_self_iff)
  ultimately show "x = y" by (simp add: word_unat_eq_iff)
qed simp

lemma find_upt:
  "find P [0..<n] = None \<Longrightarrow> \<forall>i < n. \<not> P i"
  "find P [0..<n] = Some i \<Longrightarrow> i < n \<and> P i \<and> (\<forall>j < i. \<not> P j)"
  by (auto simp: find_None_iff find_Some_iff simp del: upt_rec_numeral)

definition compared :: "board \<Rightarrow> nat \<Rightarrow> u16" where
  "compared b i =
     (if b_current_test b = 0x05 \<or> b_current_test b = 0x0F then ucast (d_coils (b_data b) ! i)
      else d_holding_registers (b_data b) ! i)"

lemma verify_result:
  assumes "modbus_master_verify_readback b = (ok, b')"
  shows "ok \<Longrightarrow> \<forall>i < checked_count b. compared b i = written b i"
    "\<not> ok \<Longrightarrow> \<exists>i < checked_count b. d_mismatch_index (b_data b') = of_nat i \<and>
       d_verification_expected (b_data b') = written b i \<and> d_verification_actual (b_data b') = compared b i \<and>
       compared b i \<noteq> written b i \<and> (\<forall>j < i. compared b j = written b j)"
proof -
  let ?d = "(b_data b)\<lparr>d_mismatch_index := 0xFFFF, d_verification_expected := 0, d_verification_actual := 0\<rparr>"
  let ?cmp = "if b_current_test b = 0x05 \<or> b_current_test b = 0x0F then compare_coils (checked_count b) ?d
     else compare_registers (checked_count b) ?d"
  have run: "ok = fst ?cmp" "b' = b\<lparr>b_data := snd ?cmp\<rparr>"
    using assms by (auto simp: modbus_master_verify_readback_def Let_def checked_count_def case_prod_beta split: if_splits)
  note defs = compare_coils_def compare_registers_def compared_def written_def
  show "\<forall>i < checked_count b. compared b i = written b i" if ok
    using that run(1) by (auto simp: defs dest!: find_upt(1) split: if_splits option.splits)
  show "\<exists>i < checked_count b. d_mismatch_index (b_data b') = of_nat i \<and>
       d_verification_expected (b_data b') = written b i \<and> d_verification_actual (b_data b') = compared b i \<and>
       compared b i \<noteq> written b i \<and> (\<forall>j < i. compared b j = written b j)" if "\<not> ok"
    using that unfolding run by (auto simp: defs ucast_u8_inject dest!: find_upt(2) split: if_splits option.splits)
qed

text \<open>A verdict of a read-back comes from decoding the response and comparing it.\<close>

lemma verdict_cases:
  assumes "board_inv b" "b_test_step b = MODBUS_MASTER_TEST_STEP_VERIFY_READBACK"
    "b_last_result (modbus_master_handle_terminal_transaction hal now b) = res"
    "res = MODBUS_MASTER_RESULT_PASS \<or> res = MODBUS_MASTER_RESULT_VERIFY_ERROR"
  obtains b1 b2 where "modbus_master_decode_read_response b = (None, b1)"
    "modbus_master_verify_readback b1 = (res = MODBUS_MASTER_RESULT_PASS, b2)"
    "b_data (modbus_master_handle_terminal_transaction hal now b) = b_data b2"
    "t_result (b_txn b) = MBRTUM_TXN_RESULT_SUCCESS"
proof -
  have act: "b_cycle_active b" "b_last_result b = MODBUS_MASTER_RESULT_NONE"
    using assms(1,2) by (auto simp: board_inv_def cycle_ok_def)
  have map: "modbus_master_map_terminal_result x \<noteq> MODBUS_MASTER_RESULT_PASS"
    "modbus_master_map_terminal_result x \<noteq> MODBUS_MASTER_RESULT_VERIFY_ERROR" for x by (cases x; simp)+
  have fin: "modbus_master_handle_terminal_transaction hal now b = finish_read now b"
    and ok: "t_result (b_txn b) = MBRTUM_TXN_RESULT_SUCCESS"
    using assms(2-4) act map by (auto simp: modbus_master_handle_terminal_transaction_def Let_def split: if_splits)
  obtain e b1 where dec: "modbus_master_decode_read_response b = (e, b1)" by (cases "modbus_master_decode_read_response b")
  obtain v b2 where ver: "modbus_master_verify_readback b1 = (v, b2)" by (cases "modbus_master_verify_readback b1")
  have step: "b_test_step b1 = MODBUS_MASTER_TEST_STEP_VERIFY_READBACK"
    using decode_inv(4) [OF dec assms(1)] assms(2) by simp
  have "e = None" using assms(3,4) unfolding fin by (auto simp: finish_read_def dec split: option.splits)
  moreover from this have "v = (res = MODBUS_MASTER_RESULT_PASS)"
    "b_data (modbus_master_handle_terminal_transaction hal now b) = b_data b2"
    using assms(3,4) step unfolding fin by (auto simp: finish_read_def dec ver split: if_splits)
  ultimately show thesis using that dec ver ok by blast
qed

end
