(* ===== verification/Board_System.thy ===== *)
theory Board_System
  imports Board_Cycle
begin

text \<open>
  The board master and a slave of this library on one line: the board runs a test cycle, the
  slave answers its frames, and the bytes of the answers reach the board one interrupt at a time.
\<close>

fun line_irq :: "rtu_event \<Rightarrow> board_irq" where
  "line_irq (Rx byte) = Irq_Rx True byte True"
| "line_irq Tick = Irq_Tick"

lemma line_irqs_run:
  "board_interrupts (map line_irq evs) b = b\<lparr>b_link := board_isrs evs (b_link b)\<rparr>"
proof (induction evs arbitrary: b)
  case (Cons e evs)
  have "board_interrupt (line_irq e) b = b\<lparr>b_link := board_isr e (b_link b)\<rparr>"
    by (cases e) (simp_all add: HAL_UART_RxCpltCallback_def systick_50us_tick_isr_def Let_def)
  then show ?case using Cons by (simp add: board_interrupts_def)
qed (simp add: board_interrupts_def)

text \<open>A pass of the main loop that is not interrupted.\<close>

abbreviation (input) quiet :: "nat \<Rightarrow> board_irq list" where
  "quiet \<equiv> \<lambda>_. []"

lemma no_interrupts [simp]: "board_interrupts [] b = b"
  by (simp add: board_interrupts_def)

definition pass_prefix :: "board_hal \<Rightarrow> u32 \<Rightarrow> board \<Rightarrow> board" where
  "pass_prefix hal now b =
     (let b = modbus_master_handle_tx_complete (modbus_master_ensure_receive_armed hal b);
          b = modbus_master_process_uart_error now (modbus_master_process_response_frame now b);
          b = snd (with_transport hal (\<lambda>transmit. mbrtum_transaction_poll transmit now) b) in
      modbus_master_sync_watch_state (modbus_master_handle_tx_complete b))"

definition pass_suffix :: "board_hal \<Rightarrow> u32 \<Rightarrow> board \<Rightarrow> board" where
  "pass_suffix hal now b =
     (if b_cycle_active b then b
      else if b_force_request b then modbus_master_start_cycle hal now (b\<lparr>b_force_request := False\<rparr>)
      else if b_auto_poll_enabled b \<and> modbus_master_time_reached now (b_next_cycle_ms b)
      then modbus_master_start_cycle hal now b else b)"

lemma quiet_pass:
  assumes "at_rest b"
  shows "modbus_master_process hal now quiet b =
    pass_suffix hal now (modbus_master_sync_watch_state
      (modbus_master_handle_terminal_transaction hal now (pass_prefix hal now b)))"
  using assms by (simp add: modbus_master_process_def pass_prefix_def pass_suffix_def Let_def at_rest_def board_inv_def link_ok_def)

text \<open>What the stages before the verdict leave alone.\<close>

definition same_books :: "board \<Rightarrow> board \<Rightarrow> bool" where
  "same_books b b' \<longleftrightarrow> b_selected_test b' = b_selected_test b \<and> b_force_request b' = b_force_request b \<and>
     b_auto_poll_enabled b' = b_auto_poll_enabled b \<and> b_data b' = b_data b \<and> b_cycle_active b' = b_cycle_active b \<and>
     b_test_step b' = b_test_step b \<and> b_current_test b' = b_current_test b \<and>
     c_passed (b_counts b') = c_passed (b_counts b)"

lemma same_books_stages:
  "same_books b (modbus_master_ensure_receive_armed hal b)" "same_books b (modbus_master_handle_tx_complete b)"
  "same_books b (modbus_master_process_response_frame now b)" "same_books b (modbus_master_process_uart_error now b)"
  "same_books b (modbus_master_sync_watch_state b)"
  by (simp_all add: same_books_def modbus_master_ensure_receive_armed_def modbus_master_handle_tx_complete_def
      modbus_master_process_response_frame_def modbus_master_process_uart_error_def modbus_master_sync_watch_state_def
      close_window_def Let_def split: prod.split)

lemma same_books_trans: "same_books a b \<Longrightarrow> same_books b c \<Longrightarrow> same_books a c"
  by (simp add: same_books_def)

text \<open>Polling a transaction that is over does nothing.\<close>

lemma poll_over:
  assumes "txn_wf (b_txn b)" "\<not> state_is_active (t_state (b_txn b))"
  shows "snd (with_transport hal (\<lambda>transmit. mbrtum_transaction_poll transmit now) b) = b"
proof (rule poll_cases [OF assms(1), of hal now])
  fix t assume "snd (with_transport hal (\<lambda>transmit. mbrtum_transaction_poll transmit now) b) = b\<lparr>b_txn := t\<rparr>"
    "t = b_txn b \<or> (t_state (b_txn b) = MBRTUM_TXN_STATE_WAITING_RESPONSE \<and> t = handle_response_timeout now (b_txn b))"
  then show ?thesis using assms(2) by (auto simp: state_is_active_def)
qed (use assms(2) in \<open>simp add: state_is_active_def\<close>)

text \<open>The stages up to the verdict, given that the transaction is over after the response stage.\<close>

lemma prefix_over:
  assumes "board_inv b" "\<not> b_tx_complete_pending b" "\<not> hal_rx_ready hal"
    and over: "\<not> state_is_active (t_state (b_txn (modbus_master_process_response_frame now b)))"
  shows "board_inv (pass_prefix hal now b)" "same_books b (pass_prefix hal now b)"
    "b_txn (pass_prefix hal now b) = b_txn (modbus_master_process_response_frame now b)"
    "\<not> b_tx_complete_pending (pass_prefix hal now b)" "\<not> b_uart_error_pending (pass_prefix hal now b)"
    "\<not> l_receive_window_open (b_link (pass_prefix hal now b))"
proof -
  let ?b2 = "modbus_master_process_response_frame now b"
  let ?b3 = "modbus_master_process_uart_error now ?b2"
  have inv2: "board_inv ?b2" using assms(1) by (rule response_frame_inv)
  then have inv3: "board_inv ?b3" by (rule uart_error_inv)
  have t3: "b_txn ?b3 = b_txn ?b2"
    using over by (simp add: modbus_master_process_uart_error_def Let_def state_is_active_def)
  have p2: "\<not> b_tx_complete_pending ?b3"
    using inv3 over t3 by (auto simp: board_inv_def txn_ok_def state_is_active_def)
  have "modbus_master_handle_tx_complete b = b" "modbus_master_handle_tx_complete ?b3 = ?b3"
    using assms(1,2) inv3 p2 by (simp_all add: handle_tx_complete_run board_inv_def)
  moreover have "modbus_master_ensure_receive_armed hal b = b"
    using assms(3) by (simp add: modbus_master_ensure_receive_armed_def)
  moreover have "snd (with_transport hal (\<lambda>transmit. mbrtum_transaction_poll transmit now) ?b3) = ?b3"
    using inv3 over t3 by (intro poll_over) (simp_all add: board_inv_def txn_ok_def)
  ultimately have run: "pass_prefix hal now b = modbus_master_sync_watch_state ?b3"
    by (simp add: pass_prefix_def)
  show "board_inv (pass_prefix hal now b)" using inv3 by (simp add: run sync_inv)
  show "same_books b (pass_prefix hal now b)"
    unfolding run by (rule same_books_trans [OF same_books_trans [OF same_books_stages(3) same_books_stages(4)]
      same_books_stages(5)])
  show "b_txn (pass_prefix hal now b) = b_txn ?b2" "\<not> b_tx_complete_pending (pass_prefix hal now b)"
    using t3 p2 by (simp_all add: run)
  show "\<not> b_uart_error_pending (pass_prefix hal now b)"
    by (simp add: run modbus_master_sync_watch_state_def modbus_master_process_uart_error_def Let_def close_window_def)
  show "\<not> l_receive_window_open (b_link (pass_prefix hal now b))"
    using over t3 sync_window [of ?b3] p2 by (auto simp: run state_is_active_def)
qed

section \<open>Asking and being answered\<close>

text \<open>The board has sent a request, listens for the answer, and the line is still.\<close>

definition asking :: "mbrtum_request \<Rightarrow> bytes \<Rightarrow> board \<Rightarrow> bool" where
  "asking r adu b \<longleftrightarrow> at_rest b \<and> b_cycle_active b \<and> t_state (b_txn b) = MBRTUM_TXN_STATE_WAITING_RESPONSE \<and>
     t_request (b_txn b) = r \<and> t_request_adu (b_txn b) = adu \<and> last (t_sent (b_txn b)) = adu \<and>
     t_deadline (b_txn b) = b_tx_complete_tick b + 1000 \<and> l_receive_window_open (b_link b) \<and>
     \<not> m_frame_active (b_link b) \<and> \<not> m_pending_ready (b_link b) \<and> \<not> b_uart_error_pending b"

lemma sync_waiting:
  assumes "t_state (b_txn b) = MBRTUM_TXN_STATE_WAITING_RESPONSE"
  shows "b_link (modbus_master_sync_watch_state b) = b_link b"
    "b_tx_complete_tick (modbus_master_sync_watch_state b) = b_tx_complete_tick b"
    "b_uart_error_pending (modbus_master_sync_watch_state b) = b_uart_error_pending b"
  using assms by (simp_all add: modbus_master_sync_watch_state_def Let_def)

lemma start_step_asks:
  assumes "step_due b" "step_built b c r adu d" "\<And>sent adu. hal_transmit hal sent adu" "\<not> b_uart_error_pending b"
  shows "asking r adu (snd (modbus_master_start_current_step hal now b))"
    "same_books (b\<lparr>b_data := d\<rparr>) (snd (modbus_master_start_current_step hal now b))"
proof -
  define a where "a = after_transmit hal now (started_txn r adu (b_txn b))
    (b\<lparr>b_request := r, b_request_adu := adu, b_data := d\<rparr>)"
  define c where "c = modbus_master_handle_tx_complete a"
  note run = start_step_run(1) [OF assms(1,2), of hal now, folded a_def c_def]
  have adu: "adu \<noteq> []" "length adu \<le> 65535"
    using start_step_run(2,3) [OF assms(1,2)] by (simp_all add: ready_to_send_def)
  then have tr: "board_transport hal (t_sent (b_txn b)) adu" using assms(3) by (simp add: board_transport_def)
  have ok: "txn_ok a" using transmitted_inv [OF assms(1,2)] by (simp add: board_inv_def a_def)
  have p: "b_tx_complete_pending a" "l_receive_window_open (b_link a)" "\<not> m_frame_active (b_link a)"
    "\<not> m_pending_ready (b_link a)" "\<not> b_uart_error_pending a"
    using after_transmit_pending [of "started_txn r adu (b_txn b)" hal now] adu tr assms(4) by (simp_all add: a_def)
  have t: "t_request (b_txn a) = r" "t_request_adu (b_txn a) = adu" "t_sent (b_txn a) = t_sent (b_txn b) @ [adu]"
    by (simp_all add: a_def begin_transmit_sent)
  have c: "c = a\<lparr>b_tx_complete_pending := False, b_txn := (b_txn a)\<lparr>t_deadline := b_tx_complete_tick a + 1000,
      t_state := MBRTUM_TXN_STATE_WAITING_RESPONSE\<rparr>\<rparr>"
    using handle_tx_complete_run [OF ok] p(1) by (simp add: c_def)
  then have w: "t_state (b_txn c) = MBRTUM_TXN_STATE_WAITING_RESPONSE" by simp
  show "asking r adu (snd (modbus_master_start_current_step hal now b))"
    using start_step_at_rest(1,2) [OF assms(1), of hal now] p t
    by (simp add: asking_def run sync_waiting [OF w]) (simp add: c)
  have "same_books (b\<lparr>b_data := d\<rparr>) a"
    by (simp add: same_books_def a_def) (simp add: after_transmit_def modbus_master_transport_transmit_def Let_def close_window_def)
  moreover have "same_books a (modbus_master_sync_watch_state c)"
    unfolding c_def by (rule same_books_trans [OF same_books_stages(2) same_books_stages(5)])
  ultimately show "same_books (b\<lparr>b_data := d\<rparr>) (snd (modbus_master_start_current_step hal now b))"
    unfolding run by (simp add: same_books_trans)
qed

lemma answer_accepted:
  assumes ask: "asking r adu b" and ok: "mbrtum_process_response_with_request_adu (Some r) (Some adu) (Some rsp) = MBRTUM_OK p"
    and fr: "map fst fr = rsp" "board_well_timed board_timing fr" and e: "e < 1000" and hal: "\<not> hal_rx_ready hal"
  defines "b7 \<equiv> pass_prefix hal (b_tx_complete_tick b + of_nat e) (board_interrupts (map line_irq (line_events fr)) b)"
  shows "board_inv b7" "same_books b b7" "\<not> b_tx_complete_pending b7" "\<not> b_uart_error_pending b7"
    "t_state (b_txn b7) = MBRTUM_TXN_STATE_COMPLETE" "t_result (b_txn b7) = MBRTUM_TXN_RESULT_SUCCESS"
    "t_response (b_txn b7) = p" "t_request (b_txn b7) = r" "\<not> l_receive_window_open (b_link b7)"
proof -
  define now where "now = b_tx_complete_tick b + of_nat e"
  define l where "l = board_isrs (line_events fr) (b_link b)"
  define b2 where "b2 = b\<lparr>b_link := l\<rparr>"
  have inv: "board_inv b" using ask by (simp add: asking_def at_rest_def)
  have len: "length fr \<le> 256" "rsp \<noteq> []" "length rsp \<le> 256"
    using accepted_response_length [of r "Some adu" rsp p] ok fr(1) by auto
  have l: "link_wf l \<and> m_pending_ready l \<and> board_frame l = rsp \<and> \<not> m_pending_invalid_gap l \<and> \<not> m_pending_overflow l"
    unfolding l_def fr(1) [symmetric] using ask inv fr(2) len(1)
    by (intro board_receives_frame) (simp_all add: asking_def board_inv_def link_ok_def)
  have inv2: "board_inv b2" using inv l by (simp add: b2_def board_inv_def link_ok_def) (simp add: l_def)
  have "\<not> deadline_reached now (b_tx_complete_tick b + 1000)"
    unfolding now_def using deadline_reached_iff [of 1000 e "b_tx_complete_tick b"] e
    by (simp add: duration_is_valid_def)
  moreover have "transaction_is_initialized (b_txn b)" using inv by (simp add: board_inv_def txn_ok_def txn_wf_def)
  ultimately have t: "t_state (b_txn (modbus_master_process_response_frame now b2)) = MBRTUM_TXN_STATE_COMPLETE"
    "t_result (b_txn (modbus_master_process_response_frame now b2)) = MBRTUM_TXN_RESULT_SUCCESS"
    "t_response (b_txn (modbus_master_process_response_frame now b2)) = p"
    "t_request (b_txn (modbus_master_process_response_frame now b2)) = r"
    using ask ok l len by (simp_all add: b2_def modbus_master_process_response_frame_def Let_def asking_def
        board_frame_def mbrtum_transaction_on_response_def txn_op_defs)
  have eq: "b7 = pass_prefix hal now b2" by (simp add: b7_def now_def b2_def l_def line_irqs_run)
  have pend: "\<not> b_tx_complete_pending b2" using ask by (simp add: b2_def asking_def at_rest_def)
  note pre = prefix_over [OF inv2 pend hal, of now, folded eq]
  have "same_books b b2" by (simp add: same_books_def b2_def)
  with pre t show "board_inv b7" "same_books b b7" "\<not> b_tx_complete_pending b7" "\<not> b_uart_error_pending b7"
    "t_state (b_txn b7) = MBRTUM_TXN_STATE_COMPLETE" "t_result (b_txn b7) = MBRTUM_TXN_RESULT_SUCCESS"
    "t_response (b_txn b7) = p" "t_request (b_txn b7) = r" "\<not> l_receive_window_open (b_link b7)"
    by (auto simp: state_is_active_def intro: same_books_trans)
qed

lemma sync_error: "b_uart_error_pending (modbus_master_sync_watch_state b) = b_uart_error_pending b"
  by (simp add: modbus_master_sync_watch_state_def Let_def close_window_def)

lemma sync_at_rest: "at_rest b \<Longrightarrow> at_rest (modbus_master_sync_watch_state b)"
  using sync_window [of b] by (auto simp: at_rest_def sync_inv)

lemma asking_sync: "asking r adu b \<Longrightarrow> asking r adu (modbus_master_sync_watch_state b)"
  by (simp add: asking_def sync_at_rest sync_waiting)

text \<open>A requested test starts with the next pass.\<close>

lemma requested_test_asks:
  assumes "at_rest b" "\<not> b_cycle_active b" "b_force_request b" "b_selected_test b = 0x10"
    and hal: "\<not> hal_rx_ready hal" "\<And>sent adu. hal_transmit hal sent adu"
  defines "vs \<equiv> d_multiple_register_write_values (b_data b)"
  obtains r adu where "build_request 1 (Write_Multiple_Registers 0 10 vs) 256 = Inr (r, adu)" "length vs = 10"
    "asking r adu (modbus_master_process hal now quiet b)"
    "b_test_step (modbus_master_process hal now quiet b) = MODBUS_MASTER_TEST_STEP_REQUEST"
    "b_current_test (modbus_master_process hal now quiet b) = 0x10"
    "d_expected_registers (b_data (modbus_master_process hal now quiet b)) = vs"
    "\<not> b_force_request (modbus_master_process hal now quiet b)"
    "c_passed (b_counts (modbus_master_process hal now quiet b)) = c_passed (b_counts b)"
proof -
  let ?p = "pass_prefix hal now b"
  have b: "board_inv b" "\<not> b_tx_complete_pending b" "\<not> state_is_active (t_state (b_txn b))"
    using assms(1,2) by (simp_all add: at_rest_def)
  then have "b_txn (modbus_master_process_response_frame now b) = b_txn b"
    by (simp add: modbus_master_process_response_frame_def Let_def state_is_active_def)
  with b(3) have "\<not> state_is_active (t_state (b_txn (modbus_master_process_response_frame now b)))" by simp
  note pre = prefix_over [OF b(1,2) hal(1) this]
  have rest: "at_rest ?p"
    using pre(1,3,4,6) b(3) assms(2) pre(2) \<open>b_txn (modbus_master_process_response_frame now b) = b_txn b\<close>
    by (simp add: at_rest_def same_books_def)
  define b9 where "b9 = (modbus_master_sync_watch_state ?p)\<lparr>b_force_request := False\<rparr>"
  have books: "same_books b (modbus_master_sync_watch_state ?p)"
    by (rule same_books_trans [OF pre(2) same_books_stages(5)])
  have r9: "at_rest b9" "\<not> b_cycle_active b9" "b_selected_test b9 = 0x10" "\<not> b_uart_error_pending b9" "b_data b9 = b_data b"
    "c_passed (b_counts b9) = c_passed (b_counts b)" "\<not> b_force_request b9"
    using sync_at_rest [OF rest] books assms(2,4) pre(5)
    by (auto simp: b9_def same_books_def at_rest_def board_inv_def link_ok_def sync_error)
  have verdict: "modbus_master_handle_terminal_transaction hal now ?p = ?p"
    using pre(2) assms(2) by (simp add: modbus_master_handle_terminal_transaction_def same_books_def Let_def)
  have run: "modbus_master_process hal now quiet b = snd (modbus_master_start_current_step hal now (cycle_begun b9))"
    unfolding quiet_pass [OF assms(1)] verdict using books assms(2,3)
    start_cycle_begins(1) [OF r9(1,2), of hal now] r9(3)
    by (simp add: pass_suffix_def same_books_def b9_def modbus_master_test_is_valid_def)
  have due: "step_due (cycle_begun b9)"
    using start_cycle_begins(2) [OF r9(1,2)] r9(3) by (simp add: modbus_master_test_is_valid_def)
  have data: "data_ok (b_data (cycle_begun b9))" using due by (simp add: step_due_def cycle_ok_def)
  have begun: "b_test_step (cycle_begun b9) = MODBUS_MASTER_TEST_STEP_REQUEST" "b_current_test (cycle_begun b9) = 0x10"
    "d_multiple_register_write_values (b_data (cycle_begun b9)) = vs" "\<not> b_uart_error_pending (cycle_begun b9)"
    "c_passed (b_counts (cycle_begun b9)) = c_passed (b_counts b)" "\<not> b_force_request (cycle_begun b9)"
    using r9 by (simp_all add: cycle_begun_def vs_def)
  obtain r adu where built: "step_built (cycle_begun b9) (Write_Multiple_Registers 0 10 vs) r adu
      ((b_data (cycle_begun b9))\<lparr>d_expected_registers := vs\<rparr>)"
    using register_step_built [OF begun(1,2) data] unfolding begun(3) by blast
  note asks = start_step_asks [OF due built hal(2) begun(4), of now, folded run]
  show thesis
    using that [of r adu] asks built begun data by (simp add: step_built_def same_books_def data_ok_def)
qed

text \<open>The acknowledgement of the write starts the read-back.\<close>

lemma acknowledged_write_reads_back:
  assumes ask: "asking r adu b" "b_test_step b = MODBUS_MASTER_TEST_STEP_REQUEST" "b_current_test b = 0x10"
    and ok: "mbrtum_process_response_with_request_adu (Some r) (Some adu) (Some rsp) = MBRTUM_OK p"
    and fr: "map fst fr = rsp" "board_well_timed board_timing fr" "e < 1000"
    and hal: "\<not> hal_rx_ready hal" "\<And>sent adu. hal_transmit hal sent adu"
  defines "b' \<equiv> modbus_master_process hal (b_tx_complete_tick b + of_nat e) quiet
      (board_interrupts (map line_irq (line_events fr)) b)"
  obtains r' adu' where "build_request 1 (Read_Registers 0x03 0 10) 256 = Inr (r', adu')" "asking r' adu' b'"
    "b_test_step b' = MODBUS_MASTER_TEST_STEP_VERIFY_READBACK" "b_current_test b' = 0x10" "b_data b' = b_data b"
    "b_force_request b' = b_force_request b" "c_passed (b_counts b') = c_passed (b_counts b)"
proof -
  let ?b2 = "board_interrupts (map line_irq (line_events fr)) b"
  define now where "now = b_tx_complete_tick b + of_nat e"
  define b7 where "b7 = pass_prefix hal now ?b2"
  note b7 = answer_accepted [OF ask(1) ok fr hal(1), folded now_def, folded b7_def]
  have st: "b_test_step b7 = MODBUS_MASTER_TEST_STEP_REQUEST" "b_current_test b7 = 0x10" "b_cycle_active b7"
    using b7(2) ask by (simp_all add: same_books_def asking_def)
  let ?v = "b7\<lparr>b_test_step := MODBUS_MASTER_TEST_STEP_VERIFY_READBACK\<rparr>"
  have due: "step_due ?v" using readback_due [OF b7(1) st(1)] b7(5) by (simp add: state_is_active_def)
  then have data: "data_ok (b_data ?v)" by (simp add: step_due_def cycle_ok_def)
  have call: "read_call (b_test_step ?v) (b_current_test ?v) = Some (Read_Registers 0x03 0 10)"
    using st(2) by (simp add: read_call_def)
  from read_step_built [OF call data] obtain r' adu' where
    built: "step_built ?v (Read_Registers 0x03 0 10) r' adu' (b_data ?v)" by blast
  have err: "\<not> b_uart_error_pending ?v" using b7(4) by simp
  let ?b8 = "snd (modbus_master_start_current_step hal now ?v)"
  note asks = start_step_asks [OF due built hal(2) err, of now]
  have verdict: "modbus_master_handle_terminal_transaction hal now b7 = ?b8"
    using st b7(5,6) by (simp add: modbus_master_handle_terminal_transaction_def modbus_master_test_is_write_def)
  have rest: "at_rest ?b2" using interrupts_at_rest ask(1) by (simp add: asking_def)
  have "b_cycle_active (modbus_master_sync_watch_state ?b8)" using asks(1) by (simp add: asking_def)
  then have b': "b' = modbus_master_sync_watch_state ?b8"
    unfolding b'_def quiet_pass [OF rest] now_def [symmetric] b7_def [symmetric] verdict by (simp add: pass_suffix_def)
  have "same_books ?v b'" using same_books_trans [OF asks(2) same_books_stages(5)] by (simp add: b')
  then show thesis
    using that [of r' adu'] asking_sync [OF asks(1)] built b7(2) ask(3) by (simp add: b' step_built_def same_books_def)
qed

text \<open>A read-back that returns what was written passes the test.\<close>

lemma decode_loop_all:
  assumes "\<forall>i \<in> set is. get (of_nat i) = Inr (vs ! i)"
  shows "decode_loop get is xs = (None, fold (\<lambda>i xs. xs[i := vs ! i]) is xs)"
  using assms by (induction "is" arbitrary: xs) simp_all

lemma next_cycle_later: "\<not> modbus_master_time_reached now (now + 1000)"
  by (simp add: modbus_master_time_reached_def sint_nonneg_u32 not_le [symmetric])

lemma finish_read_passes:
  assumes b: "board_inv b" "b_test_step b = MODBUS_MASTER_TEST_STEP_VERIFY_READBACK" "b_current_test b = 0x10"
    and vs: "length vs = 10" "d_expected_registers (b_data b) = vs"
    and p: "t_response (b_txn b) = \<lparr>rs_function = rq_function (t_request (b_txn b)), rs_exception_code = 0,
      rs_data = Some (concat (map write_be16 vs))\<rparr>"
  shows "b_last_result (finish_read now b) = MODBUS_MASTER_RESULT_PASS" "d_holding_registers (b_data (finish_read now b)) = vs"
    "c_passed (b_counts (finish_read now b)) = c_passed (b_counts b) + 1" "b_force_request (finish_read now b) = b_force_request b"
    "b_next_cycle_ms (finish_read now b) = now + 1000" "\<not> b_cycle_active (finish_read now b)"
proof -
  let ?r = "t_request (b_txn b)" let ?d = "(b_data b)\<lparr>d_holding_registers := vs\<rparr>"
  have r: "?r = finish_request 1 0x03 0 10 0" using readback_function [OF b(1,2)] b(3) by simp
  have get: "\<forall>i \<in> set [0..<10]. mbrtum_get_register (Some ?r) (Some (t_response (b_txn b))) (of_nat i) = Inr (vs ! i)"
    using vs(1) r read_register_at [of _ vs ?r] unfolding p by (auto simp del: upt_rec_numeral)
  have "length (d_holding_registers (b_data b)) = 10" using b(1) by (simp add: board_inv_def cycle_ok_def data_ok_def)
  then have dec: "modbus_master_decode_read_response b = (None, b\<lparr>b_data := ?d\<rparr>)"
    using decode_loop_all [OF get, of "d_holding_registers (b_data b)"] copy_loop [OF vs(1)] r
    by (simp add: modbus_master_decode_read_response_def Let_def del: decode_loop.simps upt_rec_numeral)
  have "find (\<lambda>i. vs ! i \<noteq> vs ! i) [0..<10] = None" by (simp add: find_None_iff del: upt_rec_numeral)
  then have ver: "modbus_master_verify_readback (b\<lparr>b_data := ?d\<rparr>) = (True, b\<lparr>b_data := ?d
      \<lparr>d_mismatch_index := 0xFFFF, d_verification_expected := 0, d_verification_actual := 0\<rparr>\<rparr>)"
    using b(3) vs(2) by (simp add: modbus_master_verify_readback_def Let_def compare_registers_def del: upt_rec_numeral)
  show "b_last_result (finish_read now b) = MODBUS_MASTER_RESULT_PASS" "d_holding_registers (b_data (finish_read now b)) = vs"
    "c_passed (b_counts (finish_read now b)) = c_passed (b_counts b) + 1" "b_force_request (finish_read now b) = b_force_request b"
    "b_next_cycle_ms (finish_read now b) = now + 1000" "\<not> b_cycle_active (finish_read now b)"
    using b(2) by (simp_all add: finish_read_def dec ver)
      (simp add: modbus_master_finish_cycle_def Let_def close_window_def)
qed

lemma matching_readback_passes:
  assumes ask: "asking r adu b" "b_test_step b = MODBUS_MASTER_TEST_STEP_VERIFY_READBACK" "b_current_test b = 0x10"
    "\<not> b_force_request b" "length vs = 10" "d_expected_registers (b_data b) = vs"
    and ok: "mbrtum_process_response_with_request_adu (Some r) (Some adu) (Some rsp) =
      ok_response r (Some (concat (map write_be16 vs)))"
    and fr: "map fst fr = rsp" "board_well_timed board_timing fr" "e < 1000"
    and hal: "\<not> hal_rx_ready hal"
  defines "b' \<equiv> modbus_master_process hal (b_tx_complete_tick b + of_nat e) quiet
      (board_interrupts (map line_irq (line_events fr)) b)"
  shows "b_last_result b' = MODBUS_MASTER_RESULT_PASS \<and> \<not> b_cycle_active b' \<and>
    c_passed (b_counts b') = c_passed (b_counts b) + 1 \<and> d_holding_registers (b_data b') = vs"
proof -
  let ?b2 = "board_interrupts (map line_irq (line_events fr)) b"
  define now where "now = b_tx_complete_tick b + of_nat e"
  define b7 where "b7 = pass_prefix hal now ?b2"
  note b7 = answer_accepted [OF ask(1) ok [unfolded ok_response_def] fr hal, folded now_def, folded b7_def]
  have st: "b_test_step b7 = MODBUS_MASTER_TEST_STEP_VERIFY_READBACK" "b_current_test b7 = 0x10" "b_cycle_active b7"
    "d_expected_registers (b_data b7) = vs" "\<not> b_force_request b7" "c_passed (b_counts b7) = c_passed (b_counts b)"
    using b7(2) ask by (simp_all add: same_books_def asking_def)
  have "t_response (b_txn b7) = \<lparr>rs_function = rq_function (t_request (b_txn b7)), rs_exception_code = 0,
      rs_data = Some (concat (map write_be16 vs))\<rparr>" using b7(7,8) by simp
  note fin = finish_read_passes [OF b7(1) st(1,2) ask(5) st(4) this, of now]
  have verdict: "modbus_master_handle_terminal_transaction hal now b7 = finish_read now b7"
    using st b7(5,6) by (simp add: modbus_master_handle_terminal_transaction_def)
  have rest: "at_rest ?b2" using interrupts_at_rest ask(1) by (simp add: asking_def)
  let ?b9 = "modbus_master_sync_watch_state (finish_read now b7)"
  have s9: "b_force_request ?b9 = b_force_request (finish_read now b7)"
    "b_next_cycle_ms ?b9 = b_next_cycle_ms (finish_read now b7)"
    by (simp_all add: modbus_master_sync_watch_state_def Let_def close_window_def)
  have "b' = ?b9"
    unfolding b'_def quiet_pass [OF rest] now_def [symmetric] b7_def [symmetric] verdict
    using fin st(5) s9 next_cycle_later [of now] by (simp add: pass_suffix_def)
  then show ?thesis using fin st(6) by simp
qed

section \<open>The register test against the slave\<close>

text \<open>
  The slave's turn: it processes the frame the board sent last, and the bytes of its answer
  reach the board with the gaps \<open>line\<close> puts between them.
\<close>

definition slave_turn ::
  "mei_call \<Rightarrow> diag_policy \<Rightarrow> nat \<Rightarrow> (bytes \<Rightarrow> line_frame) \<Rightarrow> board \<times> rtu_state \<Rightarrow> board \<times> rtu_state" where
  "slave_turn call pol rcap line st =
     (let (b, s) = st in
      case mbrtu_process_adu_with_diagnostics call pol 1 (Some (last (t_sent (b_txn b)))) (Some rcap) s of
        (MBRTU_RESPONSE_READY rsp, s') \<Rightarrow> (board_interrupts (map line_irq (line_events (line rsp))) b, s')
      | (_, s') \<Rightarrow> (b, s'))"

lemma accepted_nonempty:
  "mbrtum_process_response_with_request_adu (Some r) q (Some adu) = ok_response r d \<Longrightarrow> adu \<noteq> []"
  using accepted_response_length [of r q adu] by (auto simp: ok_response_def)

lemma slave_turn_answers:
  assumes "exchange call pol 1 r adu rcap s = (Some x, s')" "asking r adu b"
  obtains rsp where "slave_turn call pol rcap line (b, s) = (board_interrupts (map line_irq (line_events (line rsp))) b, s')"
    "mbrtum_process_response_with_request_adu (Some r) (Some adu) (Some rsp) = x"
  using assms by (auto elim!: exchange_answered simp: slave_turn_def asking_def)

text \<open>The board's turn: a pass of the main loop a given time after the end of the transmission.\<close>

definition board_turn :: "board_hal \<Rightarrow> nat \<Rightarrow> board \<times> rtu_state \<Rightarrow> board \<times> rtu_state" where
  "board_turn hal e st = (modbus_master_process hal (b_tx_complete_tick (fst st) + of_nat e) quiet (fst st), snd st)"

lemma read_exchange_first:
  assumes "build_request 1 (Read_Registers 0x03 0 10) 256 = Inr (r, adu)"
    "10 \<le> length (holding_registers (banks (rtu_mb s)))" "rtu_wf s" "256 \<le> rcap"
    "\<not> mbrtu_diagnostics_is_listen_only (rtu_diag s)"
  shows "\<exists>s'. exchange call pol 1 r adu rcap s =
      (Some (ok_response r (Some (concat (map write_be16 (take 10 (holding_registers (banks (rtu_mb s)))))))), s') \<and>
    rtu_mb s' = rtu_mb s"
  using read_block_exchange [of 1 0 10 256 r adu s rcap call pol] assms by simp

lemma write_exchange_first:
  assumes "build_request 1 (Write_Multiple_Registers 0 10 vs) 256 = Inr (r, adu)" "length vs = 10"
    "10 \<le> length (holding_registers (banks (rtu_mb s)))" "rtu_wf s" "256 \<le> rcap"
    "\<not> mbrtu_diagnostics_is_listen_only (rtu_diag s)"
  shows "\<exists>d s'. exchange call pol 1 r adu rcap s = (Some (ok_response r d), s') \<and> rtu_wf s' \<and>
    \<not> mbrtu_diagnostics_is_listen_only (rtu_diag s') \<and>
    length (holding_registers (banks (rtu_mb s'))) = length (holding_registers (banks (rtu_mb s))) \<and>
    take 10 (holding_registers (banks (rtu_mb s'))) = vs"
proof -
  have "\<exists>d s'. exchange call pol 1 r adu rcap s = (Some (ok_response r d), s') \<and> rtu_wf s' \<and>
    \<not> mbrtu_diagnostics_is_listen_only (rtu_diag s') \<and>
    holding_registers (banks (rtu_mb s')) = memcpy_at (holding_registers (banks (rtu_mb s))) (unat (0 :: u16)) vs"
    using assms by (intro write_block_exchange [where cap = 256]) simp_all
  moreover have "take 10 (memcpy_at (holding_registers (banks (rtu_mb s))) 0 vs) = vs"
    using take_drop_memcpy_at(1) [of 0 vs "holding_registers (banks (rtu_mb s))"] assms(2,3) by simp
  ultimately show ?thesis using assms(2,3) by auto
qed

text \<open>Half the way: the write is acknowledged, and the board asks for the registers.\<close>

lemma register_test_halfway:
  assumes "at_rest b" "\<not> b_cycle_active b" "b_force_request b" "b_selected_test b = 0x10"
    and hal: "\<not> hal_rx_ready hal" "\<And>sent adu. hal_transmit hal sent adu"
    and line: "\<And>rsp. rsp \<noteq> [] \<Longrightarrow> map fst (line rsp) = rsp \<and> board_well_timed board_timing (line rsp)"
    and slave: "rtu_wf s" "\<not> mbrtu_diagnostics_is_listen_only (rtu_diag s)" "256 \<le> rcap"
      "10 \<le> length (holding_registers (banks (rtu_mb s)))"
    and e: "e1 < 1000"
  defines "vs \<equiv> d_multiple_register_write_values (b_data b)"
  obtains r adu b3 s1 s2 rsp where "board_turn hal e1 (slave_turn call pol rcap line (modbus_master_process hal now quiet b, s)) = (b3, s1)"
    "asking r adu b3" "b_test_step b3 = MODBUS_MASTER_TEST_STEP_VERIFY_READBACK" "b_current_test b3 = 0x10"
    "\<not> b_force_request b3" "d_expected_registers (b_data b3) = vs" "length vs = 10"
    "c_passed (b_counts b3) = c_passed (b_counts b)"
    "slave_turn call pol rcap line (b3, s1) = (board_interrupts (map line_irq (line_events (line rsp))) b3, s2)"
    "mbrtum_process_response_with_request_adu (Some r) (Some adu) (Some rsp) = ok_response r (Some (concat (map write_be16 vs)))"
    "take 10 (holding_registers (banks (rtu_mb s2))) = vs"
proof -
  let ?b1 = "modbus_master_process hal now quiet b"
  obtain r adu where b1: "build_request 1 (Write_Multiple_Registers 0 10 vs) 256 = Inr (r, adu)" "length vs = 10"
    "asking r adu ?b1" "b_test_step ?b1 = MODBUS_MASTER_TEST_STEP_REQUEST" "b_current_test ?b1 = 0x10"
    "d_expected_registers (b_data ?b1) = vs" "\<not> b_force_request ?b1" "c_passed (b_counts ?b1) = c_passed (b_counts b)"
    using requested_test_asks [OF assms(1-4) hal, of now] unfolding vs_def by metis
  obtain d s1 where s1: "exchange call pol 1 r adu rcap s = (Some (ok_response r d), s1)" "rtu_wf s1"
    "\<not> mbrtu_diagnostics_is_listen_only (rtu_diag s1)" "10 \<le> length (holding_registers (banks (rtu_mb s1)))"
    "take 10 (holding_registers (banks (rtu_mb s1))) = vs"
    using write_exchange_first [OF b1(1,2) slave(4,1,3,2), of call pol] slave(4) by auto
  obtain rsp where turn1: "slave_turn call pol rcap line (?b1, s) =
      (board_interrupts (map line_irq (line_events (line rsp))) ?b1, s1)"
    "mbrtum_process_response_with_request_adu (Some r) (Some adu) (Some rsp) = ok_response r d"
    using slave_turn_answers [OF s1(1) b1(3)] by metis
  have l1: "map fst (line rsp) = rsp" "board_well_timed board_timing (line rsp)"
    using line [OF accepted_nonempty [OF turn1(2)]] by simp_all
  define b2 where "b2 = board_interrupts (map line_irq (line_events (line rsp))) ?b1"
  define b3 where "b3 = modbus_master_process hal (b_tx_complete_tick ?b1 + of_nat e1) quiet b2"
  obtain r' adu' where b3: "build_request 1 (Read_Registers 0x03 0 10) 256 = Inr (r', adu')" "asking r' adu' b3"
    "b_test_step b3 = MODBUS_MASTER_TEST_STEP_VERIFY_READBACK" "b_current_test b3 = 0x10" "b_data b3 = b_data ?b1"
    "b_force_request b3 = b_force_request ?b1" "c_passed (b_counts b3) = c_passed (b_counts ?b1)"
    using acknowledged_write_reads_back [OF b1(3-5) turn1(2) [unfolded ok_response_def] l1 e hal]
    unfolding b3_def b2_def by metis
  obtain s2 where s2: "exchange call pol 1 r' adu' rcap s1 = (Some (ok_response r' (Some (concat (map write_be16 vs)))), s2)"
    "rtu_mb s2 = rtu_mb s1"
    using read_exchange_first [OF b3(1) s1(4,2) slave(3) s1(3), of call pol] s1(5) by auto
  obtain rsp' where turn2: "slave_turn call pol rcap line (b3, s1) =
      (board_interrupts (map line_irq (line_events (line rsp'))) b3, s2)"
    "mbrtum_process_response_with_request_adu (Some r') (Some adu') (Some rsp') = ok_response r' (Some (concat (map write_be16 vs)))"
    using slave_turn_answers [OF s2(1) b3(2)] by metis
  have "board_turn hal e1 (slave_turn call pol rcap line (?b1, s)) = (b3, s1)"
    by (simp add: turn1(1) board_turn_def b3_def b2_def line_irqs_run)
  then show thesis
    using that [of b3 s1 r' adu' rsp' s2] b3 b1 s1(5) s2(2) turn2 by simp
qed

text \<open>
  C6. The register test passes against a slave of this library. The board is in any reachable
  state with no cycle in progress, the FC10 test is selected and requested, and the HAL
  transmits. The slave has address 1, at least ten holding registers, any other contents, and is
  not in listen-only mode. Whatever the legal gaps between the bytes on the line, and whenever
  within the response timeout the main loop runs, three passes of the main loop end the cycle
  with PASS: the slave then holds the written values in its first ten registers, and the board
  shows them as read back.
\<close>

theorem board_register_test_passes:
  assumes "board_reachable b" "\<not> b_cycle_active b" "b_force_request b" "b_selected_test b = 0x10"
    and hal: "\<not> hal_rx_ready hal" "\<And>sent adu. hal_transmit hal sent adu"
    and line: "\<And>rsp. rsp \<noteq> [] \<Longrightarrow> map fst (line rsp) = rsp \<and> board_well_timed board_timing (line rsp)"
    and slave: "rtu_wf s" "\<not> mbrtu_diagnostics_is_listen_only (rtu_diag s)" "256 \<le> rcap"
      "10 \<le> length (holding_registers (banks (rtu_mb s)))"
    and e: "e1 < 1000" "e2 < 1000"
  shows "\<exists>b' s'. board_turn hal e2 (slave_turn call pol rcap line (board_turn hal e1
      (slave_turn call pol rcap line (modbus_master_process hal now quiet b, s)))) = (b', s') \<and>
    b_last_result b' = MODBUS_MASTER_RESULT_PASS \<and> \<not> b_cycle_active b' \<and>
    c_passed (b_counts b') = c_passed (b_counts b) + 1 \<and>
    d_holding_registers (b_data b') = d_multiple_register_write_values (b_data b) \<and>
    take 10 (holding_registers (banks (rtu_mb s'))) = d_multiple_register_write_values (b_data b)"
proof (rule register_test_halfway [OF reachable_at_rest [OF assms(1)] assms(2-4) hal line slave e(1), of call pol now])
  let ?vs = "d_multiple_register_write_values (b_data b)"
  fix r adu b3 s1 s2 rsp
  assume h: "board_turn hal e1 (slave_turn call pol rcap line (modbus_master_process hal now quiet b, s)) = (b3, s1)"
    "asking r adu b3" "b_test_step b3 = MODBUS_MASTER_TEST_STEP_VERIFY_READBACK" "b_current_test b3 = 0x10"
    "\<not> b_force_request b3" "d_expected_registers (b_data b3) = ?vs" "length ?vs = 10"
    "c_passed (b_counts b3) = c_passed (b_counts b)"
    "slave_turn call pol rcap line (b3, s1) = (board_interrupts (map line_irq (line_events (line rsp))) b3, s2)"
    "mbrtum_process_response_with_request_adu (Some r) (Some adu) (Some rsp) = ok_response r (Some (concat (map write_be16 ?vs)))"
    "take 10 (holding_registers (banks (rtu_mb s2))) = ?vs"
  have l: "map fst (line rsp) = rsp" "board_well_timed board_timing (line rsp)"
    using line [OF accepted_nonempty [OF h(10)]] by simp_all
  show ?thesis
    using matching_readback_passes [OF h(2-5,7,6,10) l e(2) hal(1)] h(1,8,9,11)
    by (simp add: board_turn_def line_irqs_run)
qed assumption

text \<open>A test requested on the demo board, and a slave with sixteen holding registers.\<close>

definition demo_requested :: board where
  "demo_requested = modbus_master_request_now (demo_board\<lparr>b_selected_test := 0x10, b_auto_poll_enabled := True,
     b_data := (b_data demo_board)\<lparr>d_single_coil_write_value := 1, d_single_register_write_value := 7,
       d_multiple_coil_write_values := replicate 10 1, d_multiple_register_write_values := map of_nat [1..<11]\<rparr>\<rparr>)"

definition demo_line :: "bytes \<Rightarrow> line_frame" where
  "demo_line rsp = zip rsp (replicate (length rsp - 1) 0 @ [40])"

definition demo_slave :: rtu_state where
  "demo_slave = \<lparr>rtu_mb = mb_init
     \<lparr>banks = \<lparr>coils = replicate 16 0, discrete_inputs = replicate 16 0,
        holding_registers = replicate 16 0, input_registers = replicate 16 0, hook_log = []\<rparr>,
      device_id_state = clear_device_id_unlocked, file_record_state = [], fifo_state = [],
      mei_state = replicate 8 empty_mei_entry, app_memory = (\<lambda>_. 0)\<rparr>,
     rtu_server_id = \<lparr>sid_configured = False, sid_data = []\<rparr>, rtu_diag = Some mbrtu_diagnostics_init\<rparr>"

lemma demo_slave_ok:
  "rtu_wf demo_slave" "\<not> mbrtu_diagnostics_is_listen_only (rtu_diag demo_slave)"
  "length (holding_registers (banks (rtu_mb demo_slave))) = 16"
proof -
  have "mb_wf (rtu_mb demo_slave)"
    unfolding demo_slave_def rtu_state.simps by (rule mb_init_wf) (simp add: banks_wf_def mb_defs bit_bank_def)
  then show "rtu_wf demo_slave" by (simp add: rtu_wf_def server_id_wf_def log_wf_init demo_slave_def)
  show "\<not> mbrtu_diagnostics_is_listen_only (rtu_diag demo_slave)"
    by (simp add: demo_slave_def mbrtu_diagnostics_is_listen_only_def mbrtu_diagnostics_init_def)
  show "length (holding_registers (banks (rtu_mb demo_slave))) = 16"
    by (simp add: demo_slave_def mb_init_def init_banks_def)
qed

lemma demo_requested_ok:
  "board_reachable demo_requested" "\<not> b_cycle_active demo_requested" "b_force_request demo_requested"
  "b_selected_test demo_requested = 0x10" "d_multiple_register_write_values (b_data demo_requested) = map of_nat [1..<11]"
proof -
  show r: "board_reachable demo_requested"
    unfolding demo_requested_def by (intro board_reachable.request board_reachable.edit demo_board_reachable) simp_all
  have "\<not> b_cycle_active demo_board" using reachable_at_rest [OF demo_board_reachable] init_idle [OF demo_board_init] by simp
  then show "\<not> b_cycle_active demo_requested" by (simp add: demo_requested_def modbus_master_request_now_def)
  show "b_force_request demo_requested" "b_selected_test demo_requested = 0x10"
    "d_multiple_register_write_values (b_data demo_requested) = map of_nat [1..<11]"
    by (simp_all add: demo_requested_def modbus_master_request_now_def)
qed

lemma demo_line_ok: "rsp \<noteq> [] \<Longrightarrow> map fst (demo_line rsp) = rsp \<and> board_well_timed board_timing (demo_line rsp)"
proof -
  assume "rsp \<noteq> []"
  then obtain xs x where r: "rsp = xs @ [x]" by (meson rev_exhaust)
  then have "demo_line rsp = zip xs (replicate (length xs) 0) @ [(x, 40)]" by (simp add: demo_line_def)
  then show ?thesis by (auto simp: r board_well_timed_def inner_gaps_def)
qed

lemma demo_hal_ok: "\<not> hal_rx_ready demo_hal" "hal_transmit demo_hal sent adu"
  by (simp_all add: demo_hal_def)

theorem board_register_test_passes_witness:
  "\<exists>b' s'. board_turn demo_hal 7 (slave_turn demo_call None 256 demo_line (board_turn demo_hal 999
      (slave_turn demo_call None 256 demo_line (modbus_master_process demo_hal 0 quiet demo_requested, demo_slave)))) =
        (b', s') \<and> b_last_result b' = MODBUS_MASTER_RESULT_PASS \<and>
    take 10 (holding_registers (banks (rtu_mb s'))) = map of_nat [1..<11]"
  using board_register_test_passes [OF demo_requested_ok(1-4) demo_hal_ok demo_line_ok demo_slave_ok(1,2),
      of 256 999 7 demo_call None 0] demo_slave_ok(3)
  unfolding demo_requested_ok(5) by (auto simp del: upt_rec_numeral)

section \<open>The verdict\<close>

text \<open>
  C8. The verdict of a test cycle is true. When a write test ends with PASS after its read-back,
  the last response is one that validation accepts for the read request, and every value the
  test wrote is the value decoded from that response. When it ends with a verification error,
  the index, the expected and the actual value it reports are those of the first element of the
  response that differs from what was written.
\<close>

theorem board_verdict_sound:
  assumes "board_inv b" "b_test_step b = MODBUS_MASTER_TEST_STEP_VERIFY_READBACK"
  shows "(b_last_result (modbus_master_handle_terminal_transaction hal now b) = MODBUS_MASTER_RESULT_PASS \<longrightarrow>
      mbrtum_process_response_with_request_adu (Some (t_request (b_txn b))) (Some (t_request_adu (b_txn b)))
        (Some (t_response_adu (b_txn b))) = MBRTUM_OK (t_response (b_txn b)) \<and>
      (\<forall>i < checked_count b. read_back b i = Inr (written b i))) \<and>
    (b_last_result (modbus_master_handle_terminal_transaction hal now b) = MODBUS_MASTER_RESULT_VERIFY_ERROR \<longrightarrow>
      (\<exists>i < checked_count b. \<exists>v.
        d_mismatch_index (b_data (modbus_master_handle_terminal_transaction hal now b)) = of_nat i \<and>
        d_verification_expected (b_data (modbus_master_handle_terminal_transaction hal now b)) = written b i \<and>
        d_verification_actual (b_data (modbus_master_handle_terminal_transaction hal now b)) = v \<and>
        read_back b i = Inr v \<and> v \<noteq> written b i \<and> (\<forall>j < i. read_back b j = Inr (written b j))))"
proof -
  let ?res = "b_last_result (modbus_master_handle_terminal_transaction hal now b)"
  let ?d = "b_data (modbus_master_handle_terminal_transaction hal now b)"
  have result: "(\<forall>i < checked_count b. read_back b i = Inr (written b i)) \<and> t_result (b_txn b) = MBRTUM_TXN_RESULT_SUCCESS"
    if "?res = MODBUS_MASTER_RESULT_PASS"
  proof (rule verdict_cases [OF assms refl disjI1 [OF that]])
    fix b1 b2 assume v: "modbus_master_decode_read_response b = (None, b1)"
      "modbus_master_verify_readback b1 = (?res = MODBUS_MASTER_RESULT_PASS, b2)"
      "t_result (b_txn b) = MBRTUM_TXN_RESULT_SUCCESS"
    from decoded_readback [OF assms v(1)] obtain d where d: "b1 = b\<lparr>b_data := d\<rparr>"
      "\<forall>i < 10. read_back b i = Inr (compared b1 i)" "written b1 = written b" "checked_count b1 = checked_count b"
      by (auto simp: compared_def written_def checked_count_def fun_eq_iff)
    have "checked_count b \<le> 10" by (simp add: checked_count_def)
    with verify_result(1) [OF v(2) that] d(2-4) v(3) show ?thesis by auto
  qed
  have mismatch: "\<exists>i < checked_count b. d_mismatch_index ?d = of_nat i \<and> d_verification_expected ?d = written b i \<and>
      read_back b i = Inr (d_verification_actual ?d) \<and> d_verification_actual ?d \<noteq> written b i \<and>
      (\<forall>j < i. read_back b j = Inr (written b j))"
    if "?res = MODBUS_MASTER_RESULT_VERIFY_ERROR"
  proof (rule verdict_cases [OF assms refl disjI2 [OF that]])
    fix b1 b2 assume v: "modbus_master_decode_read_response b = (None, b1)"
      "modbus_master_verify_readback b1 = (?res = MODBUS_MASTER_RESULT_PASS, b2)" "?d = b_data b2"
    from decoded_readback [OF assms v(1)] obtain d where d: "b1 = b\<lparr>b_data := d\<rparr>"
      "\<forall>i < 10. read_back b i = Inr (compared b1 i)" "written b1 = written b" "checked_count b1 = checked_count b"
      by (auto simp: compared_def written_def checked_count_def fun_eq_iff)
    have "\<not> (?res = MODBUS_MASTER_RESULT_PASS)" using that by simp
    from verify_result(2) [OF v(2) this] obtain i where i: "i < checked_count b" "d_mismatch_index ?d = of_nat i"
      "d_verification_expected ?d = written b i" "d_verification_actual ?d = compared b1 i"
      "compared b1 i \<noteq> written b i" "\<forall>j < i. compared b1 j = written b j" unfolding d(3,4) v(3) by blast
    moreover have "checked_count b \<le> 10" by (simp add: checked_count_def)
    ultimately have "i < 10" "\<forall>j < i. read_back b j = Inr (written b j)" using d(2) by auto
    with d(2) i show ?thesis by auto
  qed
  have "outcome_ok (b_txn b)" "rq_expects_response (t_request (b_txn b)) \<noteq> 0"
    using assms by (simp_all add: board_inv_def txn_ok_def txn_wf_def cycle_ok_def)
  with result mismatch show ?thesis by (auto simp: outcome_ok_def)
qed

text \<open>The demo run reaches such a verdict.\<close>

lemma demo_verdict:
  obtains b where "board_inv b" "b_test_step b = MODBUS_MASTER_TEST_STEP_VERIFY_READBACK" "b_current_test b = 0x10"
    "b_last_result (modbus_master_handle_terminal_transaction demo_hal 0 b) = MODBUS_MASTER_RESULT_PASS"
proof (rule register_test_halfway [OF reachable_at_rest [OF demo_requested_ok(1)] demo_requested_ok(2-4) demo_hal_ok
      demo_line_ok demo_slave_ok(1,2), of 256 0 demo_call None 0])
  let ?vs = "d_multiple_register_write_values (b_data demo_requested)"
  fix r adu b3 rsp
  assume h: "asking r adu b3" "b_test_step b3 = MODBUS_MASTER_TEST_STEP_VERIFY_READBACK" "b_current_test b3 = 0x10"
    "d_expected_registers (b_data b3) = ?vs" "length ?vs = 10"
    "mbrtum_process_response_with_request_adu (Some r) (Some adu) (Some rsp) = ok_response r (Some (concat (map write_be16 ?vs)))"
  have l: "map fst (demo_line rsp) = rsp" "board_well_timed board_timing (demo_line rsp)" "(0 :: nat) < 1000"
    using demo_line_ok [OF accepted_nonempty [OF h(6)]] by simp_all
  note b7 = answer_accepted [OF h(1) h(6) [unfolded ok_response_def] l demo_hal_ok(1)]
  define b7 where "b7 = pass_prefix demo_hal (b_tx_complete_tick b3 + of_nat 0)
    (board_interrupts (map line_irq (line_events (demo_line rsp))) b3)"
  note b7 = b7 [folded b7_def]
  have st: "b_test_step b7 = MODBUS_MASTER_TEST_STEP_VERIFY_READBACK" "b_current_test b7 = 0x10" "b_cycle_active b7"
    "d_expected_registers (b_data b7) = ?vs" using b7(2) h by (simp_all add: same_books_def asking_def)
  have "b_last_result (finish_read 0 b7) = MODBUS_MASTER_RESULT_PASS"
    using finish_read_passes(1) [OF b7(1) st(1,2) h(5) st(4)] b7(7,8) by simp
  then have "b_last_result (modbus_master_handle_terminal_transaction demo_hal 0 b7) = MODBUS_MASTER_RESULT_PASS"
    using st b7(5,6) by (simp add: modbus_master_handle_terminal_transaction_def)
  with that b7(1) st(1,2) show thesis by blast
qed (use demo_slave_ok(3) in simp_all)

theorem board_verdict_sound_witness:
  "\<exists>b. b_last_result (modbus_master_handle_terminal_transaction demo_hal 0 b) = MODBUS_MASTER_RESULT_PASS \<and>
    read_back b 9 = Inr (written b 9)"
proof -
  obtain b where b: "board_inv b" "b_test_step b = MODBUS_MASTER_TEST_STEP_VERIFY_READBACK" "b_current_test b = 0x10"
    "b_last_result (modbus_master_handle_terminal_transaction demo_hal 0 b) = MODBUS_MASTER_RESULT_PASS"
    by (rule demo_verdict)
  then have "9 < checked_count b" by (simp add: checked_count_def)
  with board_verdict_sound [OF b(1,2), of demo_hal 0] b(4) show ?thesis by blast
qed

end
