(* ===== verification/Board_Silence.thy ===== *)
theory Board_Silence
  imports Board_System
begin

text \<open>
  The board on a silent line: a cycle whose slave does not answer ends by its timeouts and
  retries, whatever the transmitter does.
\<close>

text \<open>The steps the transaction of the cycle has left before it gives up.\<close>

definition budget :: "mbrtum_transaction \<Rightarrow> nat" where
  "budget t = (if t_state t = MBRTUM_TXN_STATE_WAITING_RESPONSE then 2 * (2 - unat (t_retries_used t)) + 1
     else if t_state t = MBRTUM_TXN_STATE_RETRY_DELAY then 2 * (2 - unat (t_retries_used t)) + 2 else 0)"

lemma budget_bound: "budget t \<le> 6"
  by (simp add: budget_def) arith

lemma retry_or_fail:
  assumes "t_config t = board_txn_config"
  shows "(t_state (schedule_retry_or_finish now res t) = MBRTUM_TXN_STATE_RETRY_DELAY \<and>
      t_retries_used t < 2 \<and> unat (t_retries_used (schedule_retry_or_finish now res t)) = Suc (unat (t_retries_used t))) \<or>
    (t_state (schedule_retry_or_finish now res t) = MBRTUM_TXN_STATE_FAILED \<and>
      t_result (schedule_retry_or_finish now res t) = res)"
  using assms unat_inc_retries [of "t_retries_used t" 2]
  by (auto simp: schedule_retry_or_finish_def finish_def bump_diag_def board_txn_config_def)

text \<open>What a failed attempt leads to: another try with one retry less, or the end with the reason.\<close>

definition attempt_over :: "mbrtum_transaction \<Rightarrow> mbrtum_transaction \<Rightarrow> bool" where
  "attempt_over t t' \<longleftrightarrow> (t_state t' = MBRTUM_TXN_STATE_RETRY_DELAY \<and> t_retries_used t < 2 \<and>
       unat (t_retries_used t') = Suc (unat (t_retries_used t))) \<or>
     (t_state t' = MBRTUM_TXN_STATE_FAILED \<and> t_result t' \<in> {MBRTUM_TXN_RESULT_TIMEOUT,
        MBRTUM_TXN_RESULT_RESPONSE_ERROR, MBRTUM_TXN_RESULT_TRANSPORT_ERROR})"

lemma timeout_over:
  assumes "t_config t = board_txn_config"
  shows "attempt_over t (handle_response_timeout now t)"
  using assms retry_or_fail [of "bump_diag (\<lambda>d. d\<lparr>timeouts := inc_sat (timeouts d)\<rparr>) t" now
      "if t_saw_response_error t then MBRTUM_TXN_RESULT_RESPONSE_ERROR else MBRTUM_TXN_RESULT_TIMEOUT"]
  by (auto simp: attempt_over_def handle_response_timeout_def bump_diag_def Let_def)

lemma transport_error_over:
  assumes "t_config t = board_txn_config"
  shows "attempt_over t (handle_transport_error now t)"
  using assms retry_or_fail [of "bump_diag (\<lambda>d. d\<lparr>transport_errors := inc_sat (transport_errors d)\<rparr>) t" now
      MBRTUM_TXN_RESULT_TRANSPORT_ERROR]
  by (auto simp: attempt_over_def handle_transport_error_def bump_diag_def Let_def board_txn_config_def)

lemma attempt_over_budget:
  assumes "attempt_over t t'" "t_state t = MBRTUM_TXN_STATE_WAITING_RESPONSE \<or> t_state t = MBRTUM_TXN_STATE_RETRY_DELAY"
  shows "budget t' < budget t"
  using assms by (auto simp: attempt_over_def budget_def word_less_nat_alt)

lemma transmit_over:
  assumes "t_config t = board_txn_config" "\<not> transmit (t_sent t) (t_request_adu t)"
  shows "attempt_over t (snd (begin_transmit transmit now t))"
proof -
  let ?t = "(bump_diag (\<lambda>d. d\<lparr>transmission_attempts := inc_sat (transmission_attempts d)\<rparr>)
    ((clear_response t)\<lparr>t_saw_response_error := False, t_state := MBRTUM_TXN_STATE_TRANSMITTING\<rparr>))
    \<lparr>t_sent := t_sent t @ [t_request_adu t]\<rparr>"
  have "snd (begin_transmit transmit now t) = handle_transport_error now ?t"
    using assms(2) by (simp add: begin_transmit_def Let_def bump_diag_def clear_response_def)
  moreover have "attempt_over ?t (handle_transport_error now ?t)"
    using assms(1) by (intro transport_error_over) (simp add: bump_diag_def clear_response_def)
  moreover have "t_retries_used ?t = t_retries_used t" by (simp add: bump_diag_def clear_response_def)
  ultimately show ?thesis by (simp add: attempt_over_def)
qed

section \<open>A pass on a silent line\<close>

definition silent :: "board \<Rightarrow> bool" where
  "silent b \<longleftrightarrow> \<not> m_pending_ready (b_link b) \<and> \<not> b_uart_error_pending b"

text \<open>The transaction after polling at the deadline and reporting the end of a transmission.\<close>

lemma due_poll:
  fixes hal :: board_hal
  assumes "board_inv b" "b_cycle_active b" "\<not> b_tx_complete_pending b" "state_is_active (t_state (b_txn b))"
    "deadline_reached now (t_deadline (b_txn b))"
  defines "p \<equiv> modbus_master_handle_tx_complete
    (snd (with_transport hal (\<lambda>transmit. mbrtum_transaction_poll transmit now) b))"
  shows "budget (b_txn p) < budget (b_txn b)"
    "(t_state (b_txn p) = MBRTUM_TXN_STATE_FAILED \<and> t_result (b_txn p) \<in> {MBRTUM_TXN_RESULT_TIMEOUT,
        MBRTUM_TXN_RESULT_RESPONSE_ERROR, MBRTUM_TXN_RESULT_TRANSPORT_ERROR}) \<or>
     t_state (b_txn p) = MBRTUM_TXN_STATE_WAITING_RESPONSE \<or> t_state (b_txn p) = MBRTUM_TXN_STATE_RETRY_DELAY"
proof -
  let ?t = "b_txn b" let ?q = "snd (with_transport hal (\<lambda>transmit. mbrtum_transaction_poll transmit now) b)"
  have ok: "txn_wf ?t" "t_config ?t = board_txn_config" "t_request_adu ?t \<noteq> []" "length (t_request_adu ?t) \<le> 65535"
    "t_state ?t \<noteq> MBRTUM_TXN_STATE_TRANSMITTING" "transaction_is_initialized ?t"
    using assms(1-3) by (auto simp: board_inv_def txn_ok_def txn_wf_def)
  have q: "txn_ok ?q" using poll_inv [OF assms(1)] by (simp add: board_inv_def)
  have st: "t_state ?t = MBRTUM_TXN_STATE_WAITING_RESPONSE \<or> t_state ?t = MBRTUM_TXN_STATE_RETRY_DELAY"
    using assms(4) ok(5) by (auto simp: state_is_active_def)
  have "budget (b_txn p) < budget ?t \<and> (attempt_over ?t (b_txn p) \<or> t_state (b_txn p) = MBRTUM_TXN_STATE_WAITING_RESPONSE)"
  proof (rule poll_cases [OF ok(1), of hal now])
    assume sends: "t_state ?t = MBRTUM_TXN_STATE_RETRY_DELAY" "?q = after_transmit hal now ?t b"
    show ?thesis
    proof (cases "board_transport hal (t_sent ?t) (t_request_adu ?t)")
      case True
      then have "b_tx_complete_pending ?q" using after_transmit_pending(1) [OF ok(3,4), of hal now b] sends(2) by simp
      then have "b_txn p = (b_txn ?q)\<lparr>t_deadline := b_tx_complete_tick ?q + 1000,
          t_state := MBRTUM_TXN_STATE_WAITING_RESPONSE\<rparr>"
        by (simp add: p_def handle_tx_complete_run [OF q])
      moreover have "t_retries_used (b_txn ?q) = t_retries_used ?t"
        using True by (simp add: sends(2) txn_op_defs Let_def)
      ultimately show ?thesis using sends(1) by (simp add: budget_def)
    next
      case False
      then have "\<not> b_tx_complete_pending ?q" using after_transmit_pending(1) [OF ok(3,4), of hal now b] sends(2) by simp
      then have "b_txn p = snd (begin_transmit (board_transport hal) now ?t)"
        unfolding p_def handle_tx_complete_run [OF q] using sends(2) by simp
      with transmit_over [where transmit = "board_transport hal", OF ok(2) False, of now] attempt_over_budget [OF _ st]
      show ?thesis by simp
    qed
  next
    fix t assume silent: "?q = b\<lparr>b_txn := t\<rparr>" "t = snd (mbrtum_transaction_poll (board_transport hal) now ?t)"
      "t = ?t \<or> (t_state ?t = MBRTUM_TXN_STATE_WAITING_RESPONSE \<and> t = handle_response_timeout now ?t)"
    have "t \<noteq> ?t"
    proof
      assume "t = ?t"
      moreover have "t_sent t = t_sent ?t @ [t_request_adu ?t]" if "t_state ?t = MBRTUM_TXN_STATE_RETRY_DELAY"
        using that assms(5) ok(6) by (simp add: silent(2) mbrtum_transaction_poll_def begin_transmit_sent)
      moreover have "t = handle_response_timeout now ?t" if "t_state ?t = MBRTUM_TXN_STATE_WAITING_RESPONSE"
        using that assms(5) ok(6) by (simp add: silent(2) mbrtum_transaction_poll_def)
      ultimately show False using st timeout_state [of now ?t] by auto
    qed
    then have t: "t = handle_response_timeout now ?t" using silent(3) by simp
    have "b_txn p = t"
      unfolding p_def handle_tx_complete_run [OF q] using assms(3) by (simp add: silent(1))
    with timeout_over [OF ok(2), of now] attempt_over_budget [OF _ st] t show ?thesis by simp
  qed
  then show "budget (b_txn p) < budget ?t"
    "(t_state (b_txn p) = MBRTUM_TXN_STATE_FAILED \<and> t_result (b_txn p) \<in> {MBRTUM_TXN_RESULT_TIMEOUT,
        MBRTUM_TXN_RESULT_RESPONSE_ERROR, MBRTUM_TXN_RESULT_TRANSPORT_ERROR}) \<or>
     t_state (b_txn p) = MBRTUM_TXN_STATE_WAITING_RESPONSE \<or> t_state (b_txn p) = MBRTUM_TXN_STATE_RETRY_DELAY"
    by (auto simp: attempt_over_def)
qed

lemma silent_sync: "silent b \<Longrightarrow> silent (modbus_master_sync_watch_state b)"
  by (simp add: silent_def modbus_master_sync_watch_state_def Let_def close_window_def modbus_master_rx_reset_all_def
      modbus_master_rx_reset_active_isr_def)

lemma sync_force:
  "b_force_request (modbus_master_sync_watch_state b) = b_force_request b"
  "b_next_cycle_ms (modbus_master_sync_watch_state b) = b_next_cycle_ms b"
  by (simp_all add: modbus_master_sync_watch_state_def Let_def close_window_def)

lemma silent_finish: "silent b \<Longrightarrow> silent (modbus_master_finish_cycle res now b)"
  by (simp add: silent_def modbus_master_finish_cycle_def Let_def close_window_def modbus_master_rx_reset_all_def
      modbus_master_rx_reset_active_isr_def)

text \<open>A pass at the deadline takes a step from the budget, or ends the cycle with a reason.\<close>

lemma due_pass:
  fixes hal :: board_hal
  assumes "at_rest b" "b_cycle_active b" "silent b" "\<not> b_force_request b" "\<not> hal_rx_ready hal"
    "deadline_reached now (t_deadline (b_txn b))"
  defines "b' \<equiv> modbus_master_process hal now quiet b"
  shows "silent b' \<and> \<not> b_force_request b' \<and>
    (b_cycle_active b' \<and> budget (b_txn b') < budget (b_txn b) \<or>
     \<not> b_cycle_active b' \<and> b_last_result b' \<in> {MODBUS_MASTER_RESULT_TIMEOUT, MODBUS_MASTER_RESULT_RESPONSE_ERROR,
       MODBUS_MASTER_RESULT_TRANSPORT_ERROR})"
proof -
  define q where "q = snd (with_transport hal (\<lambda>transmit. mbrtum_transaction_poll transmit now) b)"
  define p where "p = modbus_master_handle_tx_complete q"
  have b: "board_inv b" "\<not> b_tx_complete_pending b" "state_is_active (t_state (b_txn b))"
    using assms(1,2) by (simp_all add: at_rest_def)
  have ok: "txn_ok b" "txn_wf (b_txn b)" using b(1) by (simp_all add: board_inv_def txn_ok_def)
  have pre: "pass_prefix hal now b = modbus_master_sync_watch_state p"
    using assms(3,5) b(2) handle_tx_complete_run [OF ok(1)]
    by (simp add: pass_prefix_def p_def q_def silent_def modbus_master_ensure_receive_armed_def
        modbus_master_process_response_frame_def modbus_master_process_uart_error_def Let_def)
  note step = due_poll [OF b(1) assms(2) b(2,3) assms(6), of hal, folded q_def, folded p_def]
  have q: "b_force_request q = b_force_request b" "b_cycle_active q = b_cycle_active b" "silent q"
    using poll_cases [OF ok(2), of hal now] assms(3)
      after_transmit_pending(5) [of "b_txn b" hal now b] b(1) assms(2)
    by (fastforce simp: q_def silent_def board_inv_def txn_ok_def txn_wf_def)+
  then have p: "b_force_request p = b_force_request b" "b_cycle_active p" "silent p"
    using assms(2) poll_inv [OF b(1), of hal now] handle_tx_complete_run [of q]
    by (auto simp: p_def q_def silent_def board_inv_def)
  let ?s = "modbus_master_sync_watch_state p"
  have run: "b' = pass_suffix hal now (modbus_master_sync_watch_state
      (modbus_master_handle_terminal_transaction hal now ?s))"
    unfolding b'_def quiet_pass [OF assms(1)] pre ..
  note sync_keeps = silent_sync sync_force
  show ?thesis
  proof (cases "t_state (b_txn p) = MBRTUM_TXN_STATE_FAILED")
    case True
    let ?f = "modbus_master_finish_cycle (modbus_master_map_terminal_result (t_result (b_txn p))) now ?s"
    have "modbus_master_handle_terminal_transaction hal now ?s = ?f"
      using True p(2) by (simp add: modbus_master_handle_terminal_transaction_def)
    then have "b' = modbus_master_sync_watch_state ?f"
      unfolding run using p(1) assms(4) next_cycle_later [of now] by (simp add: pass_suffix_def sync_keeps)
    moreover have "silent ?f" using p(3) by (simp add: silent_finish silent_sync)
    ultimately show ?thesis using p(1) assms(4) step(2) True by (auto simp: sync_keeps)
  next
    case False
    then have "modbus_master_handle_terminal_transaction hal now ?s = ?s"
      using step(2) by (auto simp: modbus_master_handle_terminal_transaction_def Let_def)
    then have "b' = modbus_master_sync_watch_state ?s"
      unfolding run using p(2) by (simp add: pass_suffix_def)
    then show ?thesis using p step(1) assms(4) by (simp add: sync_keeps)
  qed
qed

text \<open>
  C9. A test cycle always ends. On a silent line, whatever the transmitter does, take any
  sequence of passes each of which comes at or after the deadline of the transaction then in
  progress: at the latest the sixth of them ends the cycle, with the verdict timeout, response
  error or transport error.
\<close>

theorem board_cycle_ends:
  assumes "board_reachable (b 0)" "b_cycle_active (b 0)" "silent (b 0)" "\<not> b_force_request (b 0)"
    "\<And>k. \<not> hal_rx_ready (hal k)" "\<And>k. b (Suc k) = modbus_master_process (hal k) (now k) (\<lambda>_. []) (b k)"
    "\<And>k. b_cycle_active (b k) \<Longrightarrow> deadline_reached (now k) (t_deadline (b_txn (b k)))"
  shows "\<exists>k \<le> 6. \<not> b_cycle_active (b k) \<and> b_last_result (b k) \<in> {MODBUS_MASTER_RESULT_TIMEOUT,
    MODBUS_MASTER_RESULT_RESPONSE_ERROR, MODBUS_MASTER_RESULT_TRANSPORT_ERROR}"
proof (rule ccontr)
  assume never: "\<not> ?thesis"
  have rest: "at_rest (b k)" for k
    using reachable_at_rest [OF assms(1)] by (induction k) (simp_all add: assms(6) process_at_rest)
  have "b_cycle_active (b k) \<and> silent (b k) \<and> \<not> b_force_request (b k) \<and> budget (b_txn (b k)) + k \<le> budget (b_txn (b 0))"
    if "k \<le> 6" for k
    using that
  proof (induction k)
    case (Suc k)
    then have k: "b_cycle_active (b k)" "silent (b k)" "\<not> b_force_request (b k)" "budget (b_txn (b k)) + k \<le> budget (b_txn (b 0))"
      by simp_all
    have "\<not> (\<not> b_cycle_active (b (Suc k)) \<and> b_last_result (b (Suc k)) \<in> {MODBUS_MASTER_RESULT_TIMEOUT,
      MODBUS_MASTER_RESULT_RESPONSE_ERROR, MODBUS_MASTER_RESULT_TRANSPORT_ERROR})"
      using never Suc.prems by blast
    with due_pass [OF rest k(1-3) assms(5) assms(7) [OF k(1)], of k, folded assms(6)] k(4)
    show ?case by auto
  qed (use assms(2-4) in simp)
  from this [of 6] budget_bound [of "b_txn (b 0)"]
  have "b_cycle_active (b 6)" "budget (b_txn (b 6)) = 0" by simp_all
  then show False
    using rest [of 6] by (auto simp: at_rest_def board_inv_def txn_ok_def budget_def state_is_active_def split: if_splits)
qed

text \<open>The demo board with no slave on the line.\<close>

primrec demo_silence :: "nat \<Rightarrow> board" where
  "demo_silence 0 = modbus_master_process demo_hal 0 quiet demo_requested"
| "demo_silence (Suc k) =
     modbus_master_process demo_hal (t_deadline (b_txn (demo_silence k))) quiet (demo_silence k)"

lemma demo_silence_start: "b_cycle_active (demo_silence 0) \<and> silent (demo_silence 0) \<and> \<not> b_force_request (demo_silence 0)"
  by (rule requested_test_asks [OF reachable_at_rest [OF demo_requested_ok(1)] demo_requested_ok(2-4) demo_hal_ok, of 0])
    (simp add: asking_def silent_def)

theorem board_cycle_ends_witness:
  "\<exists>k \<le> 6. \<not> b_cycle_active (demo_silence k) \<and> b_last_result (demo_silence k) \<in> {MODBUS_MASTER_RESULT_TIMEOUT,
    MODBUS_MASTER_RESULT_RESPONSE_ERROR, MODBUS_MASTER_RESULT_TRANSPORT_ERROR}"
proof (rule board_cycle_ends [where hal = "\<lambda>_. demo_hal" and now = "\<lambda>k. t_deadline (b_txn (demo_silence k))"])
  show "board_reachable (demo_silence 0)" by (simp add: board_reachable.pass demo_requested_ok(1))
qed (use demo_silence_start in \<open>simp_all add: demo_hal_ok deadline_reached_def\<close>)

end
