(* ===== verification/Spec2Isabelle.thy ===== *)
theory Spec2Isabelle
  imports Posix_Server Board_Silence
begin

text \<open>
  A verification of the portable Modbus stack under src/App, a server with a TCP transport
  (lwIP) and a serial RTU transport, and an RTU master; and of two applications of it under
  src/Examples, the POSIX demo server and the STM32F767 master.

  \<^bold>\<open>The program.\<close> One library state (register banks, file map, FIFO map, device identification,
  MEI handler registry; modbus.c) is served by one PDU interpreter (modbus_protocol.c). Two
  transports hand it request PDUs: the TCP server (modbus_tcp.c, framing \<open>mbtcp_process_adu\<close> in
  modbus_protocol.c) reassembles a byte stream into MBAP frames; the RTU slave (modbus_rtu.c)
  receives bytes in interrupt handlers, detects frame ends by silence, and processes complete
  frames in the main loop, where serial-line diagnostics (modbus_rtu_diagnostics.c) and Report
  Server ID (modbus_rtu_server_id.c) come before the PDU interpreter. The master
  (modbus_rtu_master.c) builds request frames, validates response frames against them and
  decodes them; modbus_rtu_master_transaction.c drives one exchange with timeouts and retries.
  Examples/posix_server.c serves one TCP client at a time over sockets.
  Examples/STM32F767_RTU_Master/app/app.c runs cycles of write, read back and compare on the
  line: its interrupts detect the response frames, its main loop drives the transaction and
  reports a verdict per cycle.

  \<^bold>\<open>Conventions.\<close> \<open>uint8_t\<close> to \<open>uint64_t\<close> are words of that width, so arithmetic wraps as in C;
  \<open>size_t\<close> lengths are \<open>nat\<close>, bounded by the buffers. A buffer with a length is a list. A
  possibly-NULL pointer is an \<open>option\<close>. A handler returns \<open>Inl\<close> of an exception or error code or
  \<open>Inr\<close> of the response bytes, with the new state. State shared by the application (file
  records, FIFO blocks) is one address space of 16-bit cells, so arrays may overlap as in C.
  Callbacks of the application, the policy for diagnostics, MEI handlers, the transmit
  functions, lwIP, the sockets and the board HAL are parameters; the calls the code makes to them are logged. Loops over a
  buffer are structural or well-founded recursion; no definition needs fuel. \<open>mb_lock\<close> and
  \<open>mb_unlock\<close> are left out: an operation of the model runs with no other task in between. In the
  source this holds within each locked section; FC01 to FC04, FC15, FC16 and FC23 take the lock
  for each element, so another task may run between two elements, and MEI handlers run without
  the lock. The model says nothing of these cases, and a callback does not call the library.

  \<^bold>\<open>The theories, in the order of the code.\<close>
  \<^item> \<open>Prelude\<close>: integer types, list and word lemmas, the locale of a two-byte codec.
    \<open>Bytes\<close>: \<open>read_be16\<close>, \<open>write_be16\<close>, the CRC trailer. \<open>Crc16\<close>: \<open>mb_crc16\<close>; the master's check and
    the slave's check accept the same frames, and up to two adjacent corrupted bytes are found.
  \<^item> \<open>Register_Map\<close>: the four banks and their accessors, with bounds.
    \<open>Keyed_Table\<close>: the locale of the sorted tables that \<open>File_Record\<close> and \<open>Fifo\<close> interpret.
    \<open>File_Record\<close>: FC20 and FC21 are atomic, confined to configured files, and inverse.
    \<open>Fifo\<close>: FC24 takes a snapshot. \<open>Device_Id\<close>: FC43/14; following the page references returns
    every object of the category exactly once. \<open>Mei\<close>: the handler registry refines a bounded
    finite map.
  \<^item> \<open>Pdu\<close>: \<open>process_pdu_function\<close> and \<open>mb_process_pdu\<close>: every legal request is answered within
    capacity, exceptions change nothing, and what each function code reads and writes. The
    locale \<open>pdu_server\<close> is the contract the transports rely on.
  \<^item> \<open>Mbtcp\<close>, \<open>Tcp_Server\<close>: framing, and the client table; responses do not depend on how the
    stream is cut into segments, and pipelined requests are answered in order.
  \<^item> \<open>Diagnostics\<close>, \<open>Server_Id\<close>, \<open>Rtu\<close>: complete-frame RTU processing: silence or a valid answer,
    broadcasts, listen-only mode, authorisation of state-changing diagnostics, the event log.
  \<^item> \<open>Rtu_Timing\<close>, \<open>Rtu_Link\<close>: tick counts of the silences; the interrupt handlers refine a
    specification of frame reception, interleaved interrupts never touch the frame the main
    loop works on, and a request on the line is answered by the next poll.
  \<^item> \<open>Master_Request\<close>, \<open>Master_Response\<close>, \<open>Master_Views\<close>: builders, response validation and
    accessors of the master. \<open>Transaction\<close>: the state machine with soundness of the outcome,
    bounded retries, termination and the wrap-safe response window.
  \<^item> \<open>Master_Exchange\<close>: every built request is accepted by the transaction layer and its answer
    can be validated. \<open>Master_Slave\<close>: registers written through the slave are read back by the
    accessors of the master. \<open>Interop\<close>: on every function code the answer of the slave passes the
    validation of the master, so that a transaction with the slave completes.
  \<^item> \<open>Posix_Server\<close>: \<open>send_all\<close> and \<open>process_client\<close> over lists of results of \<open>send\<close> and \<open>recv\<close>; the
    server answers as the lwIP server does, with partial and interrupted calls.
  \<^item> \<open>Board_Rx\<close>: the interrupt handlers of app.c are those of \<open>Rtu_Link\<close> run with a shorter
    end-of-frame deadline, and what the difference does. \<open>Board_Master\<close>: the data of app.c, a
    pass of its main loop and its callbacks; interrupts are served between the stages of a
    pass. \<open>Board_Cycle\<close>: reachable states of the board, their invariant, and that a cycle in
    progress always has a transaction in progress. \<open>Board_System\<close>: the register test against
    the RTU slave passes, over the line and back, and verdicts agree with the validated
    response. \<open>Board_Silence\<close>: without a slave, six passes at the deadlines end a cycle.

  \<^bold>\<open>Bounds.\<close> A PDU has 1 to 253 bytes, an RTU frame 4 to 256, a TCP frame 8 to 260; the bank sizes
  are 1 to 65536. Hypotheses with 256 or 253 give a caller's buffer the size of the largest
  frame; the sizes are those of modbus_rtu.h and modbus.h. The demo states of the witnesses use
  banks of 8 to 16 elements.

  \<^bold>\<open>Not modelled.\<close> platform_stm32.c (a mutex of the RTOS and the tick of the HAL),
  stm32_cube_main.c and \<open>main\<close> of posix_server.c (start-up calls and the accept loop), the console
  output of \<open>app\<close> in app.c, the vendored CMSIS and HAL drivers and the generated start-up code of
  the board, the tests, and the stubs of modbus_rtu.c for builds without diagnostics or server
  identification: they are calls to third-party code, or replaced by the full build that is
  modelled. An interrupt of the board in the middle of a stage of a pass is not modelled. The
  physical line, lwIP, the sockets, the HAL and the application callbacks are parameters.
\<close>

end
